(* ===== verification/Turn_Prelude.thy ===== *)
theory Turn_Prelude
  imports Main "HOL-Library.Word"
begin

text \<open>
  Shared vocabulary of the development: the machine integers of the C code, byte buffers,
  loads and stores of little-endian machine words, the byte swaps of
  \<^verbatim>\<open>src/coturn/src/ns_turn_defs.h\<close>, and the lemma collections the components use.

  The model fixes a little-endian host with 64-bit \<open>unsigned long\<close> (x86-64 Linux). A C buffer is
  a \<^typ>\<open>8 word list\<close> holding the whole array the pointer refers to; the number of bytes in use
  travels separately, as \<^verbatim>\<open>size_t *len\<close> does in the code. A load outside the array gives
  \<open>0\<close> and a store outside it is dropped: both are undefined behaviour in C, and the bounds lemmas of
  the components show that their operations do not get there.
\<close>

unbundle bit_operations_syntax

named_theorems mem_simps \<open>reading back what a store wrote\<close>
named_theorems stun_consts \<open>numeric constants of the STUN headers\<close>

type_synonym u8 = "8 word"
type_synonym u16 = "16 word"
type_synonym u32 = "32 word"
type_synonym u64 = "64 word"

definition c_bool :: "bool \<Rightarrow> int" where
  "c_bool b = (if b then 1 else 0)"

lemma c_bool_simps [simp]:
  "c_bool True = 1" "c_bool False = 0" "c_bool b = 1 \<longleftrightarrow> b" "c_bool b = 0 \<longleftrightarrow> \<not> b"
  "c_bool b \<noteq> 0 \<longleftrightarrow> b"
  by (simp_all add: c_bool_def)

section \<open>Words as little-endian byte runs\<close>

definition bytes_le :: "nat \<Rightarrow> 'a::len word \<Rightarrow> u8 list" where
  "bytes_le n w = map (\<lambda>i. ucast (drop_bit (8 * i) w)) [0..<n]"

definition word_le :: "u8 list \<Rightarrow> 'a::len word" where
  "word_le bs = foldr (\<lambda>b acc. push_bit 8 acc OR ucast b) bs 0"

lemma length_bytes_le [simp]: "length (bytes_le n w) = n"
  by (simp add: bytes_le_def)

lemma word_le_Nil [simp]: "word_le [] = 0"
  by (simp add: word_le_def)

lemma word_le_Cons: "word_le (b # bs) = push_bit 8 (word_le bs) OR ucast b"
  by (simp add: word_le_def)

lemma bit_word_le:
  "bit (word_le bs :: 'a::len word) k \<longleftrightarrow>
     k < LENGTH('a) \<and> k div 8 < length bs \<and> bit (bs ! (k div 8)) (k mod 8)"
proof (induction bs arbitrary: k)
  case Nil
  then show ?case by simp
next
  case (Cons b bs)
  show ?case
  proof (cases "k < 8")
    case True
    then show ?thesis by (auto simp: word_le_Cons bit_simps)
  next
    case False
    then obtain j where j: "k = j + 8"
      by (metis add.commute le_add_diff_inverse not_less)
    have nb: "\<not> bit b (j + 8)"
      by (auto dest: bit_imp_le_length)
    have "(j + 8) div 8 = Suc (j div 8)" by simp
    then show ?thesis
      using nb Cons.IH [of j]
      by (auto simp: j word_le_Cons bit_simps simp del: div_add_self2 dest: bit_imp_le_length)
  qed
qed

lemma bit_bytes_le:
  "i < n \<Longrightarrow> bit (bytes_le n (w :: 'a::len word) ! i) k \<longleftrightarrow> k < 8 \<and> bit w (8 * i + k)"
  by (auto simp: bytes_le_def bit_simps dest: bit_imp_le_length)

lemma word_le_bytes_le [simp]:
  "LENGTH('a) \<le> 8 * n \<Longrightarrow> word_le (bytes_le n w) = (w :: 'a::len word)"
  by (rule bit_word_eqI) (auto simp: bit_word_le bit_bytes_le)

lemma bytes_le_word_le [simp]:
  assumes "length bs = n" "8 * n \<le> LENGTH('a)"
  shows "bytes_le n (word_le bs :: 'a::len word) = bs"
proof (rule nth_equalityI)
  fix i assume "i < length (bytes_le n (word_le bs :: 'a word))"
  then have i: "i < n" by simp
  show "bytes_le n (word_le bs :: 'a word) ! i = bs ! i"
  proof (rule bit_word_eqI)
    fix k assume k: "k < LENGTH(8)"
    have "8 * i + k < 8 * n" using i k by simp
    then show "bit (bytes_le n (word_le bs :: 'a word) ! i) k \<longleftrightarrow> bit (bs ! i) k"
      using i k assms by (simp add: bit_bytes_le bit_word_le)
  qed
qed (simp add: assms)

lemma bytes_le_2: "bytes_le 2 w = [ucast w, ucast (drop_bit 8 w)]"
  by (simp add: bytes_le_def upt_rec)

lemma bytes_le_4:
  "bytes_le 4 w = [ucast w, ucast (drop_bit 8 w), ucast (drop_bit 16 w), ucast (drop_bit 24 w)]"
  by (simp add: bytes_le_def upt_rec)

lemma bytes_le_8:
  "bytes_le 8 w = [ucast w, ucast (drop_bit 8 w), ucast (drop_bit 16 w), ucast (drop_bit 24 w),
     ucast (drop_bit 32 w), ucast (drop_bit 40 w), ucast (drop_bit 48 w), ucast (drop_bit 56 w)]"
  by (simp add: bytes_le_def upt_rec)

section \<open>Byte swaps\<close>

text \<open>\<^verbatim>\<open>nswap16\<close>, \<^verbatim>\<open>nswap32\<close>, \<^verbatim>\<open>nswap64\<close> reverse the bytes of a word on this host.\<close>

definition nswap16 :: "u16 \<Rightarrow> u16" where
  "nswap16 w = word_le (rev (bytes_le 2 w))"

definition nswap32 :: "u32 \<Rightarrow> u32" where
  "nswap32 w = word_le (rev (bytes_le 4 w))"

definition nswap64 :: "u64 \<Rightarrow> u64" where
  "nswap64 w = word_le (rev (bytes_le 8 w))"

lemma bytes_nswap16 [simp]: "bytes_le 2 (nswap16 w) = rev (bytes_le 2 w)"
  by (simp add: nswap16_def)

lemma bytes_nswap32 [simp]: "bytes_le 4 (nswap32 w) = rev (bytes_le 4 w)"
  by (simp add: nswap32_def)

lemma bytes_nswap64 [simp]: "bytes_le 8 (nswap64 w) = rev (bytes_le 8 w)"
  by (simp add: nswap64_def)

lemma nswap16_nswap16 [simp]: "nswap16 (nswap16 w) = w"
  by (subst nswap16_def) simp

lemma nswap32_nswap32 [simp]: "nswap32 (nswap32 w) = w"
  by (subst nswap32_def) simp

lemma nswap64_nswap64 [simp]: "nswap64 (nswap64 w) = w"
  by (subst nswap64_def) simp

lemma nswap16_eq_iff [simp]: "nswap16 v = nswap16 w \<longleftrightarrow> v = w"
  by (metis nswap16_nswap16)

lemma nswap32_eq_iff [simp]: "nswap32 v = nswap32 w \<longleftrightarrow> v = w"
  by (metis nswap32_nswap32)

section \<open>Buffers\<close>

definition byte_at :: "u8 list \<Rightarrow> nat \<Rightarrow> u8" where
  "byte_at m i = (if i < length m then m ! i else 0)"

definition read_bytes :: "u8 list \<Rightarrow> nat \<Rightarrow> nat \<Rightarrow> u8 list" where
  "read_bytes m off n = map (\<lambda>i. byte_at m (off + i)) [0..<n]"

definition put_bytes :: "u8 list \<Rightarrow> nat \<Rightarrow> u8 list \<Rightarrow> u8 list" where
  "put_bytes m off bs = take off m @ take (length m - off) bs @ drop (off + length bs) m"

text \<open>A store through a pointer that may lie before the array: the bytes in front of it are lost.\<close>

definition put_bytes_at :: "u8 list \<Rightarrow> int \<Rightarrow> u8 list \<Rightarrow> u8 list" where
  "put_bytes_at m off bs =
     (if off < 0 then put_bytes m 0 (drop (nat (- off)) bs) else put_bytes m (nat off) bs)"

definition ld16 :: "u8 list \<Rightarrow> nat \<Rightarrow> u16" where
  "ld16 m i = word_le (read_bytes m i 2)"

definition ld32 :: "u8 list \<Rightarrow> nat \<Rightarrow> u32" where
  "ld32 m i = word_le (read_bytes m i 4)"

definition ld64 :: "u8 list \<Rightarrow> nat \<Rightarrow> u64" where
  "ld64 m i = word_le (read_bytes m i 8)"

lemma length_read_bytes [simp]: "length (read_bytes m off n) = n"
  by (simp add: read_bytes_def)

lemma nth_read_bytes [simp]: "i < n \<Longrightarrow> read_bytes m off n ! i = byte_at m (off + i)"
  by (simp add: read_bytes_def)

lemma read_bytes_0 [simp]: "read_bytes m off 0 = []"
  by (simp add: read_bytes_def)

lemma length_put_bytes [simp]: "length (put_bytes m off bs) = length m"
  by (auto simp: put_bytes_def)

lemma length_put_bytes_at [simp]: "length (put_bytes_at m off bs) = length m"
  by (simp add: put_bytes_at_def)

lemma put_bytes_at_nat [simp]: "put_bytes_at m (int off) bs = put_bytes m off bs"
  by (simp add: put_bytes_at_def)

lemma put_bytes_Nil [simp]: "put_bytes m off [] = m"
  by (simp add: put_bytes_def)

lemma byte_at_put_bytes [mem_simps]:
  "byte_at (put_bytes m off bs) i =
     (if off \<le> i \<and> i < off + length bs \<and> i < length m then bs ! (i - off) else byte_at m i)"
  by (auto simp: byte_at_def put_bytes_def nth_append min_def not_less)

lemma read_bytes_eqI:
  "(\<And>i. i < n \<Longrightarrow> byte_at m (off + i) = byte_at m' (off' + i)) \<Longrightarrow>
   read_bytes m off n = read_bytes m' off' n"
  by (simp add: read_bytes_def)

lemma read_put_same [mem_simps]:
  "off + length bs \<le> length m \<Longrightarrow> n = length bs \<Longrightarrow> read_bytes (put_bytes m off bs) off n = bs"
  by (rule nth_equalityI) (auto simp: byte_at_put_bytes)

lemma read_put_other [mem_simps]:
  "i + n \<le> off \<or> off + length bs \<le> i \<Longrightarrow>
   read_bytes (put_bytes m off bs) i n = read_bytes m i n"
  by (rule read_bytes_eqI) (auto simp: byte_at_put_bytes)

lemma read_put_inside:
  "off + length bs \<le> length m \<Longrightarrow> off \<le> i \<Longrightarrow> i + n \<le> off + length bs \<Longrightarrow>
   read_bytes (put_bytes m off bs) i n = take n (drop (i - off) bs)"
  by (rule nth_equalityI) (auto simp: byte_at_put_bytes)

lemma read_bytes_whole [simp]: "read_bytes m 0 (length m) = m"
  by (rule nth_equalityI) (auto simp: byte_at_def)

lemma read_bytes_take: "off + n \<le> length m \<Longrightarrow> read_bytes m off n = take n (drop off m)"
  by (rule nth_equalityI) (auto simp: byte_at_def)

lemma read_bytes_add: "read_bytes m off (n + k) = read_bytes m off n @ read_bytes m (off + n) k"
  by (rule nth_equalityI) (auto simp: nth_append byte_at_def intro: arg_cong2)

lemma byte_at_eq_iff:
  "length m = length m' \<Longrightarrow> (\<And>i. i < length m \<Longrightarrow> byte_at m i = byte_at m' i) \<Longrightarrow> m = m'"
  by (rule nth_equalityI) (auto simp: byte_at_def)

lemma set_put_bytes_outside:
  "i < off \<Longrightarrow> byte_at (put_bytes m off bs) i = byte_at m i"
  by (simp add: byte_at_put_bytes)

lemma ld16_put_same [mem_simps]:
  "off + 2 \<le> length m \<Longrightarrow> ld16 (put_bytes m off (bytes_le 2 w)) off = w"
  by (simp add: ld16_def read_put_same)

lemma ld32_put_same [mem_simps]:
  "off + 4 \<le> length m \<Longrightarrow> ld32 (put_bytes m off (bytes_le 4 w)) off = w"
  by (simp add: ld32_def read_put_same)

lemma ld16_put_other [mem_simps]:
  "i + 2 \<le> off \<or> off + length bs \<le> i \<Longrightarrow> ld16 (put_bytes m off bs) i = ld16 m i"
  by (simp add: ld16_def read_put_other)

lemma ld32_put_other [mem_simps]:
  "i + 4 \<le> off \<or> off + length bs \<le> i \<Longrightarrow> ld32 (put_bytes m off bs) i = ld32 m i"
  by (simp add: ld32_def read_put_other)

lemma ld16_cong:
  "read_bytes m i 2 = read_bytes m' j 2 \<Longrightarrow> ld16 m i = ld16 m' j"
  by (simp add: ld16_def)

lemma ld32_cong:
  "read_bytes m i 4 = read_bytes m' j 4 \<Longrightarrow> ld32 m i = ld32 m' j"
  by (simp add: ld32_def)

section \<open>C strings\<close>

text \<open>The bytes of a C string up to its terminator (\<^verbatim>\<open>strlen\<close>, \<^verbatim>\<open>strcmp\<close> see only these).\<close>

definition c_str :: "u8 list \<Rightarrow> u8 list" where
  "c_str bs = takeWhile (\<lambda>b. b \<noteq> 0) bs"

definition str_bytes :: "string \<Rightarrow> u8 list" where
  "str_bytes s = map (\<lambda>c. of_nat (of_char c)) s"

lemma length_str_bytes [simp]: "length (str_bytes s) = length s"
  by (simp add: str_bytes_def)

lemma c_str_no_zero: "0 \<notin> set bs \<Longrightarrow> c_str (bs @ 0 # xs) = bs"
  by (auto simp: c_str_def takeWhile_eq_all_conv takeWhile_append)

lemma zero_notin_c_str [simp]: "0 \<notin> set (c_str bs)"
  by (auto simp: c_str_def dest: set_takeWhileD)

lemma c_str_id: "0 \<notin> set bs \<Longrightarrow> c_str bs = bs"
  by (auto simp: c_str_def takeWhile_eq_all_conv)

section \<open>Word arithmetic\<close>

lemma unat_of_nat_eq: "n < 2 ^ LENGTH('a) \<Longrightarrow> unat (of_nat n :: 'a::len word) = n"
  by (simp add: unsigned_of_nat take_bit_nat_eq_self)

lemma unat_of_nat_16 [simp]: "n < 65536 \<Longrightarrow> unat (of_nat n :: u16) = n"
  by (rule unat_of_nat_eq) simp

lemma unat_16_less: "unat (w :: u16) < 65536" "unat (w :: u16) \<le> 65535"
  using unsigned_less [of w, where ?'a = nat] by simp_all

lemma unat_32_less: "unat (w :: u32) < 4294967296"
  using unsigned_less [of w, where ?'a = nat] by simp

lemma unat_8_less: "unat (w :: u8) < 256"
  using unsigned_less [of w, where ?'a = nat] by simp

end
