(* ===== verification/Io_Addr.thy ===== *)
theory Io_Addr
  imports Turn_Prelude
begin

text \<open>
  Model of \<^verbatim>\<open>src/coturn/src/client/ns_turn_ioaddr.c\<close>: socket addresses, their comparison,
  hashing and ranges, the textual form, and the table that maps public to private addresses.

  \<open>ioa_addr\<close> is the C union of \<^verbatim>\<open>sockaddr\<close>, \<^verbatim>\<open>sockaddr_in\<close> and \<^verbatim>\<open>sockaddr_in6\<close>. All three start
  with the family and the port; bytes 4..7 are \<^verbatim>\<open>sin_addr\<close> and \<^verbatim>\<open>sin6_flowinfo\<close>, bytes 8..23 are
  \<^verbatim>\<open>sin6_addr\<close> (with \<^verbatim>\<open>sin_zero\<close> as its first half), bytes 24..27 are \<^verbatim>\<open>sin6_scope_id\<close>. One record
  field per range therefore keeps the aliasing of the union. Ports and IPv4 addresses are kept in
  network byte order, as the host loads them. A pointer argument the code compares with \<open>NULL\<close> is an
  \<open>option\<close>.

  The IPv6 text conversions of libc (\<^verbatim>\<open>inet_ntop\<close>, \<^verbatim>\<open>inet_pton\<close> for \<^verbatim>\<open>AF_INET6\<close>) and the resolver
  (\<^verbatim>\<open>getaddrinfo\<close>) are parameters of the definitions that use them; the dotted-quad conversions are
  written out.
\<close>

section \<open>Addresses\<close>

record ioa_addr =
  sa_family :: u16
  sin_port :: u16
  sin_addr :: u32
  sin6_addr :: "u8 list"
  sin6_scope_id :: u32

definition AF_INET :: u16 where "AF_INET = 2"
definition AF_INET6 :: u16 where "AF_INET6 = 10"

definition wf_addr :: "ioa_addr \<Rightarrow> bool" where
  "wf_addr a \<longleftrightarrow> length (sin6_addr a) = 16"

definition ip_addr :: "ioa_addr \<Rightarrow> bool" where
  "ip_addr a \<longleftrightarrow> sa_family a = AF_INET \<or> sa_family a = AF_INET6"

definition get_ioa_addr_len :: "ioa_addr \<Rightarrow> u32" where
  "get_ioa_addr_len a =
     (if sa_family a = AF_INET then 16 else if sa_family a = AF_INET6 then 28 else 0)"

definition addr_set_any :: ioa_addr where
  "addr_set_any = \<lparr>sa_family = 0, sin_port = 0, sin_addr = 0, sin6_addr = replicate 16 0,
     sin6_scope_id = 0\<rparr>"

definition addr_any :: "ioa_addr option \<Rightarrow> bool" where
  "addr_any addr = (case addr of None \<Rightarrow> True | Some a \<Rightarrow>
     (if sa_family a = AF_INET then sin_addr a = 0 \<and> sin_port a = 0
      else if sa_family a = AF_INET6 then
        (if sin_port a \<noteq> 0 then False else list_all (\<lambda>b. b = 0) (sin6_addr a))
      else True))"

definition addr_any_no_port :: "ioa_addr option \<Rightarrow> bool" where
  "addr_any_no_port addr = (case addr of None \<Rightarrow> True | Some a \<Rightarrow>
     (if sa_family a = AF_INET then sin_addr a = 0
      else if sa_family a = AF_INET6 then list_all (\<lambda>b. b = 0) (sin6_addr a)
      else True))"

definition hash_int32 :: "u32 \<Rightarrow> u32" where
  "hash_int32 a0 =
     (let a1 = a0 XOR drop_bit 4 a0;
          a2 = (a1 XOR 0xdeadbeef) + push_bit 5 a1
      in a2 XOR drop_bit 11 a2)"

definition hash_int64 :: "u64 \<Rightarrow> u64" where
  "hash_int64 a0 =
     (let a1 = a0 XOR drop_bit 4 a0;
          a2 = (a1 XOR 0xdeadbeefdeadbeef) + push_bit 5 a1
      in a2 XOR drop_bit 11 a2)"

definition addr_hash :: "ioa_addr option \<Rightarrow> u32" where
  "addr_hash addr = (case addr of None \<Rightarrow> 0 | Some a \<Rightarrow>
     (if sa_family a = AF_INET then hash_int32 (sin_addr a + ucast (sin_port a))
      else let a0 = word_le (take 8 (sin6_addr a)); a1 = word_le (take 8 (drop 8 (sin6_addr a)))
        in ucast (push_bit 3 (hash_int64 a0) + hash_int64 (a1 + ucast (sin_port a)))))"

definition addr_hash_no_port :: "ioa_addr option \<Rightarrow> u32" where
  "addr_hash_no_port addr = (case addr of None \<Rightarrow> 0 | Some a \<Rightarrow>
     (if sa_family a = AF_INET then hash_int32 (sin_addr a)
      else let a0 = word_le (take 8 (sin6_addr a)); a1 = word_le (take 8 (drop 8 (sin6_addr a)))
        in ucast (push_bit 3 (hash_int64 a0) + hash_int64 a1)))"

definition addr_cpy :: "ioa_addr \<Rightarrow> ioa_addr option \<Rightarrow> ioa_addr" where
  "addr_cpy dst src = (case src of None \<Rightarrow> dst | Some s \<Rightarrow> s)"

text \<open>Only the 16 bytes of a \<^verbatim>\<open>sockaddr_in\<close> are copied: the rest of the union keeps its contents.\<close>

definition addr_cpy4 :: "ioa_addr \<Rightarrow> ioa_addr option \<Rightarrow> ioa_addr" where
  "addr_cpy4 dst src = (case src of None \<Rightarrow> dst | Some s \<Rightarrow>
     dst\<lparr>sa_family := sa_family s, sin_port := sin_port s, sin_addr := sin_addr s,
         sin6_addr := take 8 (sin6_addr s) @ drop 8 (sin6_addr dst)\<rparr>)"

definition addr_cpy6 :: "ioa_addr \<Rightarrow> ioa_addr option \<Rightarrow> ioa_addr" where
  "addr_cpy6 dst src = (case src of None \<Rightarrow> dst | Some s \<Rightarrow> s)"

definition addr_eq :: "ioa_addr option \<Rightarrow> ioa_addr option \<Rightarrow> bool" where
  "addr_eq p1 p2 = (case p1 of None \<Rightarrow> p2 = None | Some a1 \<Rightarrow>
     (case p2 of None \<Rightarrow> False | Some a2 \<Rightarrow>
       (if sa_family a1 = sa_family a2 then
          (if sa_family a1 = AF_INET \<and> sin_port a1 = sin_port a2 then sin_addr a1 = sin_addr a2
           else if sa_family a1 = AF_INET6 \<and> sin_port a1 = sin_port a2
           then sin6_addr a1 = sin6_addr a2
           else False)
        else False)))"

definition addr_eq_no_port :: "ioa_addr option \<Rightarrow> ioa_addr option \<Rightarrow> bool" where
  "addr_eq_no_port p1 p2 = (case p1 of None \<Rightarrow> p2 = None | Some a1 \<Rightarrow>
     (case p2 of None \<Rightarrow> False | Some a2 \<Rightarrow>
       (if sa_family a1 = sa_family a2 then
          (if sa_family a1 = AF_INET then sin_addr a1 = sin_addr a2
           else if sa_family a1 = AF_INET6 then sin6_addr a1 = sin6_addr a2
           else False)
        else False)))"

definition addr_set_port :: "ioa_addr \<Rightarrow> int \<Rightarrow> ioa_addr" where
  "addr_set_port a port =
     (if sa_family a = AF_INET then a\<lparr>sin_port := nswap16 (of_int port)\<rparr>
      else if sa_family a = AF_INET6 then a\<lparr>sin_port := nswap16 (of_int port)\<rparr>
      else a)"

definition addr_get_port :: "ioa_addr option \<Rightarrow> int" where
  "addr_get_port addr = (case addr of None \<Rightarrow> 0 | Some a \<Rightarrow>
     (if sa_family a = AF_INET then uint (nswap16 (sin_port a))
      else if sa_family a = AF_INET6 then uint (nswap16 (sin_port a))
      else 0))"

section \<open>Ranges and address classes\<close>

record ioa_addr_range =
  range_min :: ioa_addr
  range_max :: ioa_addr

definition ioa_addr_range_set :: "ioa_addr option \<Rightarrow> ioa_addr option \<Rightarrow> ioa_addr_range" where
  "ioa_addr_range_set addr_min addr_max =
     \<lparr>range_min = (case addr_min of Some a \<Rightarrow> a | None \<Rightarrow> addr_set_any),
      range_max = (case addr_max of Some a \<Rightarrow> a | None \<Rightarrow> addr_set_any)\<rparr>"

fun addr6_bytes_le :: "u8 list \<Rightarrow> u8 list \<Rightarrow> bool" where
  "addr6_bytes_le (x # xs) (y # ys) = (if y < x then False else addr6_bytes_le xs ys)"
| "addr6_bytes_le _ _ = True"

definition addr_less_eq :: "ioa_addr option \<Rightarrow> ioa_addr option \<Rightarrow> bool" where
  "addr_less_eq p1 p2 = (case p1 of None \<Rightarrow> True | Some a1 \<Rightarrow>
     (case p2 of None \<Rightarrow> False | Some a2 \<Rightarrow>
       (if sa_family a1 \<noteq> sa_family a2 then sa_family a1 < sa_family a2
        else if sa_family a1 = AF_INET then nswap32 (sin_addr a1) \<le> nswap32 (sin_addr a2)
        else if sa_family a1 = AF_INET6 then addr6_bytes_le (sin6_addr a1) (sin6_addr a2)
        else True)))"

definition ioa_addr_in_range :: "ioa_addr_range option \<Rightarrow> ioa_addr option \<Rightarrow> bool" where
  "ioa_addr_in_range rng addr = (case rng of None \<Rightarrow> False | Some r \<Rightarrow>
     (case addr of None \<Rightarrow> False | Some a \<Rightarrow>
       (if addr_any (Some (range_min r)) \<or> addr_less_eq (Some (range_min r)) (Some a) then
          (if addr_any (Some (range_max r)) then True
           else addr_less_eq (Some a) (Some (range_max r)))
        else False)))"

definition ioa_addr_is_multicast :: "ioa_addr option \<Rightarrow> bool" where
  "ioa_addr_is_multicast addr = (case addr of None \<Rightarrow> False | Some a \<Rightarrow>
     (if sa_family a = AF_INET then byte_at (bytes_le 4 (sin_addr a)) 0 > 223
      else if sa_family a = AF_INET6 then byte_at (sin6_addr a) 0 = 255
      else False))"

definition ioa_addr_is_loopback :: "ioa_addr option \<Rightarrow> bool" where
  "ioa_addr_is_loopback addr = (case addr of None \<Rightarrow> False | Some a \<Rightarrow>
     (if sa_family a = AF_INET then byte_at (bytes_le 4 (sin_addr a)) 0 = 127
      else if sa_family a = AF_INET6 then
        (if byte_at (sin6_addr a) 7 = 1 then list_all (\<lambda>i. byte_at (sin6_addr a) i = 0) [0..<7]
         else False)
      else False))"

section \<open>Public and private addresses\<close>

text \<open>The two parallel arrays \<^verbatim>\<open>public_addrs\<close> and \<^verbatim>\<open>private_addrs\<close> with \<^verbatim>\<open>mcount\<close> entries.\<close>

type_synonym addr_mapping = "(ioa_addr \<times> ioa_addr) list"

definition ioa_addr_add_mapping :: "addr_mapping \<Rightarrow> ioa_addr \<Rightarrow> ioa_addr \<Rightarrow> addr_mapping" where
  "ioa_addr_add_mapping ms apub apriv = ms @ [(apub, apriv)]"

fun map_addr_from_public_to_private :: "addr_mapping \<Rightarrow> ioa_addr \<Rightarrow> ioa_addr" where
  "map_addr_from_public_to_private [] public_addr = public_addr"
| "map_addr_from_public_to_private ((apub, apriv) # ms) public_addr =
     (if addr_eq_no_port (Some public_addr) (Some apub)
      then addr_set_port apriv (addr_get_port (Some public_addr))
      else map_addr_from_public_to_private ms public_addr)"

fun map_addr_from_private_to_public :: "addr_mapping \<Rightarrow> ioa_addr \<Rightarrow> ioa_addr" where
  "map_addr_from_private_to_public [] private_addr = private_addr"
| "map_addr_from_private_to_public ((apub, apriv) # ms) private_addr =
     (if addr_eq_no_port (Some private_addr) (Some apriv)
      then addr_set_port apub (addr_get_port (Some private_addr))
      else map_addr_from_private_to_public ms private_addr)"

section \<open>Textual addresses\<close>

text \<open>\<^verbatim>\<open>%d\<close> of a non-negative number, in ASCII.\<close>

fun dec_str :: "nat \<Rightarrow> u8 list" where
  "dec_str n = (if n < 10 then [of_nat (48 + n)] else dec_str (n div 10) @ [of_nat (48 + n mod 10)])"

declare dec_str.simps [simp del]

definition is_digit :: "u8 \<Rightarrow> bool" where
  "is_digit c \<longleftrightarrow> 48 \<le> c \<and> c \<le> 57"

definition is_space :: "u8 \<Rightarrow> bool" where
  "is_space c \<longleftrightarrow> c = 32 \<or> (9 \<le> c \<and> c \<le> 13)"

fun digits_val :: "u8 list \<Rightarrow> nat \<Rightarrow> nat" where
  "digits_val (c # cs) acc = (if is_digit c then digits_val cs (10 * acc + (unat c - 48)) else acc)"
| "digits_val [] acc = acc"

text \<open>\<^verbatim>\<open>atoi\<close>: leading white space, an optional sign, the longest run of digits.\<close>

definition c_atoi :: "u8 list \<Rightarrow> int" where
  "c_atoi str = (case dropWhile is_space str of
     [] \<Rightarrow> 0
   | c # cs \<Rightarrow> (if c = 45 then - int (digits_val cs 0)
               else if c = 43 then int (digits_val cs 0) else int (digits_val (c # cs) 0)))"

text \<open>\<^verbatim>\<open>inet_ntop(AF_INET, ..)\<close> and \<^verbatim>\<open>inet_pton(AF_INET, ..)\<close> of libc.\<close>

definition inet_ntop4 :: "u32 \<Rightarrow> u8 list" where
  "inet_ntop4 a = (let bs = bytes_le 4 a in
     dec_str (unat (bs ! 0)) @ [46] @ dec_str (unat (bs ! 1)) @ [46] @
     dec_str (unat (bs ! 2)) @ [46] @ dec_str (unat (bs ! 3)))"

fun pton4_loop :: "u8 list \<Rightarrow> u8 list \<Rightarrow> nat option \<Rightarrow> u8 list option" where
  "pton4_loop [] octets (Some c) = (if length octets = 3 then Some (octets @ [of_nat c]) else None)"
| "pton4_loop [] octets None = None"
| "pton4_loop (ch # src) octets cur =
     (if is_digit ch then
        (case cur of
           None \<Rightarrow> (if 3 < length octets then None else pton4_loop src octets (Some (unat ch - 48)))
         | Some c \<Rightarrow> (if c = 0 then None else if 255 < 10 * c + (unat ch - 48) then None
                     else pton4_loop src octets (Some (10 * c + (unat ch - 48)))))
      else if ch = 46 then
        (case cur of None \<Rightarrow> None
         | Some c \<Rightarrow> (if length octets = 3 then None else pton4_loop src (octets @ [of_nat c]) None))
      else None)"

definition inet_pton4 :: "u8 list \<Rightarrow> u32 option" where
  "inet_pton4 str = map_option word_le (pton4_loop str [] None)"

definition MAX_IOA_ADDR_STRING :: nat where "MAX_IOA_ADDR_STRING = 65"

text \<open>\<open>None\<close> is the return value \<open>-1\<close>; otherwise the string left in \<^verbatim>\<open>saddr\<close>.\<close>

definition addr_to_string :: "(u8 list \<Rightarrow> u8 list) \<Rightarrow> ioa_addr option \<Rightarrow> u8 list option" where
  "addr_to_string ntop addr = (case addr of None \<Rightarrow> None | Some a \<Rightarrow>
     (if sa_family a = AF_INET then
        (if addr_get_port (Some a) > 0
         then Some (take (MAX_IOA_ADDR_STRING - 1)
           (inet_ntop4 (sin_addr a) @ [58] @ dec_str (nat (addr_get_port (Some a)))))
         else Some (take MAX_IOA_ADDR_STRING (inet_ntop4 (sin_addr a))))
      else if sa_family a = AF_INET6 then
        (if addr_get_port (Some a) > 0
         then Some (take (MAX_IOA_ADDR_STRING - 1)
           ([91] @ ntop (sin6_addr a) @ [93, 58] @ dec_str (nat (addr_get_port (Some a)))))
         else Some (take MAX_IOA_ADDR_STRING (ntop (sin6_addr a))))
      else None))"

definition addr_to_string_no_port :: "(u8 list \<Rightarrow> u8 list) \<Rightarrow> ioa_addr option \<Rightarrow> u8 list option" where
  "addr_to_string_no_port ntop addr = (case addr of None \<Rightarrow> None | Some a \<Rightarrow>
     (if sa_family a = AF_INET then Some (take MAX_IOA_ADDR_STRING (inet_ntop4 (sin_addr a)))
      else if sa_family a = AF_INET6 then Some (take MAX_IOA_ADDR_STRING (ntop (sin6_addr a)))
      else None))"

definition trim_spaces :: "u8 list \<Rightarrow> u8 list" where
  "trim_spaces str = rev (dropWhile (\<lambda>c. c = 32) (rev (dropWhile (\<lambda>c. c = 32) str)))"

text \<open>
  The search over the resolver's list: IPv4 entries first, then (the \<^verbatim>\<open>goto beg_af\<close>) IPv6 entries.
  With neither, the zeroed address stays.
\<close>

fun pick_addrinfo :: "u16 \<Rightarrow> (u16 \<times> ioa_addr) list \<Rightarrow> ioa_addr option" where
  "pick_addrinfo family [] = None"
| "pick_addrinfo family ((f, a) # rest) =
     (if f = family then Some a else pick_addrinfo family rest)"

definition make_ioa_addr ::
  "(u8 list \<Rightarrow> u8 list option) \<Rightarrow> (u8 list \<Rightarrow> (u16 \<times> ioa_addr) list option) \<Rightarrow>
   u8 list \<Rightarrow> int \<Rightarrow> int \<times> ioa_addr" where
  "make_ioa_addr pton getaddrinfo saddr0 port =
     (let ssaddr = take 256 (c_str saddr0);
          saddr = trim_spaces ssaddr;
          addr = addr_set_any
      in if saddr = [] then (0, addr\<lparr>sa_family := AF_INET, sin_port := nswap16 (of_int port)\<rparr>)
         else case inet_pton4 saddr of
           Some a4 \<Rightarrow>
             (0, addr\<lparr>sin_addr := a4, sa_family := AF_INET, sin_port := nswap16 (of_int port)\<rparr>)
         | None \<Rightarrow> (case pton saddr of
             Some a6 \<Rightarrow>
               (0, addr\<lparr>sin6_addr := a6, sa_family := AF_INET6, sin_port := nswap16 (of_int port)\<rparr>)
           | None \<Rightarrow> (case getaddrinfo saddr of
               None \<Rightarrow> (-1, addr)
             | Some [] \<Rightarrow> (-1, addr)
             | Some ais \<Rightarrow> (case pick_addrinfo AF_INET ais of
                 Some ai \<Rightarrow> (0, (addr_cpy4 addr (Some ai))\<lparr>sin_port := nswap16 (of_int port)\<rparr>)
               | None \<Rightarrow> (case pick_addrinfo AF_INET6 ais of
                   Some ai \<Rightarrow> (0, (addr_cpy6 addr (Some ai))\<lparr>sin_port := nswap16 (of_int port)\<rparr>)
                 | None \<Rightarrow> (0, addr))))))"

text \<open>Splits \<^verbatim>\<open>host:port\<close> and \<^verbatim>\<open>[host]:port\<close>; \<open>None\<close> is the \<open>NULL\<close> result.\<close>

definition get_addr_string_and_port :: "u8 list \<Rightarrow> (u8 list \<times> int) option" where
  "get_addr_string_and_port s0 =
     (let s = dropWhile (\<lambda>c. c = 32) s0 in
      if s \<noteq> [] \<and> hd s = 91 then
        (let s1 = tl s; host = takeWhile (\<lambda>c. c \<noteq> 93) s1; rest = dropWhile (\<lambda>c. c \<noteq> 93) s1 in
         if rest = [] then None
         else let tail = dropWhile (\<lambda>c. c = 32) (tl rest) in
           if tail \<noteq> [] \<and> hd tail = 58 then Some (host, c_atoi (tl tail))
           else if tail = [] then Some (host, 0) else None)
      else
        (let host = takeWhile (\<lambda>c. c \<noteq> 58) s; rest = dropWhile (\<lambda>c. c \<noteq> 58) s in
         if rest \<noteq> [] then Some (host, c_atoi (tl rest)) else Some (s, 0)))"

definition make_ioa_addr_from_full_string ::
  "(u8 list \<Rightarrow> u8 list option) \<Rightarrow> (u8 list \<Rightarrow> (u16 \<times> ioa_addr) list option) \<Rightarrow>
   u8 list \<Rightarrow> int \<Rightarrow> ioa_addr \<Rightarrow> int \<times> ioa_addr" where
  "make_ioa_addr_from_full_string pton getaddrinfo saddr default_port addr =
     (case get_addr_string_and_port (c_str saddr) of
        None \<Rightarrow> (-1, addr)
      | Some (sa, port) \<Rightarrow>
          make_ioa_addr pton getaddrinfo sa (if port < 1 then default_port else port))"

section \<open>Comparison and hashing\<close>

lemmas af_defs = AF_INET_def AF_INET6_def

lemma AF_neq [simp]: "AF_INET \<noteq> AF_INET6" "AF_INET6 \<noteq> AF_INET" "AF_INET \<noteq> 0" "AF_INET6 \<noteq> 0"
  "0 \<noteq> AF_INET" "0 \<noteq> AF_INET6"
  by (simp_all add: af_defs)

lemma wf_addr_set_any [simp]: "wf_addr addr_set_any"
  by (simp add: wf_addr_def addr_set_any_def)

lemma addr_set_any_sel [simp]:
  "sa_family addr_set_any = 0" "sin_port addr_set_any = 0" "sin_addr addr_set_any = 0"
  "sin6_addr addr_set_any = replicate 16 0" "sin6_scope_id addr_set_any = 0"
  by (simp_all add: addr_set_any_def)

lemma addr_set_any_any [simp]: "addr_any (Some addr_set_any)" "addr_any_no_port (Some addr_set_any)"
  by (simp_all add: addr_any_def addr_any_no_port_def)

lemma addr_eq_Some:
  "addr_eq (Some a) (Some b) \<longleftrightarrow> ip_addr a \<and> sa_family a = sa_family b \<and> sin_port a = sin_port b \<and>
     (if sa_family a = AF_INET then sin_addr a = sin_addr b else sin6_addr a = sin6_addr b)"
  by (auto simp: addr_eq_def ip_addr_def)

lemma addr_eq_no_port_Some:
  "addr_eq_no_port (Some a) (Some b) \<longleftrightarrow> ip_addr a \<and> sa_family a = sa_family b \<and>
     (if sa_family a = AF_INET then sin_addr a = sin_addr b else sin6_addr a = sin6_addr b)"
  by (auto simp: addr_eq_no_port_def ip_addr_def)

lemma addr_eq_refl [simp]: "addr_eq (Some a) (Some a) \<longleftrightarrow> ip_addr a"
  by (simp add: addr_eq_Some)

lemma addr_eq_no_port_refl [simp]: "addr_eq_no_port (Some a) (Some a) \<longleftrightarrow> ip_addr a"
  by (simp add: addr_eq_no_port_Some)

lemma ip_addr_cong: "sa_family a = sa_family b \<Longrightarrow> ip_addr a \<longleftrightarrow> ip_addr b"
  by (simp add: ip_addr_def)

lemma addr_eq_sym: "addr_eq (Some a) (Some b) \<longleftrightarrow> addr_eq (Some b) (Some a)"
  by (auto simp: addr_eq_Some ip_addr_def)

lemma addr_eq_symD: "addr_eq (Some a) (Some b) \<Longrightarrow> addr_eq (Some b) (Some a)"
  by (simp add: addr_eq_sym)

lemma addr_eq_trans:
  "addr_eq (Some a) (Some b) \<Longrightarrow> addr_eq (Some b) (Some c) \<Longrightarrow> addr_eq (Some a) (Some c)"
  by (auto simp: addr_eq_Some split: if_splits)

lemma addr_eq_no_port_sym: "addr_eq_no_port (Some a) (Some b) \<longleftrightarrow> addr_eq_no_port (Some b) (Some a)"
  by (auto simp: addr_eq_no_port_Some ip_addr_def)

lemma addr_eq_no_port_trans:
  "addr_eq_no_port (Some a) (Some b) \<Longrightarrow> addr_eq_no_port (Some b) (Some c) \<Longrightarrow>
   addr_eq_no_port (Some a) (Some c)"
  by (auto simp: addr_eq_no_port_Some split: if_splits)

lemma addr_eq_no_portI: "addr_eq (Some a) (Some b) \<Longrightarrow> addr_eq_no_port (Some a) (Some b)"
  by (simp add: addr_eq_Some addr_eq_no_port_Some)

lemma addr_eq_hash: "addr_eq (Some a) (Some b) \<Longrightarrow> addr_hash (Some a) = addr_hash (Some b)"
  by (auto simp: addr_eq_Some addr_hash_def)

lemma addr_eq_no_port_hash:
  "addr_eq_no_port (Some a) (Some b) \<Longrightarrow> addr_hash_no_port (Some a) = addr_hash_no_port (Some b)"
  by (auto simp: addr_eq_no_port_Some addr_hash_no_port_def)

section \<open>Ports\<close>

lemma addr_set_port_sel [simp]:
  "sa_family (addr_set_port a p) = sa_family a" "sin_addr (addr_set_port a p) = sin_addr a"
  "sin6_addr (addr_set_port a p) = sin6_addr a" "sin6_scope_id (addr_set_port a p) = sin6_scope_id a"
  by (simp_all add: addr_set_port_def)

lemma ip_addr_set_port [simp]: "ip_addr (addr_set_port a p) \<longleftrightarrow> ip_addr a"
  by (simp add: ip_addr_def)

lemma wf_addr_set_port [simp]: "wf_addr (addr_set_port a p) \<longleftrightarrow> wf_addr a"
  by (simp add: wf_addr_def)

lemma addr_get_port_ip: "ip_addr a \<Longrightarrow> addr_get_port (Some a) = uint (nswap16 (sin_port a))"
  by (auto simp: ip_addr_def addr_get_port_def)

lemma addr_get_port_range: "0 \<le> addr_get_port p \<and> addr_get_port p < 65536"
  using uint_bounded [where 'a = 16] by (auto simp: addr_get_port_def split: option.split)

lemma sin_port_addr_set_port:
  "ip_addr a \<Longrightarrow> sin_port (addr_set_port a p) = nswap16 (of_int p)"
  by (auto simp: ip_addr_def addr_set_port_def)

lemma addr_get_set_port:
  "ip_addr a \<Longrightarrow> addr_get_port (Some (addr_set_port a p)) = p mod 65536"
  by (simp add: addr_get_port_ip sin_port_addr_set_port uint_word_of_int)

lemma addr_set_get_port:
  "ip_addr a \<Longrightarrow> ip_addr b \<Longrightarrow> sin_port (addr_set_port b (addr_get_port (Some a))) = sin_port a"
  by (simp add: sin_port_addr_set_port addr_get_port_ip)

lemma addr_eq_no_port_set_port [simp]:
  "addr_eq_no_port (Some (addr_set_port a p)) (Some b) \<longleftrightarrow> addr_eq_no_port (Some a) (Some b)"
  "addr_eq_no_port (Some a) (Some (addr_set_port b p)) \<longleftrightarrow> addr_eq_no_port (Some a) (Some b)"
  by (simp_all add: addr_eq_no_port_Some)

lemma addr_eq_split_port:
  "addr_eq (Some a) (Some b) \<longleftrightarrow> addr_eq_no_port (Some a) (Some b) \<and> sin_port a = sin_port b"
  by (auto simp: addr_eq_Some addr_eq_no_port_Some)

section \<open>Ranges\<close>

text \<open>The value of an IPv6 address as a big-endian number.\<close>

fun be_val :: "u8 list \<Rightarrow> nat \<Rightarrow> nat" where
  "be_val [] acc = acc"
| "be_val (b # bs) acc = be_val bs (256 * acc + unat b)"

definition addr6_num :: "ioa_addr \<Rightarrow> nat" where
  "addr6_num a = be_val (sin6_addr a) 0"

lemma be_val_mono:
  "length xs = length ys \<Longrightarrow> addr6_bytes_le xs ys \<Longrightarrow> m \<le> n \<Longrightarrow> be_val xs m \<le> be_val ys n"
proof (induction xs ys arbitrary: m n rule: list_induct2)
  case Nil
  then show ?case by simp
next
  case (Cons x xs y ys)
  then have "unat x \<le> unat y"
    by (simp add: word_le_nat_alt [symmetric] split: if_splits)
  with Cons.prems have "256 * m + unat x \<le> 256 * n + unat y"
    by simp
  with Cons show ?case by (simp split: if_splits)
qed

lemma addr6_less_eq_num:
  assumes "wf_addr a" "wf_addr b" "sa_family a = AF_INET6" "sa_family b = AF_INET6"
    and "addr_less_eq (Some a) (Some b)"
  shows "addr6_num a \<le> addr6_num b"
  using assms by (auto simp: addr6_num_def addr_less_eq_def wf_addr_def intro!: be_val_mono)

section \<open>Address mapping\<close>

lemma ms_public_to_private_match:
  "(\<exists>m\<in>set ms. addr_eq_no_port (Some a) (Some (fst m))) \<Longrightarrow>
   \<exists>m\<in>set ms. addr_eq_no_port (Some a) (Some (fst m)) \<and>
     map_addr_from_public_to_private ms a = addr_set_port (snd m) (addr_get_port (Some a))"
proof (induction ms)
  case (Cons m ms)
  then show ?case
    by (cases m; cases "addr_eq_no_port (Some a) (Some (fst m))") fastforce+
qed simp

lemma map_private_public_roundtrip:
  assumes "ip_addr a" "\<exists>m\<in>set ms. addr_eq_no_port (Some a) (Some (fst m))"
    and "\<forall>m\<in>set ms. ip_addr (fst m) \<and> ip_addr (snd m)"
    and "sorted_wrt (\<lambda>x y. \<not> addr_eq_no_port (Some (snd x)) (Some (snd y))) ms"
  shows "addr_eq (Some (map_addr_from_private_to_public ms (map_addr_from_public_to_private ms a)))
           (Some a)"
  using assms
proof (induction ms)
  case Nil
  then show ?case by simp
next
  case (Cons m ms)
  obtain p q where m: "m = (p, q)" by (cases m)
  show ?case
  proof (cases "addr_eq_no_port (Some a) (Some p)")
    case True
    then show ?thesis
      using Cons.prems
      by (auto simp: m addr_eq_split_port addr_set_get_port addr_eq_no_port_sym
          sin_port_addr_set_port addr_get_port_ip)
  next
    case False
    with Cons.prems obtain m' where m': "m' \<in> set ms"
      and to: "map_addr_from_public_to_private ms a = addr_set_port (snd m') (addr_get_port (Some a))"
      using ms_public_to_private_match [of ms a] by (auto simp: m)
    have "\<not> addr_eq_no_port (Some (snd m')) (Some q)"
      using Cons.prems(4) m' by (simp add: m addr_eq_no_port_sym)
    with False Cons.prems to Cons.IH show ?thesis
      by (auto simp: m)
  qed
qed

section \<open>Dotted quads\<close>

lemma unat_ascii_digit [simp]: "d < 10 \<Longrightarrow> unat (48 + of_nat d :: u8) = 48 + d"
  by (simp add: unat_word_ariths unat_of_nat)

lemma is_digit_ascii [simp]: "d < 10 \<Longrightarrow> is_digit (48 + of_nat d)"
  by (simp add: is_digit_def word_le_nat_alt)

lemma dec_str_1: "n < 10 \<Longrightarrow> dec_str n = [48 + of_nat n]"
  by (simp add: dec_str.simps [of n])

lemma dec_str_2: "10 \<le> n \<Longrightarrow> n < 100 \<Longrightarrow> dec_str n = [48 + of_nat (n div 10), 48 + of_nat (n mod 10)]"
  by (simp add: dec_str.simps [of n] dec_str_1)

lemma dec_str_3:
  "100 \<le> n \<Longrightarrow> n < 1000 \<Longrightarrow>
   dec_str n = [48 + of_nat (n div 100), 48 + of_nat (n div 10 mod 10), 48 + of_nat (n mod 10)]"
  by (simp add: dec_str.simps [of n] dec_str_2 div_mult2_eq [symmetric])

lemma pton4_loop_dec:
  assumes "n < 256" "length octets \<le> 3"
  shows "pton4_loop (dec_str n @ src) octets None = pton4_loop src octets (Some n)"
proof -
  consider "n < 10" | "10 \<le> n" "n < 100" | "100 \<le> n" "n < 1000" using assms by linarith
  then show ?thesis
  proof cases
    case 1
    then show ?thesis using assms by (simp add: dec_str_1)
  next
    case 2
    then have "n div 10 < 10" "n div 10 \<noteq> 0" "10 * (n div 10) + n mod 10 = n" by auto
    with 2 show ?thesis using assms by (simp add: dec_str_2)
  next
    case 3
    have "n div 100 = n div 10 div 10"
      by (simp add: div_mult2_eq [symmetric])
    then have a: "10 * (n div 100) + n div 10 mod 10 = n div 10"
      by simp
    have b: "n div 100 < 10" "n div 100 \<noteq> 0" "n div 10 \<le> 255" "n div 10 \<noteq> 0"
      "10 * (n div 10) + n mod 10 = n"
      using 3 assms by auto
    have c: "(255 < n div 10) = False" using assms by auto
    from a b 3 show ?thesis using assms by (simp add: dec_str_3 c)
  qed
qed

lemma not_digit_dot [simp]: "\<not> is_digit 46"
  by (simp add: is_digit_def)

lemma inet_pton4_ntop4 [simp]: "inet_pton4 (inet_ntop4 a) = Some a"
proof -
  have "word_le [bytes_le 4 a ! 0, bytes_le 4 a ! 1, bytes_le 4 a ! 2, bytes_le 4 a ! 3] = a"
    using word_le_bytes_le [of 4 a] by (simp add: bytes_le_4 del: word_le_bytes_le)
  moreover have "unat (b :: u8) < 256" for b
    using unsigned_less [of b] by simp
  ultimately show ?thesis
    by (simp add: inet_pton4_def inet_ntop4_def Let_def pton4_loop_dec pton4_loop_dec [where src = "[]", simplified])
qed

lemma dec_str_digits: "c \<in> set (dec_str n) \<Longrightarrow> is_digit c"
proof (induction n rule: dec_str.induct)
  case (1 n)
  then show ?case
    by (cases "n < 10") (auto simp: dec_str_1 dec_str.simps [of n] split: if_splits)
qed

lemma dec_str_not_Nil [simp]: "dec_str n \<noteq> []"
  by (subst dec_str.simps) simp

lemma digits_val_dec_str: "digits_val (dec_str n @ cs) 0 = digits_val cs n"
proof (induction n arbitrary: cs rule: dec_str.induct)
  case (1 n)
  show ?case
  proof (cases "n < 10")
    case True
    then show ?thesis by (simp add: dec_str_1)
  next
    case False
    then have "digits_val (dec_str n @ cs) 0 = digits_val ([48 + of_nat (n mod 10)] @ cs) (n div 10)"
      using 1 by (simp add: dec_str.simps [of n])
    then show ?thesis by simp
  qed
qed

lemma length_dec_str: "0 < k \<Longrightarrow> n < 10 ^ k \<Longrightarrow> length (dec_str n) \<le> k"
proof (induction n arbitrary: k rule: dec_str.induct)
  case (1 n)
  show ?case
  proof (cases "n < 10")
    case True
    with 1 show ?thesis by (simp add: dec_str_1)
  next
    case False
    with 1 obtain j where j: "k = Suc j" "0 < j"
      by (cases k; cases "k - 1") auto
    with 1 have "n div 10 < 10 ^ j" by auto
    with False 1 j have "length (dec_str (n div 10)) \<le> j" by simp
    with False j show ?thesis by (simp add: dec_str.simps [of n])
  qed
qed

lemma digit_char:
  "is_digit c \<Longrightarrow> c \<noteq> 0 \<and> c \<noteq> 32 \<and> c \<noteq> 45 \<and> c \<noteq> 43 \<and> c \<noteq> 58 \<and> c \<noteq> 91 \<and> \<not> is_space c"
  by (auto simp: is_digit_def is_space_def word_le_nat_alt)

lemma c_atoi_dec_str [simp]: "c_atoi (dec_str n) = int n"
proof -
  obtain c cs where cs: "dec_str n = c # cs" by (cases "dec_str n") auto
  then have "is_digit c" using dec_str_digits [of c n] by simp
  then show ?thesis
    using digits_val_dec_str [of n "[]"] by (simp add: c_atoi_def cs digit_char)
qed

lemma inet_ntop4_chars: "c \<in> set (inet_ntop4 a) \<Longrightarrow> is_digit c \<or> c = 46"
  by (auto simp: inet_ntop4_def Let_def dest: dec_str_digits)

lemma inet_ntop4_char_neq:
  assumes "c \<in> set (inet_ntop4 a)"
  shows "c \<noteq> 0" "c \<noteq> 32" "c \<noteq> 58" "c \<noteq> 91"
  using inet_ntop4_chars [OF assms] digit_char [of c] by auto

lemma length_inet_ntop4: "length (inet_ntop4 a) \<le> 15"
proof -
  have l: "length (dec_str (unat (b :: u8))) \<le> 3" for b
    using length_dec_str [of 3 "unat b"] unsigned_less [of b, where ?'a = nat] by simp
  show ?thesis
    using l [of "bytes_le 4 a ! 0"] l [of "bytes_le 4 a ! 1"] l [of "bytes_le 4 a ! 2"]
      l [of "bytes_le 4 a ! 3"]
    by (simp add: inet_ntop4_def Let_def)
qed

lemma inet_ntop4_not_Nil [simp]: "inet_ntop4 a \<noteq> []"
  by (simp add: inet_ntop4_def Let_def)

lemma drop_spaces_id: "32 \<notin> set str \<Longrightarrow> dropWhile (\<lambda>c. c = 32) str = str" for str :: "u8 list"
  by (cases str) auto

lemma trim_spaces_id: "32 \<notin> set str \<Longrightarrow> trim_spaces str = str"
  by (simp add: trim_spaces_def drop_spaces_id)

lemma make_ioa_addr_ntop4:
  "make_ioa_addr pton gai (inet_ntop4 a4) port =
     (0, addr_set_any\<lparr>sa_family := AF_INET, sin_addr := a4, sin_port := nswap16 (of_int port)\<rparr>)"
proof -
  have "c_str (inet_ntop4 a4) = inet_ntop4 a4"
    by (rule c_str_id) (auto dest: inet_ntop4_char_neq)
  moreover have "trim_spaces (inet_ntop4 a4) = inet_ntop4 a4"
    by (rule trim_spaces_id) (auto dest: inet_ntop4_char_neq)
  moreover have "take 256 (inet_ntop4 a4) = inet_ntop4 a4"
    using length_inet_ntop4 [of a4] by simp
  ultimately show ?thesis by (simp add: make_ioa_addr_def)
qed

lemma split_host_port:
  assumes "\<And>c. c \<in> set host \<Longrightarrow> c \<noteq> 32 \<and> c \<noteq> 58 \<and> c \<noteq> 91" "host \<noteq> []"
  shows "get_addr_string_and_port (host @ 58 # rest) = Some (host, c_atoi rest)"
    and "get_addr_string_and_port host = Some (host, 0)"
proof -
  have nosp: "dropWhile (\<lambda>c. c = 32) (host @ ys) = host @ ys" for ys
    using assms by (cases host) auto
  have hd: "hd host \<noteq> 91" using assms by (cases host) auto
  have tw: "takeWhile (\<lambda>c. c \<noteq> 58) host = host" "dropWhile (\<lambda>c. c \<noteq> 58) host = []"
    using assms by (auto simp: takeWhile_eq_all_conv dropWhile_eq_Nil_conv)
  show "get_addr_string_and_port (host @ 58 # rest) = Some (host, c_atoi rest)"
    using nosp [of "58 # rest"] hd tw assms
    by (simp add: get_addr_string_and_port_def Let_def takeWhile_append dropWhile_append)
  show "get_addr_string_and_port host = Some (host, 0)"
    using nosp [of "[]"] hd tw assms by (simp add: get_addr_string_and_port_def Let_def)
qed

section \<open>Properties\<close>

text \<open>
  \<^bold>\<open>C30\<close>. An IPv4 address printed by \<open>addr_to_string\<close> is read back by
  \<open>make_ioa_addr_from_full_string\<close> as the same address and port, whatever the resolver does.
\<close>

theorem addr_string_roundtrip:
  assumes "a = addr_set_any\<lparr>sa_family := AF_INET, sin_addr := ip, sin_port := port\<rparr>"
    and "addr_to_string ntop (Some a) = Some str"
  shows "make_ioa_addr_from_full_string pton getaddrinfo (str @ [0]) 0 dst = (0, a)"
proof -
  let ?p = "addr_get_port (Some a)" and ?host = "inet_ntop4 ip"
  have p: "0 \<le> ?p" "?p < 65536" "nswap16 (of_int ?p) = port"
    using addr_get_port_range [of "Some a"] assms(1) by (auto simp: addr_get_port_def)
  have host: "\<And>c. c \<in> set ?host \<Longrightarrow> c \<noteq> 32 \<and> c \<noteq> 58 \<and> c \<noteq> 91"
    by (auto dest: inet_ntop4_char_neq)
  have len: "length (dec_str (nat ?p)) \<le> 5" "length ?host \<le> 15"
    using length_dec_str [of 5 "nat ?p"] length_inet_ntop4 p by auto
  have str: "str = (if ?p > 0 then ?host @ 58 # dec_str (nat ?p) else ?host)"
    using assms len by (auto simp: addr_to_string_def MAX_IOA_ADDR_STRING_def)
  then have "0 \<notin> set str"
    using digit_char [of 0] by (auto dest: inet_ntop4_char_neq dec_str_digits)
  then have "c_str (str @ [0]) = str" by (rule c_str_no_zero)
  moreover have "get_addr_string_and_port str = Some (?host, ?p)"
    using split_host_port [of ?host, OF host] p(1) by (auto simp: str)
  ultimately have "make_ioa_addr_from_full_string pton getaddrinfo (str @ [0]) 0 dst =
      make_ioa_addr pton getaddrinfo ?host (if ?p < 1 then 0 else ?p)"
    by (simp add: make_ioa_addr_from_full_string_def)
  also have "(if ?p < 1 then 0 else ?p) = ?p"
    using p(1) by auto
  also have "make_ioa_addr pton getaddrinfo ?host ?p = (0, a)"
    unfolding make_ioa_addr_ntop4 p(3) using assms(1) by simp
  finally show ?thesis .
qed

theorem addr_string_roundtrip_witness:
  "make_ioa_addr_from_full_string (\<lambda>_. None) (\<lambda>_. None)
     (str_bytes ''1.2.3.4:258'' @ [0]) 0 addr_set_any =
   (0, addr_set_any\<lparr>sa_family := AF_INET, sin_addr := 0x04030201, sin_port := 0x0201\<rparr>)"
  by (rule addr_string_roundtrip [where ntop = "\<lambda>_. []", OF refl]) code_simp

lemma addr6_num_any:
  assumes "sa_family a = AF_INET6" "addr_any (Some a)"
  shows "addr6_num a = 0"
proof -
  have "be_val bs 0 = 0" if "list_all (\<lambda>b. b = 0) bs" for bs using that by (induction bs) simp_all
  then show ?thesis using assms by (auto simp: addr_any_def addr6_num_def split: if_splits)
qed

text \<open>
  \<^bold>\<open>C35\<close>. An IPv6 range test never accepts an address outside the range, numerically: an accepted
  IPv6 address is at least the lower end as a 128-bit number, and at most the upper end unless that end is
  the unspecified address with port zero, which the code reads as no upper limit.
\<close>

theorem addr6_in_range_sound:
  assumes "wf_addr lo" "wf_addr hi" "wf_addr a"
    and "sa_family lo = AF_INET6" "sa_family hi = AF_INET6" "sa_family a = AF_INET6"
    and "ioa_addr_in_range (Some (ioa_addr_range_set (Some lo) (Some hi))) (Some a)"
  shows "addr6_num lo \<le> addr6_num a \<and> (addr_any (Some hi) \<or> addr6_num a \<le> addr6_num hi)"
  using assms addr6_less_eq_num [of lo a] addr6_less_eq_num [of a hi] addr6_num_any [of lo]
  by (auto simp: ioa_addr_in_range_def ioa_addr_range_set_def split: if_splits)

definition v6 :: "u8 list \<Rightarrow> ioa_addr" where
  "v6 bs = addr_set_any\<lparr>sa_family := AF_INET6, sin6_addr := bs\<rparr>"

theorem addr6_in_range_sound_witness:
  "addr6_num (v6 (32 # replicate 15 0)) \<le> addr6_num (v6 (32 # 1 # replicate 14 0)) \<and>
   (addr_any (Some (v6 (33 # replicate 15 1))) \<or>
    addr6_num (v6 (32 # 1 # replicate 14 0)) \<le> addr6_num (v6 (33 # replicate 15 1))) \<and>
   \<not> addr_any (Some (v6 (33 # replicate 15 1)))"
proof -
  have "\<not> addr_any (Some (v6 (33 # replicate 15 1)))" by code_simp
  moreover have "addr6_num (v6 (32 # replicate 15 0)) \<le> addr6_num (v6 (32 # 1 # replicate 14 0)) \<and>
      (addr_any (Some (v6 (33 # replicate 15 1))) \<or>
       addr6_num (v6 (32 # 1 # replicate 14 0)) \<le> addr6_num (v6 (33 # replicate 15 1)))"
    by (rule addr6_in_range_sound) code_simp+
  ultimately show ?thesis by blast
qed

text \<open>
  \<^bold>\<open>C3\<close>. The converse fails: the byte loop of \<open>addr_less_eq\<close> does not stop at the first differing
  byte, so \<open>fd00::5\<close> is rejected by the range \<open>fc00::9 - fe00::1\<close> that contains it.
\<close>

theorem addr6_in_range_incomplete:
  "let lo = v6 [0xfc, 0, 0, 0, 0, 0, 0, 0, 0, 0, 0, 0, 0, 0, 0, 9];
       a = v6 [0xfd, 0, 0, 0, 0, 0, 0, 0, 0, 0, 0, 0, 0, 0, 0, 5];
       hi = v6 [0xfe, 0, 0, 0, 0, 0, 0, 0, 0, 0, 0, 0, 0, 0, 0, 1]
   in addr6_num lo < addr6_num a \<and> addr6_num a < addr6_num hi \<and>
      \<not> ioa_addr_in_range (Some (ioa_addr_range_set (Some lo) (Some hi))) (Some a)"
  by (simp add: addr6_num_def v6_def ioa_addr_in_range_def ioa_addr_range_set_def addr_any_def
      addr_less_eq_def)

text \<open>
  \<^bold>\<open>C4\<close>. \<open>ioa_addr_is_loopback\<close> looks at byte 7 of an IPv6 address instead of byte 15: the loopback
  address \<open>::1\<close> is not recognised, while \<open>0:0:0:1::\<close> with any interface part is.
\<close>

theorem loopback6_wrong_byte:
  "\<not> ioa_addr_is_loopback (Some (v6 (replicate 15 0 @ [1]))) \<and>
   (length tail = 8 \<longrightarrow> ioa_addr_is_loopback (Some (v6 (replicate 7 0 @ [1] @ tail))))"
  by (simp add: ioa_addr_is_loopback_def v6_def byte_at_def nth_append upt_rec nth_Cons')

theorem loopback6_wrong_byte_witness:
  "ioa_addr_is_loopback (Some (v6 (replicate 7 0 @ [1] @ replicate 8 9)))"
  using loopback6_wrong_byte [of "replicate 8 9"] by simp

text \<open>
  \<^bold>\<open>C5\<close>. Translating a mapped public address to its private address and back gives the same address
  and port, when no two mappings share a private address.
\<close>

theorem addr_mapping_roundtrip:
  assumes "ip_addr a" "(apub, apriv) \<in> set ms" "addr_eq_no_port (Some a) (Some apub)"
    and "list_all (\<lambda>m. ip_addr (fst m) \<and> ip_addr (snd m)) ms"
    and "sorted_wrt (\<lambda>x y. \<not> addr_eq_no_port (Some (snd x)) (Some (snd y))) ms"
  shows "addr_eq (Some (map_addr_from_private_to_public ms (map_addr_from_public_to_private ms a)))
           (Some a)"
  using assms by (intro map_private_public_roundtrip) (auto simp: list_all_iff intro: bexI [of _ "(apub, apriv)"])

definition v4 :: "u32 \<Rightarrow> u16 \<Rightarrow> ioa_addr" where
  "v4 ip port = addr_set_any\<lparr>sa_family := AF_INET, sin_addr := ip, sin_port := port\<rparr>"

theorem addr_mapping_roundtrip_witness:
  "let ms = ioa_addr_add_mapping [(v4 1 0, v4 2 0)] (v4 3 0) (v4 4 0)
   in addr_eq (Some (map_addr_from_private_to_public ms
        (map_addr_from_public_to_private ms (v4 3 77)))) (Some (v4 3 77))"
  unfolding Let_def
  by (rule addr_mapping_roundtrip [where apub = "v4 3 0" and apriv = "v4 4 0"])
    (simp_all add: v4_def ip_addr_def ioa_addr_add_mapping_def addr_eq_no_port_def)

end
