(* ===== verification/Stun_Addr.thy ===== *)
theory Stun_Addr
  imports Io_Addr
begin

text \<open>
  Model of \<^verbatim>\<open>src/coturn/src/client/ns_turn_msg_addr.c\<close>: the wire form of an address attribute, plain
  or XOR-ed with the magic cookie and the transaction identifier. The field written by
  \<open>stun_addr_encode\<close> is returned as a list whose length is \<^verbatim>\<open>*clen\<close>.
\<close>

definition xor_bytes :: "u8 list \<Rightarrow> u8 list \<Rightarrow> u8 list" where
  "xor_bytes xs ys = map2 (XOR) xs ys"

definition xor_port :: "u32 \<Rightarrow> u16" where
  "xor_port mc = nswap16 (ucast (drop_bit 16 mc))"

definition stun_addr_encode :: "ioa_addr \<Rightarrow> bool \<Rightarrow> u32 \<Rightarrow> u8 list \<Rightarrow> u8 list option" where
  "stun_addr_encode ca xor_ed mc tsx_id =
     (if sa_family ca = AF_INET \<or> sa_family ca = 0 then
        (if xor_ed then
           Some ([0, 1] @ bytes_le 2 (sin_port ca XOR xor_port mc)
             @ bytes_le 4 (sin_addr ca XOR nswap32 mc))
         else Some ([0, 1] @ bytes_le 2 (sin_port ca) @ bytes_le 4 (sin_addr ca)))
      else if sa_family ca = AF_INET6 then
        (if xor_ed then
           Some ([0, 2] @ bytes_le 2 (sin_port ca XOR xor_port mc)
             @ xor_bytes (take 4 (sin6_addr ca)) (bytes_le 4 (nswap32 mc))
             @ xor_bytes (take 12 (drop 4 (sin6_addr ca))) (take 12 tsx_id))
         else Some ([0, 2] @ bytes_le 2 (sin_port ca) @ take 16 (sin6_addr ca)))
      else None)"

definition stun_addr_decode ::
  "ioa_addr \<Rightarrow> u8 list \<Rightarrow> int \<Rightarrow> bool \<Rightarrow> u32 \<Rightarrow> u8 list \<Rightarrow> int \<times> ioa_addr" where
  "stun_addr_decode ca cfield len xor_ed mc tsx_id =
     (if len < 8 then (-1, ca)
      else if byte_at cfield 0 \<noteq> 0 then (-1, ca)
      else if byte_at cfield 1 = 1 then
        (let ca1 = ca\<lparr>sa_family := AF_INET\<rparr> in
         if len \<noteq> 8 then (-1, ca1)
         else if xor_ed then
           (0, ca1\<lparr>sin_port := ld16 cfield 2 XOR xor_port mc, sin_addr := ld32 cfield 4 XOR nswap32 mc\<rparr>)
         else (0, ca1\<lparr>sin_port := ld16 cfield 2, sin_addr := ld32 cfield 4\<rparr>))
      else if byte_at cfield 1 = 2 then
        (let ca1 = ca\<lparr>sa_family := AF_INET6\<rparr> in
         if len \<noteq> 20 then (-1, ca1)
         else if xor_ed then
           (0, ca1\<lparr>sin_port := ld16 cfield 2 XOR xor_port mc,
                   sin6_addr := xor_bytes (read_bytes cfield 4 4) (bytes_le 4 (nswap32 mc))
                     @ xor_bytes (read_bytes cfield 8 12) (take 12 tsx_id)\<rparr>)
         else (0, ca1\<lparr>sin_port := ld16 cfield 2, sin6_addr := read_bytes cfield 4 16\<rparr>))
      else (-1, ca))"

lemma length_xor_bytes [simp]: "length (xor_bytes xs ys) = min (length xs) (length ys)"
  by (simp add: xor_bytes_def)

lemma xor_bytes_twice [simp]:
  "length xs \<le> length ys \<Longrightarrow> xor_bytes (xor_bytes xs ys) ys = xs"
  by (rule nth_equalityI) (auto simp: xor_bytes_def xor.assoc)

lemma length_stun_addr_encode:
  "stun_addr_encode ca x mc tsx = Some f \<Longrightarrow> wf_addr ca \<Longrightarrow> 12 \<le> length tsx \<Longrightarrow>
   length f = 8 \<or> length f = 20"
  by (auto simp: stun_addr_encode_def wf_addr_def split: if_splits)

lemma read_bytes_append:
  "length xs = off \<Longrightarrow> length ys = n \<Longrightarrow> read_bytes (xs @ ys @ zs) off n = ys"
  by (rule nth_equalityI) (auto simp: byte_at_def nth_append)

lemma wf_stun_addr_decode:
  "wf_addr ca \<Longrightarrow> 12 \<le> length tsx \<Longrightarrow> wf_addr (snd (stun_addr_decode ca f len x mc tsx))"
  by (auto simp: stun_addr_decode_def wf_addr_def Let_def)

lemma decode_encode_v4:
  assumes "sa_family a = AF_INET" "stun_addr_encode a x mc tsx = Some f"
  shows "stun_addr_decode ca f 8 x mc tsx =
           (0, ca\<lparr>sa_family := AF_INET, sin_port := sin_port a, sin_addr := sin_addr a\<rparr>)
         \<and> length f = 8"
proof -
  have rd: "read_bytes ([0, 1] @ bytes_le 2 (p :: u16) @ bytes_le 4 (q :: u32)) 2 2 = bytes_le 2 p"
    "read_bytes ([0, 1] @ bytes_le 2 p @ bytes_le 4 q) 4 4 = bytes_le 4 q" for p q
    using read_bytes_append [of "[0, 1]" 2 "bytes_le 2 p" 2 "bytes_le 4 q"]
      read_bytes_append [of "[0, 1] @ bytes_le 2 p" 4 "bytes_le 4 q" 4 "[]"] by simp_all
  show ?thesis
    using assms rd
    by (cases x) (auto simp: stun_addr_encode_def stun_addr_decode_def ld16_def ld32_def byte_at_def
        Let_def xor.assoc)
qed

lemma decode_encode_v6:
  assumes "sa_family a = AF_INET6" "wf_addr a" "length tsx = 12"
    and "stun_addr_encode a x mc tsx = Some f"
  shows "stun_addr_decode ca f 20 x mc tsx =
           (0, ca\<lparr>sa_family := AF_INET6, sin_port := sin_port a, sin6_addr := sin6_addr a\<rparr>)
         \<and> length f = 20"
proof -
  let ?a1 = "take 4 (sin6_addr a)" and ?a2 = "take 12 (drop 4 (sin6_addr a))"
  have len: "length ?a1 = 4" "length ?a2 = 12" and cat: "?a1 @ ?a2 = sin6_addr a"
    using assms(2) append_take_drop_id [of 4 "sin6_addr a"] by (auto simp: wf_addr_def)
  have rd: "read_bytes ([0, 2] @ bytes_le 2 (p :: u16) @ u @ v) 2 2 = bytes_le 2 p"
    "length u = 4 \<Longrightarrow> read_bytes ([0, 2] @ bytes_le 2 p @ u @ v) 4 4 = u"
    "length u = 4 \<Longrightarrow> length v = 12 \<Longrightarrow> read_bytes ([0, 2] @ bytes_le 2 p @ u @ v) 8 12 = v"
    "length u = 16 \<Longrightarrow> read_bytes ([0, 2] @ bytes_le 2 p @ u) 4 16 = u"
    "read_bytes ([0, 2] @ bytes_le 2 p @ u) 2 2 = bytes_le 2 p" for p u v
    using read_bytes_append [of "[0, 2]" 2 "bytes_le 2 p" 2 "u @ v"]
      read_bytes_append [of "[0, 2]" 2 "bytes_le 2 p" 2 "u"]
      read_bytes_append [of "[0, 2] @ bytes_le 2 p" 4 u 4 v]
      read_bytes_append [of "[0, 2] @ bytes_le 2 p @ u" 8 v 12 "[]"]
      read_bytes_append [of "[0, 2] @ bytes_le 2 p" 4 u 16 "[]"] by simp_all
  show ?thesis
    using assms rd len cat
    by (cases x) (auto simp: stun_addr_encode_def stun_addr_decode_def ld16_def byte_at_def
        Let_def xor.assoc wf_addr_def)
qed

text \<open>
  \<^bold>\<open>C29\<close>. Decoding an encoded address gives the same address and port, plain or XOR-ed, for IPv4
  and IPv6, whatever the cookie, the transaction identifier and the previous contents of the target.
\<close>

theorem stun_addr_roundtrip:
  assumes "ip_addr a" "wf_addr a" "length tsx_id = 12"
  shows "\<exists>f b. stun_addr_encode a xor_ed mc tsx_id = Some f \<and>
           stun_addr_decode ca f (int (length f)) xor_ed mc tsx_id = (0, b) \<and>
           addr_eq (Some b) (Some a)"
proof -
  obtain f where f: "stun_addr_encode a xor_ed mc tsx_id = Some f"
    using assms by (cases xor_ed) (auto simp: stun_addr_encode_def ip_addr_def)
  show ?thesis
  proof (cases "sa_family a = AF_INET")
    case True
    then show ?thesis
      using decode_encode_v4 [OF True f, of ca] f by (auto simp: addr_eq_Some ip_addr_def)
  next
    case False
    then have v6: "sa_family a = AF_INET6" using assms by (simp add: ip_addr_def)
    show ?thesis
      using decode_encode_v6 [OF v6 assms(2,3) f, of ca] f v6
      by (auto simp: addr_eq_Some ip_addr_def)
  qed
qed

theorem stun_addr_roundtrip_witness:
  "\<exists>f b. stun_addr_encode (v6 [32, 1, 13, 184, 0, 0, 0, 0, 0, 0, 0, 0, 0, 0, 0, 7]) True 0x2112A442
           [1, 2, 3, 4, 5, 6, 7, 8, 9, 10, 11, 12] = Some f \<and>
         stun_addr_decode addr_set_any f (int (length f)) True 0x2112A442
           [1, 2, 3, 4, 5, 6, 7, 8, 9, 10, 11, 12] = (0, b) \<and>
         addr_eq (Some b) (Some (v6 [32, 1, 13, 184, 0, 0, 0, 0, 0, 0, 0, 0, 0, 0, 0, 7]))"
  by (rule stun_addr_roundtrip) (simp_all add: ip_addr_def wf_addr_def v6_def)

end
