(* ===== verification/Stun_Msg.thy ===== *)
theory Stun_Msg
  imports Stun_Addr
begin

text \<open>
  Model of the message-level part of \<^verbatim>\<open>src/coturn/src/client/ns_turn_msg.c\<close> and of the constants in
  \<^verbatim>\<open>ns_turn_msg_defs.h\<close>: the STUN header, the method and class bits of the message type, the
  classification of packets, channel data framing and the splitting of a byte stream into messages.

  A buffer argument stands for a non-\<open>NULL\<close> pointer. An output parameter is returned; where the
  code leaves it untouched the incoming value is passed through.
\<close>

section \<open>Constants\<close>

definition STUN_HEADER_LENGTH [stun_consts]: "STUN_HEADER_LENGTH = (20 :: nat)"
definition MAX_STUN_MESSAGE_SIZE [stun_consts]: "MAX_STUN_MESSAGE_SIZE = (65507 :: nat)"
definition STUN_MAGIC_COOKIE [stun_consts]: "STUN_MAGIC_COOKIE = (0x2112A442 :: u32)"
definition STUN_METHOD_BINDING [stun_consts]: "STUN_METHOD_BINDING = (0x0001 :: u16)"
definition STUN_METHOD_ALLOCATE [stun_consts]: "STUN_METHOD_ALLOCATE = (0x0003 :: u16)"
definition STUN_METHOD_REFRESH [stun_consts]: "STUN_METHOD_REFRESH = (0x0004 :: u16)"
definition STUN_METHOD_SEND [stun_consts]: "STUN_METHOD_SEND = (0x0006 :: u16)"
definition STUN_METHOD_DATA [stun_consts]: "STUN_METHOD_DATA = (0x0007 :: u16)"
definition STUN_METHOD_CREATE_PERMISSION [stun_consts]:
  "STUN_METHOD_CREATE_PERMISSION = (0x0008 :: u16)"
definition STUN_METHOD_CHANNEL_BIND [stun_consts]: "STUN_METHOD_CHANNEL_BIND = (0x0009 :: u16)"
definition STUN_METHOD_CONNECT [stun_consts]: "STUN_METHOD_CONNECT = (0x000a :: u16)"
definition STUN_METHOD_CONNECTION_BIND [stun_consts]:
  "STUN_METHOD_CONNECTION_BIND = (0x000b :: u16)"
definition STUN_METHOD_CONNECTION_ATTEMPT [stun_consts]:
  "STUN_METHOD_CONNECTION_ATTEMPT = (0x000c :: u16)"

definition STUN_VALID_CHANNEL :: "u16 \<Rightarrow> bool" where
  "STUN_VALID_CHANNEL chn \<longleftrightarrow> 0x4000 \<le> chn \<and> chn \<le> 0x7FFF"

definition IS_STUN_REQUEST :: "u16 \<Rightarrow> bool" where
  "IS_STUN_REQUEST t \<longleftrightarrow> t AND 0x0110 = 0x0000"
definition IS_STUN_INDICATION :: "u16 \<Rightarrow> bool" where
  "IS_STUN_INDICATION t \<longleftrightarrow> t AND 0x0110 = 0x0010"
definition IS_STUN_SUCCESS_RESP :: "u16 \<Rightarrow> bool" where
  "IS_STUN_SUCCESS_RESP t \<longleftrightarrow> t AND 0x0110 = 0x0100"
definition IS_STUN_ERR_RESP :: "u16 \<Rightarrow> bool" where
  "IS_STUN_ERR_RESP t \<longleftrightarrow> t AND 0x0110 = 0x0110"

definition GET_STUN_REQUEST :: "u16 \<Rightarrow> u16" where
  "GET_STUN_REQUEST t = t AND 0xFEEF"
definition GET_STUN_INDICATION :: "u16 \<Rightarrow> u16" where
  "GET_STUN_INDICATION t = (t AND 0xFEEF) OR 0x0010"
definition GET_STUN_SUCCESS_RESP :: "u16 \<Rightarrow> u16" where
  "GET_STUN_SUCCESS_RESP t = (t AND 0xFEEF) OR 0x0100"
definition GET_STUN_ERR_RESP :: "u16 \<Rightarrow> u16" where
  "GET_STUN_ERR_RESP t = t OR 0x0110"

definition stun_method_str :: "u16 \<Rightarrow> int \<times> string" where
  "stun_method_str method =
     (if method = STUN_METHOD_BINDING then (0, ''BINDING'')
      else if method = STUN_METHOD_ALLOCATE then (0, ''ALLOCATE'')
      else if method = STUN_METHOD_REFRESH then (0, ''REFRESH'')
      else if method = STUN_METHOD_SEND then (0, ''SEND'')
      else if method = STUN_METHOD_DATA then (0, ''DATA'')
      else if method = STUN_METHOD_CREATE_PERMISSION then (0, ''CREATE_PERMISSION'')
      else if method = STUN_METHOD_CHANNEL_BIND then (0, ''CHANNEL_BIND'')
      else if method = STUN_METHOD_CONNECT then (0, ''CONNECT'')
      else if method = STUN_METHOD_CONNECTION_BIND then (0, ''CONNECTION_BIND'')
      else if method = STUN_METHOD_CONNECTION_ATTEMPT then (0, ''CONNECTION_ATTEMPT'')
      else (-1, ''UNKNOWN''))"

section \<open>Header fields\<close>

definition stun_get_command_message_len_str :: "u8 list \<Rightarrow> nat \<Rightarrow> int" where
  "stun_get_command_message_len_str buf len =
     (if len < STUN_HEADER_LENGTH then -1
      else let bufLen = unat (nswap16 (ld16 buf 2)) + STUN_HEADER_LENGTH
        in if bufLen > len then -1 else int bufLen)"

definition stun_set_command_message_len_str :: "u8 list \<Rightarrow> int \<Rightarrow> int \<times> u8 list" where
  "stun_set_command_message_len_str buf len =
     (if len < int STUN_HEADER_LENGTH then (-1, buf)
      else (0, put_bytes buf 2 (bytes_le 2 (nswap16 (of_int (len - int STUN_HEADER_LENGTH))))))"

definition stun_make_type :: "u16 \<Rightarrow> u16" where
  "stun_make_type method0 = (let method = method0 AND 0x0FFF in
     (method AND 0x000F) OR push_bit 1 (method AND 0x0070) OR
     push_bit 2 (method AND 0x0380) OR push_bit 2 (method AND 0x0C00))"

definition method_of_type :: "u16 \<Rightarrow> u16" where
  "method_of_type tt = (tt AND 0x000F) OR drop_bit 1 (tt AND 0x00E0) OR
     drop_bit 2 (tt AND 0x0E00) OR drop_bit 2 (tt AND 0x3000)"

definition stun_get_method_str :: "u8 list \<Rightarrow> nat \<Rightarrow> u16" where
  "stun_get_method_str buf len =
     (if len < 2 then -1 else method_of_type (nswap16 (ld16 buf 0)))"

definition stun_get_msg_type_str :: "u8 list \<Rightarrow> nat \<Rightarrow> u16" where
  "stun_get_msg_type_str buf len = (if len < 2 then -1 else nswap16 (ld16 buf 0) AND 0x3FFF)"

definition is_channel_msg_str :: "u8 list \<Rightarrow> nat \<Rightarrow> bool" where
  "is_channel_msg_str buf blen \<longleftrightarrow> 4 \<le> blen \<and> STUN_VALID_CHANNEL (nswap16 (ld16 buf 0))"

definition stun_is_command_message_str :: "u8 list \<Rightarrow> nat \<Rightarrow> bool" where
  "stun_is_command_message_str buf blen =
     (if STUN_HEADER_LENGTH \<le> blen then
        if \<not> STUN_VALID_CHANNEL (nswap16 (ld16 buf 0)) then
          if byte_at buf 0 AND 0xC0 = 0 then
            if nswap32 (ld32 buf 4) = STUN_MAGIC_COOKIE then
              let len = nswap16 (ld16 buf 2) in
              if len AND 0x0003 = 0 then unat len + STUN_HEADER_LENGTH = blen
              else False
            else False
          else False
        else False
      else False)"

text \<open>The classic STUN variant: no magic cookie; \<open>Some cookie\<close> is success with \<^verbatim>\<open>*cookie\<close> set.\<close>

definition old_stun_is_command_message_str :: "u8 list \<Rightarrow> nat \<Rightarrow> u32 option" where
  "old_stun_is_command_message_str buf blen =
     (if STUN_HEADER_LENGTH \<le> blen then
        if \<not> STUN_VALID_CHANNEL (nswap16 (ld16 buf 0)) then
          if byte_at buf 0 AND 0xC0 = 0 then
            if nswap32 (ld32 buf 4) \<noteq> STUN_MAGIC_COOKIE then
              let len = nswap16 (ld16 buf 2) in
              if len AND 0x0003 = 0 then
                if unat len + STUN_HEADER_LENGTH = blen then Some (nswap32 (ld32 buf 4)) else None
              else None
            else None
          else None
        else None
      else None)"

definition stun_is_command_message_offset_str :: "u8 list \<Rightarrow> nat \<Rightarrow> nat \<Rightarrow> bool" where
  "stun_is_command_message_offset_str buf blen offset =
     stun_is_command_message_str (drop offset buf) blen"

definition stun_is_request_str :: "u8 list \<Rightarrow> nat \<Rightarrow> bool" where
  "stun_is_request_str buf len =
     (if is_channel_msg_str buf len then False else IS_STUN_REQUEST (stun_get_msg_type_str buf len))"

definition stun_is_success_response_str :: "u8 list \<Rightarrow> nat \<Rightarrow> bool" where
  "stun_is_success_response_str buf len =
     (if is_channel_msg_str buf len then False
      else IS_STUN_SUCCESS_RESP (stun_get_msg_type_str buf len))"

definition stun_is_response_str :: "u8 list \<Rightarrow> nat \<Rightarrow> bool" where
  "stun_is_response_str buf len =
     (if is_channel_msg_str buf len then False
      else if IS_STUN_SUCCESS_RESP (stun_get_msg_type_str buf len) then True
      else if IS_STUN_ERR_RESP (stun_get_msg_type_str buf len) then True
      else False)"

definition stun_is_indication_str :: "u8 list \<Rightarrow> nat \<Rightarrow> bool" where
  "stun_is_indication_str buf len =
     (if is_channel_msg_str buf len then False
      else IS_STUN_INDICATION (stun_get_msg_type_str buf len))"

definition stun_make_request :: "u16 \<Rightarrow> u16" where
  "stun_make_request method = GET_STUN_REQUEST (stun_make_type method)"
definition stun_make_indication :: "u16 \<Rightarrow> u16" where
  "stun_make_indication method = GET_STUN_INDICATION (stun_make_type method)"
definition stun_make_success_response :: "u16 \<Rightarrow> u16" where
  "stun_make_success_response method = GET_STUN_SUCCESS_RESP (stun_make_type method)"
definition stun_make_error_response :: "u16 \<Rightarrow> u16" where
  "stun_make_error_response method = GET_STUN_ERR_RESP (stun_make_type method)"

definition stun_is_binding_request_str :: "u8 list \<Rightarrow> nat \<Rightarrow> nat \<Rightarrow> bool" where
  "stun_is_binding_request_str buf len offset =
     (if offset < len then
        let buf = drop offset buf; len = len - offset in
        if stun_is_command_message_str buf len then
          if stun_is_request_str buf len \<and> stun_get_method_str buf len = STUN_METHOD_BINDING
          then True else False
        else False
      else False)"

definition stun_is_binding_response_str :: "u8 list \<Rightarrow> nat \<Rightarrow> bool" where
  "stun_is_binding_response_str buf len =
     (if stun_is_command_message_str buf len \<and> stun_get_method_str buf len = STUN_METHOD_BINDING
      then (if stun_is_response_str buf len then True else False) else False)"

section \<open>Transaction identifiers and lifetimes\<close>

definition STUN_TID_SIZE [stun_consts]: "STUN_TID_SIZE = (12 :: nat)"

type_synonym stun_tid = "u8 list"

definition stun_tid_equals :: "stun_tid option \<Rightarrow> stun_tid option \<Rightarrow> bool" where
  "stun_tid_equals id1 id2 =
     (if id1 = id2 then True
      else case (id1, id2) of
        (Some a, Some b) \<Rightarrow> list_all (\<lambda>i. byte_at a i = byte_at b i) [0..<STUN_TID_SIZE]
      | _ \<Rightarrow> False)"

definition stun_tid_cpy :: "stun_tid \<Rightarrow> stun_tid option \<Rightarrow> stun_tid" where
  "stun_tid_cpy id1 id2 = (case id2 of None \<Rightarrow> id1 | Some b \<Rightarrow> take STUN_TID_SIZE b)"

definition stun_tid_from_message_str :: "u8 list \<Rightarrow> nat \<Rightarrow> stun_tid" where
  "stun_tid_from_message_str buf len = read_bytes buf 8 STUN_TID_SIZE"

definition stun_tid_message_cpy :: "u8 list \<Rightarrow> stun_tid option \<Rightarrow> u8 list" where
  "stun_tid_message_cpy buf tid0 =
     (case tid0 of None \<Rightarrow> buf | Some tid \<Rightarrow> put_bytes buf 8 (take STUN_TID_SIZE tid))"

text \<open>
  The identifier comes from the random source of OpenSSL (or \<^verbatim>\<open>random()\<close>): \<open>rnd\<close> is what it delivers.
\<close>

definition stun_tid_generate_in_message_str :: "u8 list \<Rightarrow> u8 list \<Rightarrow> u8 list" where
  "stun_tid_generate_in_message_str rnd buf = stun_tid_message_cpy buf (Some rnd)"

definition STUN_DEFAULT_ALLOCATE_LIFETIME [stun_consts]:
  "STUN_DEFAULT_ALLOCATE_LIFETIME = (600 :: u32)"
definition STUN_MIN_ALLOCATE_LIFETIME [stun_consts]: "STUN_MIN_ALLOCATE_LIFETIME = (600 :: u32)"

definition stun_adjust_allocate_lifetime :: "u32 \<Rightarrow> u32 \<Rightarrow> u32 \<Rightarrow> u32" where
  "stun_adjust_allocate_lifetime lifetime0 max_allowed_lifetime max_lifetime =
     (let lifetime =
        (if lifetime0 = 0 then STUN_DEFAULT_ALLOCATE_LIFETIME
         else if lifetime0 < STUN_MIN_ALLOCATE_LIFETIME then STUN_MIN_ALLOCATE_LIFETIME
         else if lifetime0 > max_allowed_lifetime then max_allowed_lifetime
         else lifetime0)
      in if max_lifetime \<noteq> 0 \<and> max_lifetime < lifetime then max_lifetime else lifetime)"

section \<open>Channel data\<close>

text \<open>Result, buffer and \<^verbatim>\<open>*len\<close>.\<close>

definition stun_init_channel_message_str ::
  "u16 \<Rightarrow> u8 list \<Rightarrow> nat \<Rightarrow> int \<Rightarrow> bool \<Rightarrow> int \<times> u8 list \<times> nat" where
  "stun_init_channel_message_str chnumber buf len dlen do_padding =
     (let rlen = (of_int dlen :: u16) in
      if dlen < 0 \<or> int MAX_STUN_MESSAGE_SIZE < 4 + dlen then (-1, buf, len)
      else let
        buf1 = put_bytes buf 0 (bytes_le 2 (nswap16 chnumber));
        buf2 = put_bytes buf1 2 (bytes_le 2 (nswap16 (of_int dlen)));
        rlen1 = (if do_padding \<and> rlen AND 0x0003 \<noteq> 0 then push_bit 2 (drop_bit 2 rlen + 1) else rlen)
      in (0, buf2, 4 + unat rlen1))"

text \<open>Result, \<^verbatim>\<open>*blen\<close> and \<^verbatim>\<open>*chnumber\<close> (\<open>None\<close> when it is not written).\<close>

definition stun_is_channel_message_str ::
  "u8 list \<Rightarrow> nat \<Rightarrow> bool \<Rightarrow> bool \<times> nat \<times> u16 option" where
  "stun_is_channel_message_str buf blen mandatory_padding =
     (if blen < 4 then (False, blen, None)
      else let chn = nswap16 (ld16 buf 0) in
        if \<not> STUN_VALID_CHANNEL chn then (False, blen, None)
        else let
          blen = (if blen > 65535 then 65535 else blen);
          datalen_actual = (of_nat blen - 4 :: u16);
          datalen_header = nswap16 (ld16 buf 2)
        in if datalen_header > datalen_actual then (False, blen, None)
           else if datalen_header \<noteq> datalen_actual \<and> datalen_actual AND 0x0003 \<noteq> 0 \<and>
             (mandatory_padding \<or> datalen_actual < datalen_header \<or> datalen_header = 0 \<or>
              datalen_actual - datalen_header > 3)
           then (False, blen, None)
           else (True, unat datalen_header + 4, Some chn))"

section \<open>Message framing\<close>

definition c_tolower :: "u8 \<Rightarrow> u8" where
  "c_tolower c = (if 65 \<le> c \<and> c \<le> 90 then c + 32 else c)"

fun sheadof :: "u8 list \<Rightarrow> u8 list \<Rightarrow> bool \<Rightarrow> bool" where
  "sheadof [] full ignore_case = True"
| "sheadof (h # head) [] ignore_case = False"
| "sheadof (h # head) (f # full) ignore_case =
     (if h \<noteq> f then
        (if ignore_case \<and> c_tolower h = c_tolower f then sheadof head full ignore_case else False)
      else sheadof head full ignore_case)"

text \<open>\<open>Some i\<close> is the pointer \<^verbatim>\<open>hay + i\<close>.\<close>

definition findstr :: "u8 list \<Rightarrow> nat \<Rightarrow> u8 list \<Rightarrow> bool \<Rightarrow> nat option" where
  "findstr hay slen needle ignore_case =
     (if slen \<noteq> 0 \<and> length needle \<le> slen
      then find (\<lambda>i. sheadof needle (drop i hay) ignore_case) [0..<slen - length needle + 1]
      else None)"

text \<open>\<^verbatim>\<open>strtoul(.., NULL, 10)\<close> with its saturation and its treatment of a sign.\<close>

definition c_strtoul :: "u8 list \<Rightarrow> nat" where
  "c_strtoul str = (case dropWhile is_space str of
     [] \<Rightarrow> 0
   | c # cs \<Rightarrow>
       (let neg = (c = 45); v = digits_val (if c = 45 \<or> c = 43 then cs else c # cs) 0 in
        if v > 2 ^ 64 - 1 then 2 ^ 64 - 1
        else if neg then (2 ^ 64 - v) mod 2 ^ 64 else v))"

definition is_http_inline :: "u8 list \<Rightarrow> nat \<Rightarrow> int" where
  "is_http_inline s blen =
     (if 12 \<le> blen \<and> (sheadof (str_bytes ''GET '') s False \<or> sheadof (str_bytes ''POST '') s False \<or>
          sheadof (str_bytes ''DELETE '') s False \<or> sheadof (str_bytes ''PUT '') s False)
      then (case findstr (drop 4 s) (blen - 4) (str_bytes '' HTTP/'') False of
          None \<Rightarrow> 0
        | Some i \<Rightarrow> (let diff_blen = 4 + i + 6 in
            if diff_blen + 4 \<le> blen then
              (case findstr (drop diff_blen s) (blen - diff_blen) [13, 10, 13, 10] False of
                 None \<Rightarrow> 0
               | Some j \<Rightarrow> (let sp = diff_blen + j in
                   (case findstr s sp (str_bytes ''content-length: '') True of
                      None \<Rightarrow> int (sp + 4)
                    | Some k \<Rightarrow> (let clen = c_strtoul (drop (k + 16) s) in
                        if 0 < clen \<and> clen < 0x0FFFFFFF then int (sp + 4) + int clen
                        else int (sp + 4)))))
            else 0))
      else 0)"

definition is_http :: "u8 list \<Rightarrow> nat \<Rightarrow> int" where
  "is_http s blen = is_http_inline s blen"

text \<open>
  The length of the next message in a stream, with \<^verbatim>\<open>*app_len\<close>. The additions of the header lengths
  are made in 16-bit arithmetic, as in the code.
\<close>

definition stun_get_message_len_str ::
  "u8 list \<Rightarrow> nat \<Rightarrow> bool \<Rightarrow> nat \<Rightarrow> int \<times> nat" where
  "stun_get_message_len_str buf blen padding app_len =
     (if blen = 0 then (-1, app_len)
      else let
        stun_len = nswap16 (ld16 buf 2) + of_nat STUN_HEADER_LENGTH;
        http_len = is_http_inline buf blen;
        chn = nswap16 (ld16 buf 0);
        bret = 4 + nswap16 (ld16 buf 2);
        bret1 = (if padding \<and> bret AND 0x0003 \<noteq> 0 then push_bit 2 (drop_bit 2 bret + 1) else bret)
      in if STUN_HEADER_LENGTH \<le> blen \<and> \<not> STUN_VALID_CHANNEL (nswap16 (ld16 buf 0)) \<and>
            byte_at buf 0 AND 0xC0 = 0 \<and> nswap32 (ld32 buf 4) = STUN_MAGIC_COOKIE \<and>
            nswap16 (ld16 buf 2) AND 0x0003 = 0 \<and> unat stun_len \<le> blen
         then (int (unat stun_len), unat stun_len)
         else if http_len > 0 \<and> nat http_len \<le> blen then (http_len, nat http_len)
         else if 4 \<le> blen \<and> STUN_VALID_CHANNEL chn then
           (if unat bret1 \<le> blen then (int (unat bret1), unat bret) else (-1, unat bret))
         else (-1, app_len))"

section \<open>Message types\<close>

lemma less16_cases:
  "(n :: nat) < 16 \<Longrightarrow> n = 15 \<or> n = 14 \<or> n = 13 \<or> n = 12 \<or> n = 11 \<or> n = 10 \<or> n = 9 \<or> n = 8 \<or> n = 7 \<or>
     n = 6 \<or> n = 5 \<or> n = 4 \<or> n = 3 \<or> n = 2 \<or> n = 1 \<or> n = 0"
  by arith

lemma u16_eqI: "(\<And>n. n < 16 \<Longrightarrow> bit (v :: u16) n = bit w n) \<Longrightarrow> v = w"
  by (rule bit_word_eqI) simp

lemmas type_bits = method_of_type_def stun_make_request_def stun_make_indication_def
  stun_make_success_response_def stun_make_error_response_def GET_STUN_REQUEST_def
  GET_STUN_INDICATION_def GET_STUN_SUCCESS_RESP_def GET_STUN_ERR_RESP_def stun_make_type_def Let_def
  bit_and_iff bit_or_iff bit_push_bit_iff bit_drop_bit_eq o_def

lemma method_of_make_request [simp]: "method_of_type (stun_make_request m) = m AND 0x0FFF"
  by (rule u16_eqI, drule less16_cases, unfold type_bits, elim disjE) simp_all

lemma method_of_make_indication [simp]: "method_of_type (stun_make_indication m) = m AND 0x0FFF"
  by (rule u16_eqI, drule less16_cases, unfold type_bits, elim disjE) simp_all

lemma method_of_make_success_response [simp]: "method_of_type (stun_make_success_response m) = m AND 0x0FFF"
  by (rule u16_eqI, drule less16_cases, unfold type_bits, elim disjE) simp_all

lemma method_of_make_error_response [simp]: "method_of_type (stun_make_error_response m) = m AND 0x0FFF"
  by (rule u16_eqI, drule less16_cases, unfold type_bits, elim disjE) simp_all

lemma class_of_make [simp]:
  "stun_make_request m AND 0x0110 = 0" "stun_make_indication m AND 0x0110 = 0x0010"
  "stun_make_success_response m AND 0x0110 = 0x0100" "stun_make_error_response m AND 0x0110 = 0x0110"
  subgoal by (rule u16_eqI, drule less16_cases, unfold type_bits, elim disjE) simp_all
  subgoal by (rule u16_eqI, drule less16_cases, unfold type_bits, elim disjE) simp_all
  subgoal by (rule u16_eqI, drule less16_cases, unfold type_bits, elim disjE) simp_all
  subgoal by (rule u16_eqI, drule less16_cases, unfold type_bits, elim disjE) simp_all
  done

lemma type_top_bits [simp]:
  "stun_make_request m AND 0xC000 = 0" "stun_make_indication m AND 0xC000 = 0"
  "stun_make_success_response m AND 0xC000 = 0" "stun_make_error_response m AND 0xC000 = 0"
  subgoal by (rule u16_eqI, drule less16_cases, unfold type_bits, elim disjE) simp_all
  subgoal by (rule u16_eqI, drule less16_cases, unfold type_bits, elim disjE) simp_all
  subgoal by (rule u16_eqI, drule less16_cases, unfold type_bits, elim disjE) simp_all
  subgoal by (rule u16_eqI, drule less16_cases, unfold type_bits, elim disjE) simp_all
  done

lemma make_type_method_of_type:
  "stun_make_type (method_of_type t) = t AND 0x3EEF"
  by (rule u16_eqI, drule less16_cases, unfold type_bits, elim disjE) simp_all

lemma type_split:
  assumes "t AND 0xC000 = (0 :: u16)"
  shows "t = (t AND 0x3EEF) OR (t AND 0x0110)"
proof (rule u16_eqI)
  fix n :: nat assume n: "n < 16"
  have "bit (t AND 0xC000) n = bit (0 :: u16) n" using assms by simp
  with n show "bit t n = bit ((t AND 0x3EEF) OR (t AND 0x0110)) n"
    by (drule_tac less16_cases, unfold bit_and_iff bit_or_iff, elim disjE) simp_all
qed

lemma class_cases:
  "(t :: u16) AND 0x0110 = 0 \<or> t AND 0x0110 = 0x0010 \<or> t AND 0x0110 = 0x0100 \<or> t AND 0x0110 = 0x0110"
proof -
  have "t AND 0x0110 = (if bit t 4 then 0x0010 else 0) OR (if bit t 8 then 0x0100 else 0)"
    by (rule u16_eqI, drule less16_cases, unfold bit_and_iff bit_or_iff if_distrib, elim disjE) simp_all
  then show ?thesis by simp
qed

text \<open>
  \<^bold>\<open>C32\<close>: the 14-bit message type is a lossless encoding of method and class: each of the four
  constructors gives back the 12-bit method, keeps the two top bits clear and is recognised by exactly
  its own class predicate; and every type with clear top bits is the one built from its own method by the
  constructor of its class.
\<close>

theorem stun_type_codec:
  "method_of_type (stun_make_request m) = m AND 0x0FFF \<and>
   method_of_type (stun_make_indication m) = m AND 0x0FFF \<and>
   method_of_type (stun_make_success_response m) = m AND 0x0FFF \<and>
   method_of_type (stun_make_error_response m) = m AND 0x0FFF \<and>
   IS_STUN_REQUEST (stun_make_request m) \<and> IS_STUN_INDICATION (stun_make_indication m) \<and>
   IS_STUN_SUCCESS_RESP (stun_make_success_response m) \<and> IS_STUN_ERR_RESP (stun_make_error_response m) \<and>
   (t AND 0xC000 = 0 \<longrightarrow>
     t = (if IS_STUN_REQUEST t then stun_make_request (method_of_type t)
          else if IS_STUN_INDICATION t then stun_make_indication (method_of_type t)
          else if IS_STUN_SUCCESS_RESP t then stun_make_success_response (method_of_type t)
          else stun_make_error_response (method_of_type t)))"
proof -
  have "t = (if IS_STUN_REQUEST t then stun_make_request (method_of_type t)
          else if IS_STUN_INDICATION t then stun_make_indication (method_of_type t)
          else if IS_STUN_SUCCESS_RESP t then stun_make_success_response (method_of_type t)
          else stun_make_error_response (method_of_type t))" if top: "t AND 0xC000 = 0"
  proof -
    define u where "u = t AND 0x3EEF"
    have t: "t = u OR (t AND 0x0110)" using type_split [OF top] by (simp add: u_def)
    have "u AND 0xFEEF = u" by (simp add: u_def and.assoc)
    moreover have "stun_make_type (method_of_type t) = u" by (simp add: u_def make_type_method_of_type)
    ultimately show ?thesis using t class_cases [of t]
      by (elim disjE)
        (auto simp: IS_STUN_REQUEST_def IS_STUN_INDICATION_def IS_STUN_SUCCESS_RESP_def
          stun_make_request_def stun_make_indication_def stun_make_success_response_def
          stun_make_error_response_def GET_STUN_REQUEST_def GET_STUN_INDICATION_def
          GET_STUN_SUCCESS_RESP_def GET_STUN_ERR_RESP_def)
  qed
  then show ?thesis
    by (simp add: IS_STUN_REQUEST_def IS_STUN_INDICATION_def IS_STUN_SUCCESS_RESP_def IS_STUN_ERR_RESP_def)
qed

theorem stun_type_codec_witness:
  "method_of_type (stun_make_error_response 9) = 9 \<and> (0x0101 :: u16) AND 0xC000 = 0 \<and>
   0x0101 = stun_make_success_response (method_of_type 0x0101)"
  using stun_type_codec [of 9 "0x0101"]
  by (simp add: IS_STUN_REQUEST_def IS_STUN_INDICATION_def IS_STUN_SUCCESS_RESP_def)

end
