(* ===== verification/Stun_Frame.thy ===== *)
theory Stun_Frame
  imports Stun_Msg
begin

text \<open>
  The framing of packets: what \<^verbatim>\<open>stun_init_channel_message_str\<close> writes is what
  \<^verbatim>\<open>stun_is_channel_message_str\<close> reads, and \<^verbatim>\<open>stun_get_message_len_str\<close> cuts a stream of bytes at the end of
  the message it starts with, except where its 16-bit sums wrap around.
\<close>

section \<open>Rounding to a multiple of four\<close>

lemma and3_mod4: "(w :: u16) AND 3 = w mod 4"
  using take_bit_eq_mask [of 2 w] by (simp add: mask_eq_exp_minus_1 take_bit_eq_mod)

lemma and3_eq_0 [simp]: "(w :: u16) AND 3 = 0 \<longleftrightarrow> 4 dvd unat w"
proof -
  have "unat (w mod 4) = unat w mod 4" by (simp add: unat_mod_distrib)
  then show ?thesis unfolding and3_mod4 by (metis dvd_eq_mod_eq_0 unsigned_eq_0_iff)
qed

definition round4 :: "nat \<Rightarrow> nat" where
  "round4 n = (if n mod 4 = 0 then n else (n div 4 + 1) * 4)"

lemma round4_bounds: "n \<le> round4 n" "round4 n < n + 4" "4 dvd round4 n" "round4 n = n \<longleftrightarrow> 4 dvd n"
  unfolding round4_def by (auto simp: dvd_eq_mod_eq_0) presburger+

lemma round4_word:
  assumes "unat (w :: u16) \<le> 65532"
  shows "unat (if w AND 3 \<noteq> 0 then push_bit 2 (drop_bit 2 w + 1) else w) = round4 (unat w)"
proof (cases "w AND 3 = 0")
  case True then show ?thesis by (simp add: round4_def)
next
  case False
  have d: "unat (drop_bit 2 w) = unat w div 4" by (simp add: drop_bit_eq_div unat_div_distrib)
  have nd: "\<not> 4 dvd unat w" using False by simp
  then have lt: "unat w div 4 < 16383" using assms by presburger
  have s: "unat (drop_bit 2 w + 1) = unat w div 4 + 1" using lt d by (simp add: unat_word_ariths)
  have "unat (push_bit 2 (drop_bit 2 w + 1)) = (unat w div 4 + 1) * 4"
    using lt unfolding push_bit_eq_mult unat_word_ariths(2) s by simp
  then show ?thesis using False nd by (simp add: round4_def dvd_eq_mod_eq_0)
qed

section \<open>Channel data\<close>

lemma channel_header_reads:
  assumes "4 \<le> length buf"
  shows "ld16 (put_bytes (put_bytes buf 0 (bytes_le 2 c)) 2 (bytes_le 2 d)) 0 = c"
    "ld16 (put_bytes (put_bytes buf 0 (bytes_le 2 c)) 2 (bytes_le 2 d)) 2 = d"
  using assms by (simp_all add: mem_simps)

lemma init_channel_message:
  assumes "dlen + 4 \<le> MAX_STUN_MESSAGE_SIZE"
  shows "stun_init_channel_message_str chn buf len (int dlen) pad =
    (0, put_bytes (put_bytes buf 0 (bytes_le 2 (nswap16 chn))) 2 (bytes_le 2 (nswap16 (of_nat dlen))),
     4 + (if pad then round4 dlen else dlen))"
proof -
  have u: "unat (of_nat dlen :: u16) = dlen"
    using assms by (simp add: stun_consts)
  have r: "unat (if (of_nat dlen :: u16) AND 3 \<noteq> 0 then push_bit 2 (drop_bit 2 (of_nat dlen :: u16) + 1)
      else of_nat dlen) = round4 dlen"
    using round4_word [of "of_nat dlen"] assms by (simp add: u stun_consts)
  show ?thesis
    using assms r u by (simp add: stun_init_channel_message_str_def Let_def stun_consts)
qed

text \<open>
  \<^bold>\<open>C31\<close>: channel data written with \<^verbatim>\<open>stun_init_channel_message_str\<close>, padded or not, for a valid
  channel number and any payload that fits a message, is accepted by \<^verbatim>\<open>stun_is_channel_message_str\<close> in
  both padding modes with the same channel number and the unpadded length.
\<close>

theorem channel_message_roundtrip:
  assumes chn: "STUN_VALID_CHANNEL chn" and fits: "dlen + 4 \<le> MAX_STUN_MESSAGE_SIZE"
    and room: "4 \<le> length buf"
    and init: "stun_init_channel_message_str chn buf len (int dlen) pad = (rc, buf', len')"
  shows "rc = 0 \<and> length buf' = length buf \<and> drop 4 buf' = drop 4 buf \<and>
    stun_is_channel_message_str buf' len' mandatory_padding = (True, dlen + 4, Some chn)"
proof -
  from init fits have rc: "rc = 0"
    and b: "buf' = put_bytes (put_bytes buf 0 (bytes_le 2 (nswap16 chn))) 2 (bytes_le 2 (nswap16 (of_nat dlen)))"
    and l: "len' = 4 + (if pad then round4 dlen else dlen)"
    by (simp_all add: init_channel_message)
  have u: "unat (of_nat dlen :: u16) = dlen"
    using fits by (simp add: stun_consts)
  have l': "4 \<le> len'" "len' \<le> 65535" "len' - 4 = (if pad then round4 dlen else dlen)"
    using l fits round4_bounds [of dlen] by (auto simp: stun_consts)
  have a: "unat (of_nat len' - 4 :: u16) = (if pad then round4 dlen else dlen)"
  proof -
    have "(of_nat len' - 4 :: u16) = of_nat (len' - 4)" using l'(1) by (simp add: of_nat_diff)
    moreover have "unat (of_nat (len' - 4) :: u16) = len' - 4" using l' by simp
    ultimately show ?thesis using l'(3) by simp
  qed
  have le: "\<not> (of_nat dlen :: u16) > of_nat len' - 4"
    using a u round4_bounds [of dlen] by (simp add: word_less_nat_alt)
  have pad_ok: "(of_nat dlen :: u16) = of_nat len' - 4 \<or> 4 dvd unat (of_nat len' - 4 :: u16)"
    using a u round4_bounds [of dlen] by (cases pad) (auto simp: word_unat_eq_iff)
  have h: "nswap16 (ld16 buf' 0) = chn" "nswap16 (ld16 buf' 2) = of_nat dlen"
    unfolding b channel_header_reads [OF room] by simp_all
  have "drop 4 buf' = drop 4 buf"
    unfolding b using room by (simp add: put_bytes_def drop_eq_Nil)
  moreover have "stun_is_channel_message_str buf' len' mandatory_padding = (True, dlen + 4, Some chn)"
    using chn le pad_ok l' u by (auto simp: stun_is_channel_message_str_def Let_def h)
  ultimately show ?thesis using rc b by simp
qed

theorem channel_message_roundtrip_witness:
  "stun_is_channel_message_str [0x40, 0x01, 0, 5, 7, 7, 7, 7, 7, 0, 0, 0] 12 True = (True, 9, Some 0x4001)"
proof -
  have b: "put_bytes (put_bytes (replicate 4 0 @ [7, 7, 7, 7, 7, 0, 0, 0]) 0 (bytes_le 2 (nswap16 0x4001))) 2
      (bytes_le 2 (nswap16 (of_nat 5))) = [0x40, 0x01, 0, 5, 7, 7, 7, 7, 7, 0, 0, 0]"
    by code_simp
  have "stun_init_channel_message_str 0x4001 (replicate 4 0 @ [7, 7, 7, 7, 7, 0, 0, 0]) 0 (int 5) True =
      (0, [0x40, 0x01, 0, 5, 7, 7, 7, 7, 7, 0, 0, 0], 12)"
    by (subst init_channel_message) (simp_all add: b [simplified] stun_consts round4_def)
  from channel_message_roundtrip [OF _ _ _ this, of True]
  show ?thesis by (simp add: STUN_VALID_CHANNEL_def stun_consts)
qed

section \<open>Cutting a stream into messages\<close>

text \<open>
  \<^bold>\<open>C22\<close>: when \<^verbatim>\<open>stun_get_message_len_str\<close> announces a message, the announced length and the application
  length lie within the bytes received, and the application length never exceeds the announced one
  except for a padded channel length that wraps around to zero.
\<close>

theorem message_len_bounds:
  assumes "stun_get_message_len_str buf blen padding app = (r, app')" and "0 \<le> r"
  shows "nat r \<le> blen \<and> (app' \<le> nat r \<or> (padding \<and> r = 0 \<and> STUN_VALID_CHANNEL (nswap16 (ld16 buf 0))))"
proof -
  let ?bret = "4 + nswap16 (ld16 buf 2)"
  have "unat ?bret \<le> unat (push_bit 2 (drop_bit 2 ?bret + 1)) \<or> push_bit 2 (drop_bit 2 ?bret + 1) = 0"
    if "?bret AND 3 \<noteq> 0"
  proof (cases "unat ?bret \<le> 65532")
    case True
    from round4_word [OF True] that round4_bounds(1) [of "unat ?bret"] show ?thesis by simp
  next
    case False
    then have "unat (drop_bit 2 ?bret) = 16383"
      using unat_16_less(1) [of ?bret] unfolding drop_bit_eq_div unat_div_distrib by simp
    then have "drop_bit 2 ?bret = 16383" by (simp add: word_unat_eq_iff)
    then show ?thesis by simp
  qed
  with assms show ?thesis
    by (auto simp: stun_get_message_len_str_def Let_def split: if_splits)
qed

theorem message_len_bounds_witness:
  "stun_get_message_len_str [0x40, 0x01, 0, 5, 7, 7, 7, 7, 7, 0, 0, 0, 1, 2] 14 True 0 = (12, 9) \<and> nat 12 \<le> 14"
proof -
  have "stun_get_message_len_str [0x40, 0x01, 0, 5, 7, 7, 7, 7, 7, 0, 0, 0, 1, 2] 14 True 0 = (12, 9)"
    by code_simp
  with message_len_bounds [OF this] show ?thesis by simp
qed

lemma command_message_unfold:
  "stun_is_command_message_str buf n \<longleftrightarrow> 20 \<le> n \<and> \<not> STUN_VALID_CHANNEL (nswap16 (ld16 buf 0)) \<and>
     byte_at buf 0 AND 0xC0 = 0 \<and> nswap32 (ld32 buf 4) = STUN_MAGIC_COOKIE \<and>
     4 dvd unat (nswap16 (ld16 buf 2)) \<and> unat (nswap16 (ld16 buf 2)) + 20 = n"
  by (simp add: stun_is_command_message_str_def Let_def STUN_HEADER_LENGTH)

text \<open>The code looks for an HTTP request before it looks for channel data; such a request starts with two letters.\<close>

lemma http_head:
  assumes "0 < is_http_inline buf blen"
  shows "nswap16 (ld16 buf 0) \<in> {0x4745, 0x504F, 0x4445, 0x5055}"
proof -
  have "sheadof (str_bytes ''GET '') buf False \<or> sheadof (str_bytes ''POST '') buf False \<or>
      sheadof (str_bytes ''DELETE '') buf False \<or> sheadof (str_bytes ''PUT '') buf False"
    using assms by (auto simp: is_http_inline_def split: if_splits)
  then have "\<exists>m. buf = 71 # 69 # m \<or> buf = 80 # 79 # m \<or> buf = 68 # 69 # m \<or> buf = 80 # 85 # m"
    by (auto simp: str_bytes_def elim!: sheadof.elims split: if_splits)
  moreover have "read_bytes (a # b # m) 0 2 = [a, b]" for a b :: u8 and m
    by (simp add: read_bytes_def byte_at_def upt_rec)
  moreover have "nswap16 (word_le [71, 69]) = 0x4745" "nswap16 (word_le [80, 79]) = 0x504F"
    "nswap16 (word_le [68, 69]) = 0x4445" "nswap16 (word_le [80, 85]) = 0x5055" by code_simp+
  ultimately show ?thesis by (auto simp: ld16_def)
qed

text \<open>
  \<^bold>\<open>C21\<close>: a stream that starts with a complete command message is cut exactly at the end of that message.
  A stream that starts with complete channel data is cut at the end of the data, or at the end of its padding when
  padding is expected, and the application length is the unpadded one. Both hold as long as the length fits the 16-bit
  sum of the code. Channel data on the four channels 0x4745, 0x504F, 0x4445 and 0x5055, whose numbers spell the first
  letters of GET, POST, DELETE and PUT, are cut in this way unless the stream reads as an HTTP request.
\<close>

theorem message_len_exact:
  assumes "n \<le> blen" and "n < 65536"
  shows "(stun_is_command_message_str buf n \<longrightarrow> stun_get_message_len_str buf blen padding app = (int n, n)) \<and>
    (STUN_VALID_CHANNEL (nswap16 (ld16 buf 0)) \<and>
       (nswap16 (ld16 buf 0) \<notin> {0x4745, 0x504F, 0x4445, 0x5055} \<or> is_http_inline buf blen \<le> 0) \<and>
       n = (if padding then round4 (unat (nswap16 (ld16 buf 2)) + 4) else unat (nswap16 (ld16 buf 2)) + 4) \<longrightarrow>
     stun_get_message_len_str buf blen padding app = (int n, unat (nswap16 (ld16 buf 2)) + 4))"
proof (intro conjI impI)
  assume cm: "stun_is_command_message_str buf n"
  then have n: "unat (nswap16 (ld16 buf 2)) + 20 = n" by (simp add: command_message_unfold)
  then have "unat (nswap16 (ld16 buf 2) + 20) = n" using assms by (simp add: unat_word_ariths)
  then show "stun_get_message_len_str buf blen padding app = (int n, n)"
    using cm assms by (simp add: command_message_unfold stun_get_message_len_str_def Let_def STUN_HEADER_LENGTH)
next
  let ?d = "unat (nswap16 (ld16 buf 2)) + 4"
  assume ch: "STUN_VALID_CHANNEL (nswap16 (ld16 buf 0)) \<and>
    (nswap16 (ld16 buf 0) \<notin> {0x4745, 0x504F, 0x4445, 0x5055} \<or> is_http_inline buf blen \<le> 0) \<and>
    n = (if padding then round4 ?d else ?d)"
  let ?l = "4 + nswap16 (ld16 buf 2)"
  have h: "is_http_inline buf blen \<le> 0" using ch http_head [of buf blen] by fastforce
  have dn: "?d \<le> n" using ch round4_bounds(1) [of ?d] by simp
  then have l: "unat ?l = ?d" using assms by (simp add: unat_word_ariths)
  have "unat (if padding \<and> ?l AND 3 \<noteq> 0 then push_bit 2 (drop_bit 2 ?l + 1) else ?l) = n"
  proof (cases padding)
    case True
    then have n: "n = round4 ?d" using ch by simp
    then have "?d \<le> 65532" using assms round4_bounds [of ?d] by presburger
    then show ?thesis using round4_word [of ?l] n l True by simp
  next
    case False
    then show ?thesis using ch l by simp
  qed
  moreover have "4 \<le> n" using dn by simp
  ultimately show "stun_get_message_len_str buf blen padding app = (int n, ?d)"
    using ch h assms l by (simp add: stun_get_message_len_str_def Let_def split del: if_split)
qed

theorem message_len_exact_witness:
  "stun_get_message_len_str [0, 1, 0, 0, 0x21, 0x12, 0xA4, 0x42, 1, 2, 3, 4, 5, 6, 7, 8, 9, 10, 11, 12, 99] 21 True 0 = (20, 20) \<and>
   stun_get_message_len_str [0x40, 0x01, 0, 5, 7, 7, 7, 7, 7, 0, 0, 0, 1, 2] 14 True 0 = (12, 9) \<and>
   stun_get_message_len_str [0x40, 0x01, 0, 5, 7, 7, 7, 7, 7, 0, 0, 0, 1, 2] 14 False 0 = (9, 9)"
proof -
  let ?c = "[0, 1, 0, 0, 0x21, 0x12, 0xA4, 0x42, 1, 2, 3, 4, 5, 6, 7, 8, 9, 10, 11, 12, 99] :: u8 list"
  let ?d = "[0x40, 0x01, 0, 5, 7, 7, 7, 7, 7, 0, 0, 0, 1, 2] :: u8 list"
  have "stun_is_command_message_str ?c 20" by code_simp
  moreover have "STUN_VALID_CHANNEL (nswap16 (ld16 ?d 0))" "nswap16 (ld16 ?d 0) = 0x4001" "unat (nswap16 (ld16 ?d 2)) = 5"
    by code_simp+
  ultimately show ?thesis
    using message_len_exact [of 20 21 ?c True 0] message_len_exact [of 12 14 ?d True 0] message_len_exact [of 9 14 ?d False 0]
    by (simp add: round4_def)
qed

text \<open>These 18 bytes are the start of 21536 bytes of data on channel 0x4745, and are cut as a complete HTTP request.\<close>

lemma channel_cut_as_http:
  "let m = str_bytes ''GET / HTTP/1.1'' @ [13, 10, 13, 10] in
   STUN_VALID_CHANNEL (nswap16 (ld16 m 0)) \<and> nswap16 (ld16 m 2) = 21536 \<and> stun_get_message_len_str m 18 True 0 = (18, 18)"
  by code_simp

text \<open>
  \<^bold>\<open>C36\<close>: beyond that bound the 16-bit sums wrap around: a channel header that announces 65532
  bytes is a complete message of length zero, so a reader that consumes the announced length makes no progress.
\<close>

theorem message_len_wraps:
  "4 \<le> blen \<Longrightarrow> stun_get_message_len_str ([0x40, 0x00, 0xFF, 0xFC] @ rest) blen padding app = (0, 0)"
proof -
  assume "4 \<le> blen"
  have "read_bytes ([0x40, 0x00, 0xFF, 0xFC] @ rest) 0 2 = [0x40, 0x00]"
    "read_bytes ([0x40, 0x00, 0xFF, 0xFC] @ rest) 2 2 = [0xFF, 0xFC]"
    by (simp_all add: read_bytes_def byte_at_def upt_rec)
  moreover have "nswap16 (word_le [0x40, 0x00]) = 0x4000" "nswap16 (word_le [0xFF, 0xFC]) = 0xFFFC"
    by code_simp+
  moreover have "is_http_inline ([0x40, 0x00, 0xFF, 0xFC] @ rest) blen = 0"
    by (simp add: is_http_inline_def str_bytes_def)
  ultimately show ?thesis using \<open>4 \<le> blen\<close>
    by (simp add: stun_get_message_len_str_def Let_def STUN_VALID_CHANNEL_def ld16_def)
qed

theorem message_len_wraps_witness:
  "stun_get_message_len_str [0x40, 0x00, 0xFF, 0xFC, 1, 2, 3, 4] 8 True 7 = (0, 0)"
  using message_len_wraps [of 8 "[1, 2, 3, 4]"] by simp

end
