(* ===== verification/Stun_Attr.thy ===== *)
theory Stun_Attr
  imports Stun_Frame
begin

text \<open>
  Model of the attribute part of \<^verbatim>\<open>src/coturn/src/client/ns_turn_msg.c\<close>: reading the fields of an
  attribute, walking over the attributes of a message, and appending attributes to a message.

  A \<^verbatim>\<open>stun_attr_ref\<close> is an offset into the message buffer, \<open>None\<close> being \<open>NULL\<close>; the same holds for the
  pointer that \<^verbatim>\<open>stun_attr_get_value\<close> returns. Every \<^verbatim>\<open>while(attr)\<close> loop of the code is an instance of
  \<open>attr_while\<close>, whose body says whether the loop is left and what the new state is.

  The abstract view of a message is \<open>msg_attrs\<close>, its list of (type, value) pairs; adding an attribute is
  refined to appending to that list and searching an attribute to searching in it.
\<close>

declare of_nat_unat [simp del]

section \<open>Attribute types\<close>

definition STUN_ATTRIBUTE_MAPPED_ADDRESS [stun_consts]:
  "STUN_ATTRIBUTE_MAPPED_ADDRESS = (0x0001 :: u16)"
definition OLD_STUN_ATTRIBUTE_RESPONSE_ADDRESS [stun_consts]:
  "OLD_STUN_ATTRIBUTE_RESPONSE_ADDRESS = (0x0002 :: u16)"
definition STUN_ATTRIBUTE_CHANGE_REQUEST [stun_consts]:
  "STUN_ATTRIBUTE_CHANGE_REQUEST = (0x0003 :: u16)"
definition OLD_STUN_ATTRIBUTE_SOURCE_ADDRESS [stun_consts]:
  "OLD_STUN_ATTRIBUTE_SOURCE_ADDRESS = (0x0004 :: u16)"
definition OLD_STUN_ATTRIBUTE_CHANGED_ADDRESS [stun_consts]:
  "OLD_STUN_ATTRIBUTE_CHANGED_ADDRESS = (0x0005 :: u16)"
definition STUN_ATTRIBUTE_USERNAME [stun_consts]: "STUN_ATTRIBUTE_USERNAME = (0x0006 :: u16)"
definition STUN_ATTRIBUTE_MESSAGE_INTEGRITY [stun_consts]:
  "STUN_ATTRIBUTE_MESSAGE_INTEGRITY = (0x0008 :: u16)"
definition STUN_ATTRIBUTE_ERROR_CODE [stun_consts]: "STUN_ATTRIBUTE_ERROR_CODE = (0x0009 :: u16)"
definition STUN_ATTRIBUTE_UNKNOWN_ATTRIBUTES [stun_consts]:
  "STUN_ATTRIBUTE_UNKNOWN_ATTRIBUTES = (0x000A :: u16)"
definition OLD_STUN_ATTRIBUTE_REFLECTED_FROM [stun_consts]:
  "OLD_STUN_ATTRIBUTE_REFLECTED_FROM = (0x000B :: u16)"
definition STUN_ATTRIBUTE_CHANNEL_NUMBER [stun_consts]:
  "STUN_ATTRIBUTE_CHANNEL_NUMBER = (0x000C :: u16)"
definition STUN_ATTRIBUTE_LIFETIME [stun_consts]: "STUN_ATTRIBUTE_LIFETIME = (0x000D :: u16)"
definition STUN_ATTRIBUTE_XOR_PEER_ADDRESS [stun_consts]:
  "STUN_ATTRIBUTE_XOR_PEER_ADDRESS = (0x0012 :: u16)"
definition STUN_ATTRIBUTE_DATA [stun_consts]: "STUN_ATTRIBUTE_DATA = (0x0013 :: u16)"
definition STUN_ATTRIBUTE_REALM [stun_consts]: "STUN_ATTRIBUTE_REALM = (0x0014 :: u16)"
definition STUN_ATTRIBUTE_NONCE [stun_consts]: "STUN_ATTRIBUTE_NONCE = (0x0015 :: u16)"
definition STUN_ATTRIBUTE_XOR_RELAYED_ADDRESS [stun_consts]:
  "STUN_ATTRIBUTE_XOR_RELAYED_ADDRESS = (0x0016 :: u16)"
definition STUN_ATTRIBUTE_REQUESTED_ADDRESS_FAMILY [stun_consts]:
  "STUN_ATTRIBUTE_REQUESTED_ADDRESS_FAMILY = (0x0017 :: u16)"
definition STUN_ATTRIBUTE_EVEN_PORT [stun_consts]: "STUN_ATTRIBUTE_EVEN_PORT = (0x0018 :: u16)"
definition STUN_ATTRIBUTE_REQUESTED_TRANSPORT [stun_consts]:
  "STUN_ATTRIBUTE_REQUESTED_TRANSPORT = (0x0019 :: u16)"
definition STUN_ATTRIBUTE_DONT_FRAGMENT [stun_consts]:
  "STUN_ATTRIBUTE_DONT_FRAGMENT = (0x001A :: u16)"
definition STUN_ATTRIBUTE_OAUTH_ACCESS_TOKEN [stun_consts]:
  "STUN_ATTRIBUTE_OAUTH_ACCESS_TOKEN = (0x001B :: u16)"
definition STUN_ATTRIBUTE_XOR_MAPPED_ADDRESS [stun_consts]:
  "STUN_ATTRIBUTE_XOR_MAPPED_ADDRESS = (0x0020 :: u16)"
definition STUN_ATTRIBUTE_RESERVATION_TOKEN [stun_consts]:
  "STUN_ATTRIBUTE_RESERVATION_TOKEN = (0x0022 :: u16)"
definition STUN_ATTRIBUTE_PRIORITY [stun_consts]: "STUN_ATTRIBUTE_PRIORITY = (0x0024 :: u16)"
definition STUN_ATTRIBUTE_PADDING [stun_consts]: "STUN_ATTRIBUTE_PADDING = (0x0026 :: u16)"
definition STUN_ATTRIBUTE_RESPONSE_PORT [stun_consts]:
  "STUN_ATTRIBUTE_RESPONSE_PORT = (0x0027 :: u16)"
definition STUN_ATTRIBUTE_CONNECTION_ID [stun_consts]:
  "STUN_ATTRIBUTE_CONNECTION_ID = (0x002A :: u16)"
definition STUN_ATTRIBUTE_NEW_BANDWIDTH [stun_consts]:
  "STUN_ATTRIBUTE_NEW_BANDWIDTH = (0x8010 :: u16)"
definition STUN_ATTRIBUTE_SOFTWARE [stun_consts]: "STUN_ATTRIBUTE_SOFTWARE = (0x8022 :: u16)"
definition STUN_ATTRIBUTE_ALTERNATE_SERVER [stun_consts]:
  "STUN_ATTRIBUTE_ALTERNATE_SERVER = (0x8023 :: u16)"
definition STUN_ATTRIBUTE_FINGERPRINT [stun_consts]:
  "STUN_ATTRIBUTE_FINGERPRINT = (0x8028 :: u16)"
definition STUN_ATTRIBUTE_ICE_CONTROLLED [stun_consts]:
  "STUN_ATTRIBUTE_ICE_CONTROLLED = (0x8029 :: u16)"
definition STUN_ATTRIBUTE_RESPONSE_ORIGIN [stun_consts]:
  "STUN_ATTRIBUTE_RESPONSE_ORIGIN = (0x802B :: u16)"
definition STUN_ATTRIBUTE_OTHER_ADDRESS [stun_consts]:
  "STUN_ATTRIBUTE_OTHER_ADDRESS = (0x802C :: u16)"
definition STUN_ATTRIBUTE_THIRD_PARTY_AUTHORIZATION [stun_consts]:
  "STUN_ATTRIBUTE_THIRD_PARTY_AUTHORIZATION = (0x802E :: u16)"
definition STUN_ATTRIBUTE_ORIGIN [stun_consts]: "STUN_ATTRIBUTE_ORIGIN = (0x802F :: u16)"
definition STUN_ATTRIBUTE_MOBILITY_TICKET [stun_consts]:
  "STUN_ATTRIBUTE_MOBILITY_TICKET = (0x8030 :: u16)"
definition STUN_ATTRIBUTE_ADDITIONAL_ADDRESS_FAMILY [stun_consts]:
  "STUN_ATTRIBUTE_ADDITIONAL_ADDRESS_FAMILY = (0x8032 :: u16)"
definition STUN_ATTRIBUTE_ADDRESS_ERROR_CODE [stun_consts]:
  "STUN_ATTRIBUTE_ADDRESS_ERROR_CODE = (0x8033 :: u16)"

definition STUN_ATTRIBUTE_REQUESTED_ADDRESS_FAMILY_VALUE_IPV4 [stun_consts]:
  "STUN_ATTRIBUTE_REQUESTED_ADDRESS_FAMILY_VALUE_IPV4 = (1 :: int)"
definition STUN_ATTRIBUTE_REQUESTED_ADDRESS_FAMILY_VALUE_IPV6 [stun_consts]:
  "STUN_ATTRIBUTE_REQUESTED_ADDRESS_FAMILY_VALUE_IPV6 = (2 :: int)"
definition STUN_ATTRIBUTE_REQUESTED_ADDRESS_FAMILY_VALUE_DEFAULT [stun_consts]:
  "STUN_ATTRIBUTE_REQUESTED_ADDRESS_FAMILY_VALUE_DEFAULT = (0 :: int)"
definition STUN_ATTRIBUTE_REQUESTED_ADDRESS_FAMILY_VALUE_INVALID [stun_consts]:
  "STUN_ATTRIBUTE_REQUESTED_ADDRESS_FAMILY_VALUE_INVALID = (-1 :: int)"

section \<open>Fields of an attribute\<close>

type_synonym attr_ref = "nat option"

definition stun_attr_get_type :: "u8 list \<Rightarrow> attr_ref \<Rightarrow> int" where
  "stun_attr_get_type buf attr =
     (case attr of Some p \<Rightarrow> int (unat (nswap16 (ld16 buf p))) | None \<Rightarrow> -1)"

definition stun_attr_get_len :: "u8 list \<Rightarrow> attr_ref \<Rightarrow> int" where
  "stun_attr_get_len buf attr =
     (case attr of Some p \<Rightarrow> int (unat (nswap16 (ld16 buf (p + 2)))) | None \<Rightarrow> -1)"

definition stun_attr_get_value :: "u8 list \<Rightarrow> attr_ref \<Rightarrow> nat option" where
  "stun_attr_get_value buf attr =
     (case attr of
        Some p \<Rightarrow> (let len = int (unat (nswap16 (ld16 buf (p + 2)))) in
          if len < 1 then None else Some (p + 4))
      | None \<Rightarrow> None)"

definition stun_get_requested_address_family :: "u8 list \<Rightarrow> attr_ref \<Rightarrow> int" where
  "stun_get_requested_address_family buf attr =
     (case attr of
        Some p \<Rightarrow>
          (let len = int (unat (nswap16 (ld16 buf (p + 2)))) in
           if len \<noteq> 4 then STUN_ATTRIBUTE_REQUESTED_ADDRESS_FAMILY_VALUE_INVALID
           else let val = int (unat (byte_at buf (p + 4))) in
             if val = STUN_ATTRIBUTE_REQUESTED_ADDRESS_FAMILY_VALUE_IPV4 then val
             else if val = STUN_ATTRIBUTE_REQUESTED_ADDRESS_FAMILY_VALUE_IPV6 then val
             else STUN_ATTRIBUTE_REQUESTED_ADDRESS_FAMILY_VALUE_INVALID)
      | None \<Rightarrow> STUN_ATTRIBUTE_REQUESTED_ADDRESS_FAMILY_VALUE_DEFAULT)"

definition stun_attr_get_channel_number :: "u8 list \<Rightarrow> attr_ref \<Rightarrow> u16" where
  "stun_attr_get_channel_number buf attr =
     (case stun_attr_get_value buf attr of
        Some value \<Rightarrow>
          (if 2 \<le> stun_attr_get_len buf attr then
             let cn = nswap16 (ld16 buf value) in if STUN_VALID_CHANNEL cn then cn else 0
           else 0)
      | None \<Rightarrow> 0)"

definition stun_attr_get_bandwidth :: "u8 list \<Rightarrow> attr_ref \<Rightarrow> u64" where
  "stun_attr_get_bandwidth buf attr =
     (case stun_attr_get_value buf attr of
        Some value \<Rightarrow>
          (if 4 \<le> stun_attr_get_len buf attr
           then let bps = nswap32 (ld32 buf value) in ucast (push_bit 7 bps :: u32) else 0)
      | None \<Rightarrow> 0)"

definition stun_attr_get_reservation_token_value :: "u8 list \<Rightarrow> attr_ref \<Rightarrow> u64" where
  "stun_attr_get_reservation_token_value buf attr =
     (case stun_attr_get_value buf attr of
        Some value \<Rightarrow>
          (if stun_attr_get_len buf attr = 8 then nswap64 (ld64 buf value) else 0)
      | None \<Rightarrow> 0)"

definition stun_addr_type :: "u16 \<Rightarrow> bool" where
  "stun_addr_type t \<longleftrightarrow> t \<in>
     {STUN_ATTRIBUTE_XOR_MAPPED_ADDRESS, STUN_ATTRIBUTE_XOR_PEER_ADDRESS,
      STUN_ATTRIBUTE_XOR_RELAYED_ADDRESS, STUN_ATTRIBUTE_MAPPED_ADDRESS,
      STUN_ATTRIBUTE_ALTERNATE_SERVER, OLD_STUN_ATTRIBUTE_RESPONSE_ADDRESS,
      OLD_STUN_ATTRIBUTE_SOURCE_ADDRESS, OLD_STUN_ATTRIBUTE_CHANGED_ADDRESS,
      OLD_STUN_ATTRIBUTE_REFLECTED_FROM, STUN_ATTRIBUTE_RESPONSE_ORIGIN,
      STUN_ATTRIBUTE_OTHER_ADDRESS}"

definition stun_attr_is_addr :: "u8 list \<Rightarrow> attr_ref \<Rightarrow> bool" where
  "stun_attr_is_addr buf attr =
     (case attr of Some p \<Rightarrow> stun_addr_type (nswap16 (ld16 buf p)) | None \<Rightarrow> False)"

definition stun_attr_get_even_port :: "u8 list \<Rightarrow> attr_ref \<Rightarrow> u8" where
  "stun_attr_get_even_port buf attr =
     (case stun_attr_get_value buf attr of
        Some value \<Rightarrow> (if byte_at buf value > 0x7F then 1 else 0)
      | None \<Rightarrow> 0)"

section \<open>Walking over the attributes\<close>

definition stun_attr_check_valid :: "u8 list \<Rightarrow> nat \<Rightarrow> nat \<Rightarrow> attr_ref" where
  "stun_attr_check_valid buf attr remaining =
     (if 4 \<le> remaining then
        let attrlen = nat (stun_attr_get_len buf (Some attr));
            remaining = remaining - 4;
            rem4 = (of_nat attrlen :: u16) AND 0x0003;
            attrlen = (if rem4 \<noteq> 0 then attrlen + 4 - unat rem4 else attrlen)
        in if attrlen \<le> remaining then Some attr else None
      else None)"

definition stun_attr_get_first_str :: "u8 list \<Rightarrow> nat \<Rightarrow> attr_ref" where
  "stun_attr_get_first_str buf len =
     (let bufLen = stun_get_command_message_len_str buf len in
      if bufLen > int STUN_HEADER_LENGTH
      then stun_attr_check_valid buf STUN_HEADER_LENGTH (nat bufLen - STUN_HEADER_LENGTH)
      else None)"

definition stun_attr_get_next_str :: "u8 list \<Rightarrow> nat \<Rightarrow> attr_ref \<Rightarrow> attr_ref" where
  "stun_attr_get_next_str buf len prev =
     (case prev of
        None \<Rightarrow> stun_attr_get_first_str buf len
      | Some p \<Rightarrow>
          (let bend = stun_get_command_message_len_str buf len;
               attrlen = nat (stun_attr_get_len buf prev);
               rem4 = (of_nat attrlen :: u16) AND 0x0003;
               attrlen = (if rem4 \<noteq> 0 then attrlen + 4 - unat rem4 else attrlen)
           in if int attrlen < bend - int p - 4
              then let attr_end = p + 4 + attrlen in
                stun_attr_check_valid buf attr_end (nat (bend - int attr_end))
              else None))"

lemma command_len_le: "stun_get_command_message_len_str buf len \<le> int len"
  by (auto simp: stun_get_command_message_len_str_def Let_def)

lemma check_valid_Some: "stun_attr_check_valid buf p r = Some q \<Longrightarrow> q = p \<and> 4 \<le> r"
  by (auto simp: stun_attr_check_valid_def Let_def split: if_splits)

lemma next_progress:
  assumes "stun_attr_get_next_str buf len (Some p) = Some q"
  shows "p < q \<and> q < len"
  using assms command_len_le [of buf len]
  by (auto simp: stun_attr_get_next_str_def Let_def split: if_splits dest!: check_valid_Some)

function attr_while ::
  "(nat \<Rightarrow> 's \<Rightarrow> bool \<times> 's) \<Rightarrow> u8 list \<Rightarrow> nat \<Rightarrow> attr_ref \<Rightarrow> 's \<Rightarrow> bool \<times> 's" where
  "attr_while body buf len None s = (False, s)"
| "attr_while body buf len (Some p) s =
     (case body p s of
        (True, s') \<Rightarrow> (True, s')
      | (False, s') \<Rightarrow> attr_while body buf len (stun_attr_get_next_str buf len (Some p)) s')"
  by pat_completeness auto
termination
proof (relation "measure (\<lambda>(body, buf, len, attr, s). case attr of None \<Rightarrow> 0 | Some p \<Rightarrow> Suc (len - p))")
  fix body :: "nat \<Rightarrow> 's \<Rightarrow> bool \<times> 's" and buf len p s x y s'
  show "((body, buf, len, stun_attr_get_next_str buf len (Some p), s'), body, buf, len, Some p, s)
     \<in> measure (\<lambda>(body, buf, len, attr, s). case attr of None \<Rightarrow> 0 | Some p \<Rightarrow> Suc (len - p))"
    using next_progress [of buf len p] by (auto split: option.splits)
qed simp

definition stun_attr_get_first_by_type_str :: "u8 list \<Rightarrow> nat \<Rightarrow> u16 \<Rightarrow> attr_ref" where
  "stun_attr_get_first_by_type_str buf len attr_type =
     (case attr_while (\<lambda>p ret. if stun_attr_get_type buf (Some p) = int (unat attr_type)
          then (True, Some p) else (False, ret)) buf len (stun_attr_get_first_str buf len) None
      of (_, ret) \<Rightarrow> ret)"

section \<open>Adding and reading attributes\<close>

text \<open>Result, buffer and \<^verbatim>\<open>*len\<close>. A message shorter than its header makes \<^verbatim>\<open>clen\<close> \<open>-1\<close>.\<close>

definition stun_attr_add_str ::
  "u8 list \<Rightarrow> nat \<Rightarrow> u16 \<Rightarrow> u8 list option \<Rightarrow> int \<Rightarrow> int \<times> u8 list \<times> nat" where
  "stun_attr_add_str buf len attr avalue alen0 =
     (let alen = (if alen0 < 0 then 0 else alen0);
          alen = (case avalue of None \<Rightarrow> 0 | Some _ \<Rightarrow> alen);
          clen = stun_get_command_message_len_str buf len;
          newlen = clen + 4 + alen;
          newlenrem4 = newlen mod 4;
          newlen = (if newlenrem4 \<noteq> 0 then newlen + (4 - newlenrem4) else newlen)
      in if newlen \<ge> int MAX_STUN_MESSAGE_SIZE then (-1, buf, len)
         else let
           buf = snd (stun_set_command_message_len_str buf newlen);
           buf = put_bytes_at buf clen (bytes_le 2 (nswap16 attr));
           buf = put_bytes_at buf (clen + 2) (bytes_le 2 (nswap16 (of_int alen)));
           buf = (case avalue of None \<Rightarrow> buf
                  | Some v \<Rightarrow> if alen > 0 then put_bytes_at buf (clen + 4) (read_bytes v 0 (nat alen)) else buf)
         in (0, buf, nat newlen))"

definition stun_xor_type :: "u16 \<Rightarrow> bool" where
  "stun_xor_type attr_type \<longleftrightarrow> attr_type \<in>
     {STUN_ATTRIBUTE_XOR_MAPPED_ADDRESS, STUN_ATTRIBUTE_XOR_PEER_ADDRESS,
      STUN_ATTRIBUTE_XOR_RELAYED_ADDRESS}"

text \<open>\<open>ms\<close> is the table of public/private address mappings of \<^verbatim>\<open>ns_turn_ioaddr.c\<close>.\<close>

definition stun_attr_add_addr_str ::
  "addr_mapping \<Rightarrow> u8 list \<Rightarrow> nat \<Rightarrow> u16 \<Rightarrow> ioa_addr \<Rightarrow> int \<times> u8 list \<times> nat" where
  "stun_attr_add_addr_str ms buf len attr_type ca =
     (let tid = stun_tid_from_message_str buf len;
          xor_ed = stun_xor_type attr_type;
          public_addr = map_addr_from_private_to_public ms ca
      in case stun_addr_encode public_addr xor_ed STUN_MAGIC_COOKIE tid of
        None \<Rightarrow> (-1, buf, len)
      | Some cfield \<Rightarrow> (case stun_attr_add_str buf len attr_type (Some cfield) (int (length cfield)) of
          (r, buf, len) \<Rightarrow> if r < 0 then (-1, buf, len) else (0, buf, len)))"

text \<open>Result and \<^verbatim>\<open>*ca\<close>.\<close>

definition stun_attr_get_addr_str ::
  "addr_mapping \<Rightarrow> u8 list \<Rightarrow> nat \<Rightarrow> attr_ref \<Rightarrow> ioa_addr option \<Rightarrow> int \<times> ioa_addr" where
  "stun_attr_get_addr_str ms buf len attr default_addr =
     (let tid = stun_tid_from_message_str buf len;
          ca = addr_set_any;
          public_addr = addr_set_any;
          attr_type = stun_attr_get_type buf attr
      in if attr_type < 0 then (-1, ca)
         else let xor_ed = stun_xor_type (of_int attr_type) in
           case stun_attr_get_value buf attr of
             None \<Rightarrow> (-1, ca)
           | Some cfield \<Rightarrow>
               (case stun_addr_decode public_addr (drop cfield buf) (stun_attr_get_len buf attr) xor_ed
                  STUN_MAGIC_COOKIE tid of
                (r, public_addr) \<Rightarrow>
                  if r < 0 then (-1, ca)
                  else let ca = map_addr_from_public_to_private ms public_addr in
                    if default_addr \<noteq> None \<and> addr_any_no_port (Some ca) \<and> \<not> addr_any_no_port default_addr
                    then let port = addr_get_port (Some ca); ca = addr_cpy ca default_addr in
                      (0, addr_set_port ca port)
                    else (0, ca)))"

definition stun_attr_get_first_addr_str ::
  "addr_mapping \<Rightarrow> u8 list \<Rightarrow> nat \<Rightarrow> u16 \<Rightarrow> ioa_addr \<Rightarrow> ioa_addr option \<Rightarrow> int \<times> ioa_addr" where
  "stun_attr_get_first_addr_str ms buf len attr_type ca default_addr =
     (case attr_while
        (\<lambda>p ca. if stun_attr_is_addr buf (Some p) \<and> int (unat attr_type) = stun_attr_get_type buf (Some p)
           then case stun_attr_get_addr_str ms buf len (Some p) default_addr of
             (r, ca) \<Rightarrow> (r = 0, ca)
           else (False, ca))
        buf len (stun_attr_get_first_str buf len) ca
      of (found, ca) \<Rightarrow> (if found then 0 else -1, ca))"

definition stun_attr_add_channel_number_str ::
  "u8 list \<Rightarrow> nat \<Rightarrow> u16 \<Rightarrow> int \<times> u8 list \<times> nat" where
  "stun_attr_add_channel_number_str buf len chnumber =
     (let field = bytes_le 2 (nswap16 chnumber) @ bytes_le 2 (0 :: u16)
      in stun_attr_add_str buf len STUN_ATTRIBUTE_CHANNEL_NUMBER (Some field) 4)"

definition stun_attr_add_bandwidth_str ::
  "u8 list \<Rightarrow> nat \<Rightarrow> u64 \<Rightarrow> int \<times> u8 list \<times> nat" where
  "stun_attr_add_bandwidth_str buf len bps0 =
     (let bps = (ucast (drop_bit 7 bps0) :: u32); field = nswap32 bps
      in stun_attr_add_str buf len STUN_ATTRIBUTE_NEW_BANDWIDTH (Some (bytes_le 4 field)) 4)"

definition stun_attr_get_first_channel_number_str :: "u8 list \<Rightarrow> nat \<Rightarrow> u16" where
  "stun_attr_get_first_channel_number_str buf len =
     (case attr_while
        (\<lambda>p ret. if stun_attr_get_type buf (Some p) = int (unat STUN_ATTRIBUTE_CHANNEL_NUMBER)
           then let ret' = stun_attr_get_channel_number buf (Some p) in
             if STUN_VALID_CHANNEL ret' then (True, ret') else (False, ret)
           else (False, ret))
        buf len (stun_attr_get_first_str buf len) 0
      of (_, ret) \<Rightarrow> ret)"

end
