(* ===== verification/Stun_View.thy ===== *)
theory Stun_View
  imports Stun_Attr
begin

text \<open>
  The abstract view of a STUN message: the list of its attributes as (type, value) pairs. The walk of
  \<^verbatim>\<open>stun_attr_get_first_str\<close>/\<^verbatim>\<open>stun_attr_get_next_str\<close> visits exactly the offsets of that view,
  never leaves the message, and \<^verbatim>\<open>stun_attr_add_str\<close> appends one pair to it. All message-building and
  message-reading properties are stated over this view.
\<close>

section \<open>Offsets of the attributes\<close>

definition attr_alen :: "u8 list \<Rightarrow> nat \<Rightarrow> nat" where
  "attr_alen buf p = unat (nswap16 (ld16 buf (p + 2)))"

definition attr_end :: "u8 list \<Rightarrow> nat \<Rightarrow> nat" where
  "attr_end buf p = p + 4 + round4 (attr_alen buf p)"

definition attr_at :: "u8 list \<Rightarrow> nat \<Rightarrow> u16 \<times> u8 list" where
  "attr_at buf p = (nswap16 (ld16 buf p), read_bytes buf (p + 4) (attr_alen buf p))"

function attr_offs :: "u8 list \<Rightarrow> nat \<Rightarrow> nat \<Rightarrow> nat list" where
  "attr_offs buf p e = (if attr_end buf p \<le> e then p # attr_offs buf (attr_end buf p) e else [])"
  by pat_completeness auto
termination by (relation "measure (\<lambda>(buf, p, e). e - p)") (auto simp: attr_end_def)

function attr_stop :: "u8 list \<Rightarrow> nat \<Rightarrow> nat \<Rightarrow> nat" where
  "attr_stop buf p e = (if attr_end buf p \<le> e then attr_stop buf (attr_end buf p) e else p)"
  by pat_completeness auto
termination by (relation "measure (\<lambda>(buf, p, e). e - p)") (auto simp: attr_end_def)

declare attr_offs.simps [simp del] attr_stop.simps [simp del]

definition msg_offs :: "u8 list \<Rightarrow> nat \<Rightarrow> nat list" where
  "msg_offs buf len = attr_offs buf 20 (nat (stun_get_command_message_len_str buf len))"

definition msg_attrs :: "u8 list \<Rightarrow> nat \<Rightarrow> (u16 \<times> u8 list) list" where
  "msg_attrs buf len = map (attr_at buf) (msg_offs buf len)"

definition wf_msg :: "u8 list \<Rightarrow> nat \<Rightarrow> bool" where
  "wf_msg buf len \<longleftrightarrow> len \<le> length buf \<and> stun_get_command_message_len_str buf len = int len \<and>
     attr_stop buf 20 len = len"

lemma p_less_attr_end: "p < attr_end buf p"
  by (simp add: attr_end_def)

lemma attr_offs_bounds: "p \<in> set (attr_offs buf o' e) \<Longrightarrow> o' \<le> p \<and> attr_end buf p \<le> e"
proof (induction buf o' e rule: attr_offs.induct)
  case (1 buf o' e)
  show ?case
  proof (cases "attr_end buf o' \<le> e")
    case True
    with 1 p_less_attr_end [of o' buf] show ?thesis
      by (auto simp: attr_offs.simps [of buf o' e])
  next
    case False
    with 1(2) show ?thesis by (simp add: attr_offs.simps)
  qed
qed

lemma attr_stop_bounds: "p \<le> attr_stop buf p e" "p \<le> e \<Longrightarrow> attr_stop buf p e \<le> e"
proof (induction buf p e rule: attr_stop.induct)
  case (1 buf p e)
  { case 1 with "1.IH" p_less_attr_end [of p buf] show ?case
      by (subst attr_stop.simps) (auto intro: order.trans less_imp_le) }
  { case 2 with "1.IH" show ?case by (subst attr_stop.simps) auto }
qed

lemma attr_stop_dvd: "4 dvd p \<Longrightarrow> 4 dvd attr_stop buf p e"
proof (induction buf p e rule: attr_stop.induct)
  case (1 buf p e)
  have "4 dvd attr_end buf p" using 1(2) round4_bounds(3) by (simp add: attr_end_def)
  with 1 show ?case by (subst attr_stop.simps) simp
qed

lemma wf_msg_dvd: "wf_msg buf len \<Longrightarrow> 4 dvd len"
  using attr_stop_dvd [of 20 buf len] by (simp add: wf_msg_def)

lemma wf_msg_ge: "wf_msg buf len \<Longrightarrow> 20 \<le> len"
  using attr_stop_bounds(1) [of 20 buf len] by (simp add: wf_msg_def)

lemma msg_attrs_wf: "wf_msg buf len \<Longrightarrow> msg_attrs buf len = map (attr_at buf) (attr_offs buf 20 len)"
  by (simp add: msg_attrs_def msg_offs_def wf_msg_def)

section \<open>Locality\<close>

definition agree :: "nat \<Rightarrow> nat \<Rightarrow> u8 list \<Rightarrow> u8 list \<Rightarrow> bool" where
  "agree a b m n \<longleftrightarrow> (\<forall>i. a \<le> i \<and> i < b \<longrightarrow> byte_at m i = byte_at n i)"

lemma agree_refl [simp]: "agree a b m m"
  by (simp add: agree_def)

lemma agree_sym: "agree a b m n \<Longrightarrow> agree a b n m"
  by (simp add: agree_def)

lemma agree_trans: "agree a b m n \<Longrightarrow> agree a b n k \<Longrightarrow> agree a b m k"
  by (simp add: agree_def)

lemma agree_sub: "agree a b m n \<Longrightarrow> a \<le> c \<Longrightarrow> d \<le> b \<Longrightarrow> agree c d m n"
  by (simp add: agree_def)

lemma agree_put [simp]: "b \<le> off \<or> off + length bs \<le> a \<Longrightarrow> agree a b (put_bytes m off bs) m"
  by (auto simp: agree_def mem_simps)

lemma agree_read: "agree a b m n \<Longrightarrow> a \<le> i \<Longrightarrow> i + k \<le> b \<Longrightarrow> read_bytes m i k = read_bytes n i k"
  by (auto simp: agree_def read_bytes_def)

lemma agree_ld16: "agree a b m n \<Longrightarrow> a \<le> i \<Longrightarrow> i + 2 \<le> b \<Longrightarrow> ld16 m i = ld16 n i"
  by (simp add: ld16_def agree_read)

lemma agree_attr:
  assumes "agree a b m n" and "a \<le> p" and "attr_end m p \<le> b"
  shows "attr_end n p = attr_end m p" "attr_at n p = attr_at m p"
proof -
  have b: "p + 4 + attr_alen m p \<le> b" using assms(3) round4_bounds(1) [of "attr_alen m p"]
    by (simp add: attr_end_def)
  have "ld16 n (p + 2) = ld16 m (p + 2)" "ld16 n p = ld16 m p"
    using assms b agree_ld16 [OF assms(1)] by simp_all
  then show "attr_end n p = attr_end m p" "attr_at n p = attr_at m p"
    using b agree_read [OF assms(1), of "p + 4" "attr_alen m p"] assms(2)
    by (simp_all add: attr_end_def attr_at_def attr_alen_def)
qed

lemma attr_walk_agree:
  assumes "agree a e m n" and "a \<le> p" and "attr_stop m p e = e"
  shows "attr_stop n p e = e \<and> attr_offs n p e = attr_offs m p e \<and>
    map (attr_at n) (attr_offs n p e) = map (attr_at m) (attr_offs m p e)"
  using assms
proof (induction m p e rule: attr_stop.induct)
  case (1 m p e)
  show ?case
  proof (cases "attr_end m p \<le> e")
    case True
    note A = agree_attr [OF 1(2,3) True]
    have "a \<le> attr_end m p" using 1(3) p_less_attr_end [of p m] by simp
    moreover have "attr_stop m (attr_end m p) e = e" using 1(4) True by (subst (asm) attr_stop.simps) simp
    ultimately show ?thesis using 1(1) [OF True 1(2)] True A
      by (auto simp: attr_stop.simps [of n p] attr_offs.simps [of n p] attr_offs.simps [of m p])
  next
    case False
    then have p: "p = e" using 1(4) by (subst (asm) attr_stop.simps) simp
    have "\<not> attr_end n e \<le> e" "\<not> attr_end m e \<le> e" by (simp_all add: attr_end_def)
    then show ?thesis unfolding p by (simp add: attr_stop.simps [of n e] attr_offs.simps [of _ e])
  qed
qed

lemma attr_walk_append:
  assumes "attr_stop m p e = e" and "e \<le> e'"
  shows "attr_stop m p e' = attr_stop m e e' \<and> attr_offs m p e' = attr_offs m p e @ attr_offs m e e'"
  using assms
proof (induction m p e rule: attr_stop.induct)
  case (1 m p e)
  show ?case
  proof (cases "attr_end m p \<le> e")
    case True
    moreover have "attr_stop m (attr_end m p) e = e" using 1(2) True by (subst (asm) attr_stop.simps) simp
    ultimately show ?thesis using 1(1) [OF True] 1(3)
      by (simp add: attr_stop.simps [of m p e'] attr_offs.simps [of m p])
  next
    case False
    then have p: "p = e" using 1(2) by (subst (asm) attr_stop.simps) simp
    have "\<not> attr_end m e \<le> e" by (simp add: attr_end_def)
    then show ?thesis unfolding p by (simp add: attr_offs.simps [of m e e])
  qed
qed

section \<open>The walk visits the view\<close>

fun list_while :: "(nat \<Rightarrow> 's \<Rightarrow> bool \<times> 's) \<Rightarrow> nat list \<Rightarrow> 's \<Rightarrow> bool \<times> 's" where
  "list_while body [] s = (False, s)"
| "list_while body (p # ps) s =
     (case body p s of (True, s') \<Rightarrow> (True, s') | (False, s') \<Rightarrow> list_while body ps s')"

lemma round4_code:
  "(if (of_nat n :: u16) AND 3 \<noteq> 0 then n + 4 - unat ((of_nat n :: u16) AND 3) else n) = round4 n"
  if "n < 65536"
proof -
  have "unat ((of_nat n :: u16) AND 3) = n mod 4"
    using that unfolding and3_mod4 unat_mod_distrib by simp
  moreover have "n + 4 - n mod 4 = (n div 4 + 1) * 4"
    using div_mult_mod_eq [of n 4] by presburger
  moreover have "(of_nat n :: u16) AND 3 = 0 \<longleftrightarrow> n mod 4 = 0"
    using that by (simp add: dvd_eq_mod_eq_0)
  ultimately show ?thesis by (simp add: round4_def)
qed

lemma attr_alen_less: "attr_alen buf p < 65536"
  by (simp add: attr_alen_def unat_16_less)

lemma get_len_alen: "stun_attr_get_len buf (Some p) = int (attr_alen buf p)"
  by (simp add: stun_attr_get_len_def attr_alen_def)

lemma check_valid_eq:
  "stun_attr_check_valid buf p r = (if attr_end buf p \<le> p + r then Some p else None)"
  using round4_code [OF attr_alen_less [of buf p]]
  by (auto simp: stun_attr_check_valid_def Let_def get_len_alen attr_end_def)

lemma next_eq:
  "stun_attr_get_next_str buf len (Some p) =
     stun_attr_check_valid buf (attr_end buf p)
       (nat (stun_get_command_message_len_str buf len) - attr_end buf p)"
  using round4_code [OF attr_alen_less [of buf p]]
  by (auto simp: stun_attr_get_next_str_def Let_def get_len_alen check_valid_eq attr_end_def)

lemma first_eq:
  "stun_attr_get_first_str buf len =
     stun_attr_check_valid buf 20 (nat (stun_get_command_message_len_str buf len) - 20)"
  by (auto simp: stun_attr_get_first_str_def Let_def check_valid_eq STUN_HEADER_LENGTH attr_end_def)

lemma attr_while_offs:
  "attr_while body buf len (stun_attr_check_valid buf p (nat (stun_get_command_message_len_str buf len) - p)) s =
     list_while body (attr_offs buf p (nat (stun_get_command_message_len_str buf len))) s"
proof (induction buf p "nat (stun_get_command_message_len_str buf len)" arbitrary: s rule: attr_offs.induct)
  case (1 buf p)
  let ?e = "nat (stun_get_command_message_len_str buf len)"
  show ?case
  proof (cases "attr_end buf p \<le> ?e")
    case True
    then have "stun_attr_check_valid buf p (?e - p) = Some p" by (simp add: check_valid_eq)
    with 1 True show ?thesis
      by (simp add: attr_offs.simps [of buf p] next_eq split: prod.splits bool.splits)
  next
    case False
    then have "stun_attr_check_valid buf p (?e - p) = None"
      using p_less_attr_end [of p buf] by (auto simp: check_valid_eq)
    then show ?thesis using False by (simp add: attr_offs.simps [of buf p])
  qed
qed

lemma attr_while_msg:
  "attr_while body buf len (stun_attr_get_first_str buf len) s = list_while body (msg_offs buf len) s"
  by (simp add: first_eq attr_while_offs msg_offs_def)

lemma msg_offs_bounds: "p \<in> set (msg_offs buf len) \<Longrightarrow> 20 \<le> p \<and> p + 4 + attr_alen buf p \<le> len"
  using attr_offs_bounds [of p buf 20 "nat (stun_get_command_message_len_str buf len)"]
    command_len_le [of buf len] round4_bounds(1) [of "attr_alen buf p"]
  by (auto simp: msg_offs_def attr_end_def)

lemma list_while_find:
  "list_while (\<lambda>p ret. if P p then (True, Some p) else (False, ret)) ps None =
     (find P ps \<noteq> None, find P ps)"
  by (induction ps) auto

lemma first_by_type_find:
  "stun_attr_get_first_by_type_str buf len t = find (\<lambda>p. nswap16 (ld16 buf p) = t) (msg_offs buf len)"
  unfolding stun_attr_get_first_by_type_str_def attr_while_msg list_while_find
  by (simp add: stun_attr_get_type_def word_unat_eq_iff)

lemma find_map: "find P (map f xs) = map_option f (find (\<lambda>x. P (f x)) xs)"
  by (induction xs) auto

lemma find_append: "find P (xs @ ys) = (case find P xs of None \<Rightarrow> find P ys | Some x \<Rightarrow> Some x)"
  by (induction xs) auto

lemma first_by_type_attrs:
  "map_option (attr_at buf) (stun_attr_get_first_by_type_str buf len t) =
     find (\<lambda>(t', v). t' = t) (msg_attrs buf len)"
  unfolding first_by_type_find msg_attrs_def find_map by (simp add: attr_at_def)

lemma get_value_eq:
  "stun_attr_get_value buf (Some p) = (if attr_alen buf p = 0 then None else Some (p + 4))"
  by (auto simp: stun_attr_get_value_def attr_alen_def Let_def)

section \<open>Adding an attribute appends to the view\<close>

definition attr_space :: "u8 list \<Rightarrow> nat" where
  "attr_space v = 4 + round4 (length v)"

definition added :: "u8 list \<Rightarrow> nat \<Rightarrow> u16 \<Rightarrow> u8 list \<Rightarrow> u8 list" where
  "added buf len t v =
     put_bytes (put_bytes (put_bytes (put_bytes buf 2 (bytes_le 2 (nswap16 (of_nat (len + attr_space v - 20)))))
       len (bytes_le 2 (nswap16 t))) (len + 2) (bytes_le 2 (nswap16 (of_nat (length v))))) (len + 4) v"

lemma length_added [simp]: "length (added buf len t v) = length buf"
  by (simp add: added_def)

lemma round4_add: "4 dvd n \<Longrightarrow> round4 (n + k) = n + round4 k"
  unfolding round4_def by presburger

lemma newlen_round4:
  "(if (int n) mod 4 \<noteq> 0 then int n + (4 - int n mod 4) else int n) = int (round4 n)"
proof -
  have m: "int n mod 4 = int (n mod 4)" by (simp add: zmod_int)
  have "int n = int (n div 4) * 4 + int (n mod 4)"
    using div_mult_mod_eq [of n 4] by linarith
  then show ?thesis unfolding m round4_def by simp
qed

lemma read_bytes_all [simp]: "read_bytes v 0 (length v) = v"
  by (rule nth_equalityI) (simp_all add: byte_at_def)

lemma add_str_eq:
  assumes "wf_msg buf len"
  shows "stun_attr_add_str buf len t (Some v) (int (length v)) =
    (if len + attr_space v \<ge> MAX_STUN_MESSAGE_SIZE then (-1, buf, len)
     else (0, added buf len t v, len + attr_space v))"
proof -
  have clen: "stun_get_command_message_len_str buf len = int len" and l20: "20 \<le> len"
    using assms wf_msg_ge by (simp_all add: wf_msg_def)
  have new: "round4 (len + (4 + length v)) = len + attr_space v"
    using wf_msg_dvd [OF assms] round4_add [of "len + 4" "length v"] by (simp add: attr_space_def add.assoc)
  have r: "(let newlen = int len + 4 + int (length v); newlenrem4 = newlen mod 4
      in if newlenrem4 \<noteq> 0 then newlen + (4 - newlenrem4) else newlen) = int (len + attr_space v)"
    using newlen_round4 [of "len + (4 + length v)"] unfolding new
    by (simp only: Let_def add.assoc of_nat_add of_nat_numeral)
  have h: "snd (stun_set_command_message_len_str buf (int (len + attr_space v))) =
      put_bytes buf 2 (bytes_le 2 (nswap16 (of_nat (len + attr_space v - 20))))"
  proof -
    have "int (len + attr_space v) - int 20 = int (len + attr_space v - 20)" using l20 by simp
    then show ?thesis using l20
      unfolding stun_set_command_message_len_str_def STUN_HEADER_LENGTH by (simp only: of_int_of_nat_eq) simp
  qed
  have off: "put_bytes_at m (int len + 2) bs = put_bytes m (len + 2) bs"
    "put_bytes_at m (int len + 4) bs = put_bytes m (len + 4) bs" for m bs
    using put_bytes_at_nat [of m "len + 2" bs] put_bytes_at_nat [of m "len + 4" bs]
    by (simp_all only: of_nat_add of_nat_numeral)
  have v: "(if 0 < int (length v) then put_bytes m (len + 4) v else m) = put_bytes m (len + 4) v" for m
    by simp
  show ?thesis
    by (simp only: stun_attr_add_str_def clen Let_def r [unfolded Let_def] h off put_bytes_at_nat added_def
        option.case of_nat_less_0_iff if_False of_nat_le_iff nat_int of_int_of_nat_eq read_bytes_all v)
qed

lemma added_agree: "agree 4 len (added buf len t v) buf" "agree 0 2 (added buf len t v) buf"
  if "20 \<le> len"
  unfolding added_def using that by (intro agree_trans [OF agree_put] agree_put; simp)+

lemma added_attr:
  assumes "len + attr_space v \<le> length buf" and "length v < 65536"
  shows "attr_end (added buf len t v) len = len + attr_space v" "attr_at (added buf len t v) len = (t, v)"
proof -
  have l: "len + 4 + length v \<le> length buf"
    using assms round4_bounds(1) [of "length v"] by (simp add: attr_space_def)
  have "ld16 (added buf len t v) (len + 2) = nswap16 (of_nat (length v))"
    "ld16 (added buf len t v) len = nswap16 t" "read_bytes (added buf len t v) (len + 4) (length v) = v"
    using l by (simp_all add: added_def mem_simps del: bytes_nswap16)
  then show "attr_end (added buf len t v) len = len + attr_space v" "attr_at (added buf len t v) len = (t, v)"
    using assms(2) by (simp_all add: attr_end_def attr_at_def attr_alen_def attr_space_def)
qed

lemma added_len:
  assumes "20 \<le> len" and "len + attr_space v \<le> length buf" and "len + attr_space v < 65556"
  shows "stun_get_command_message_len_str (added buf len t v) (len + attr_space v) = int (len + attr_space v)"
proof -
  have "ld16 (added buf len t v) 2 = nswap16 (of_nat (len + attr_space v - 20))"
    using assms by (simp add: added_def mem_simps attr_space_def del: bytes_nswap16)
  moreover have "unat (of_nat (len + attr_space v - 20) :: u16) = len + attr_space v - 20"
    by (rule unat_of_nat_16) (use assms in simp)
  ultimately have "unat (nswap16 (ld16 (added buf len t v) 2)) = len + attr_space v - 20"
    by (simp only: nswap16_nswap16)
  then show ?thesis using assms
    by (simp add: stun_get_command_message_len_str_def STUN_HEADER_LENGTH Let_def)
qed

lemma added_wf:
  assumes wf: "wf_msg buf len" and room: "len + attr_space v \<le> length buf"
    and max: "len + attr_space v < MAX_STUN_MESSAGE_SIZE"
  shows "wf_msg (added buf len t v) (len + attr_space v)"
    "msg_attrs (added buf len t v) (len + attr_space v) = msg_attrs buf len @ [(t, v)]"
proof -
  let ?m = "added buf len t v" and ?e = "len + attr_space v"
  have l20: "20 \<le> len" by (rule wf_msg_ge [OF wf])
  have v: "length v < 65536" "len + attr_space v < 65556"
    using max round4_bounds(1) [of "length v"] by (simp_all add: attr_space_def stun_consts)
  note A = added_attr [OF room v(1), of t]
  have W: "attr_stop ?m 20 len = len" "map (attr_at ?m) (attr_offs ?m 20 len) = msg_attrs buf len"
    using attr_walk_agree [OF agree_sym [OF added_agree(1) [OF l20, of buf t v]], of 20] wf
    by (auto simp: wf_msg_def msg_attrs_wf [OF wf])
  have "attr_stop ?m len ?e = ?e" "attr_offs ?m len ?e = [len]"
    using A(1) p_less_attr_end [of ?e ?m]
    by (simp_all add: attr_stop.simps [of ?m len] attr_stop.simps [of ?m ?e]
        attr_offs.simps [of ?m len] attr_offs.simps [of ?m ?e])
  with attr_walk_append [OF W(1), of ?e]
  have S: "attr_stop ?m 20 ?e = ?e" "attr_offs ?m 20 ?e = attr_offs ?m 20 len @ [len]" by simp_all
  show wf': "wf_msg ?m ?e" using S(1) room added_len [OF l20 room v(2)] by (simp add: wf_msg_def)
  show "msg_attrs ?m ?e = msg_attrs buf len @ [(t, v)]"
    unfolding msg_attrs_wf [OF wf'] S(2) using W(2) A(2) by simp
qed

section \<open>The attribute layer refines the view\<close>

text \<open>
  \<^bold>\<open>C7\<close>: on every buffer, also a malformed one, the search for an attribute type is the search in
  the list of (type, value) pairs of the message, and the attribute found lies inside the message with its
  whole value.
\<close>

theorem attr_search_refines:
  "map_option (attr_at buf) (stun_attr_get_first_by_type_str buf len t) =
     find (\<lambda>(t', v). t' = t) (msg_attrs buf len) \<and>
   (\<forall>p. stun_attr_get_first_by_type_str buf len t = Some p \<longrightarrow>
      20 \<le> p \<and> int p + 4 + stun_attr_get_len buf (Some p) \<le> int len \<and>
      stun_attr_get_type buf (Some p) = int (unat t))"
proof (intro conjI allI impI)
  show "map_option (attr_at buf) (stun_attr_get_first_by_type_str buf len t) =
     find (\<lambda>(t', v). t' = t) (msg_attrs buf len)" by (rule first_by_type_attrs)
  fix p assume "stun_attr_get_first_by_type_str buf len t = Some p"
  then have "p \<in> set (msg_offs buf len)" and t: "nswap16 (ld16 buf p) = t"
    by (auto simp: first_by_type_find find_Some_iff)
  from msg_offs_bounds [OF this(1)]
  show "20 \<le> p" "int p + 4 + stun_attr_get_len buf (Some p) \<le> int len"
    by (simp_all add: get_len_alen)
  show "stun_attr_get_type buf (Some p) = int (unat t)" using t by (simp add: stun_attr_get_type_def)
qed

theorem attr_search_refines_witness:
  "let buf = [0, 1, 0, 8, 0x21, 0x12, 0xA4, 0x42, 1, 2, 3, 4, 5, 6, 7, 8, 9, 10, 11, 12, 0, 13, 0, 4, 0, 0, 2, 88]
   in stun_attr_get_first_by_type_str buf 28 13 = Some 20 \<and> find (\<lambda>(t', v). t' = 13) (msg_attrs buf 28) =
        Some (13, [0, 0, 2, 88]) \<and> int 20 + 4 + stun_attr_get_len buf (Some 20) \<le> int 28"
proof -
  let ?buf = "[0, 1, 0, 8, 0x21, 0x12, 0xA4, 0x42, 1, 2, 3, 4, 5, 6, 7, 8, 9, 10, 11, 12, 0, 13, 0, 4, 0, 0, 2, 88]"
  have f: "stun_attr_get_first_by_type_str ?buf 28 13 = Some 20" by code_simp
  have "attr_at ?buf 20 = (13, [0, 0, 2, 88])" by code_simp
  with attr_search_refines [of ?buf 28 13] f show ?thesis by simp
qed

text \<open>
  \<^bold>\<open>C8\<close>: adding an attribute to a well-formed message either fails and changes nothing, exactly when
  the result would reach the maximum message size, or appends the pair to the attribute list, keeps the
  message well-formed and touches neither the type and cookie nor the transaction identifier.
\<close>

theorem attr_add_refines:
  assumes "wf_msg buf len" and "len + attr_space v \<le> length buf"
    and "stun_attr_add_str buf len t (Some v) (int (length v)) = (r, buf', len')"
  shows "(r = -1 \<and> len + attr_space v \<ge> MAX_STUN_MESSAGE_SIZE \<and> buf' = buf \<and> len' = len) \<or>
    (r = 0 \<and> len' = len + attr_space v \<and> wf_msg buf' len' \<and> length buf' = length buf \<and>
     msg_attrs buf' len' = msg_attrs buf len @ [(t, v)] \<and>
     stun_get_msg_type_str buf' len' = stun_get_msg_type_str buf len \<and>
     stun_tid_from_message_str buf' len' = stun_tid_from_message_str buf len)"
proof (cases "len + attr_space v \<ge> MAX_STUN_MESSAGE_SIZE")
  case True
  then show ?thesis using assms by (simp add: add_str_eq)
next
  case False
  then have b: "buf' = added buf len t v" "r = 0" "len' = len + attr_space v"
    using assms by (simp_all add: add_str_eq)
  have l20: "20 \<le> len" by (rule wf_msg_ge [OF assms(1)])
  have "ld16 buf' 0 = ld16 buf 0" unfolding b
    by (rule agree_ld16 [OF added_agree(2) [OF l20]]) simp_all
  moreover have "read_bytes buf' 8 12 = read_bytes buf 8 12" unfolding b
    by (rule agree_read [OF added_agree(1) [OF l20]]) (use l20 in simp_all)
  ultimately show ?thesis using added_wf [OF assms(1,2)] False b l20
    by (simp add: stun_get_msg_type_str_def stun_tid_from_message_str_def STUN_TID_SIZE)
qed

theorem attr_add_refines_witness:
  "let buf = [0, 1, 0, 0, 0x21, 0x12, 0xA4, 0x42, 1, 2, 3, 4, 5, 6, 7, 8, 9, 10, 11, 12] @ replicate 12 0
   in wf_msg buf 20 \<and> (case stun_attr_add_str buf 20 13 (Some [0, 0, 2, 88]) 4 of
        (r, buf', len') \<Rightarrow> r = 0 \<and> wf_msg buf' len' \<and> msg_attrs buf' len' = [(13, [0, 0, 2, 88])])"
proof -
  let ?buf = "[0, 1, 0, 0, 0x21, 0x12, 0xA4, 0x42, 1, 2, 3, 4, 5, 6, 7, 8, 9, 10, 11, 12] @ replicate 12 0 :: u8 list"
  have w: "wf_msg ?buf 20" "msg_attrs ?buf 20 = []" by code_simp+
  have sp: "20 + attr_space [0, 0, 2, 88] = 28" by (simp add: attr_space_def round4_def)
  obtain r buf' len' where a: "stun_attr_add_str ?buf 20 13 (Some [0, 0, 2, 88]) (int (length [0, 0, 2, 88 :: u8])) = (r, buf', len')"
    by (rule prod_cases3)
  have "20 + attr_space [0, 0, 2, 88] \<le> length ?buf" unfolding sp by simp
  from attr_add_refines [OF w(1) this a] show ?thesis
    using a w sp by (auto simp: stun_consts Let_def simp del: append.simps)
qed

section \<open>Address attributes\<close>

text \<open>The offset of the attribute that was just added.\<close>

lemma msg_offs_added:
  assumes wf: "wf_msg buf len" and room: "len + attr_space v \<le> length buf"
    and max: "len + attr_space v < MAX_STUN_MESSAGE_SIZE"
  shows "msg_offs (added buf len t v) (len + attr_space v) = msg_offs buf len @ [len]"
    and "p \<in> set (msg_offs buf len) \<Longrightarrow> attr_at (added buf len t v) p = attr_at buf p"
proof -
  let ?m = "added buf len t v" and ?e = "len + attr_space v"
  have l20: "20 \<le> len" by (rule wf_msg_ge [OF wf])
  have v: "length v < 65536" "len + attr_space v < 65556"
    using max round4_bounds(1) [of "length v"] by (simp_all add: attr_space_def stun_consts)
  have W: "attr_stop ?m 20 len = len" "attr_offs ?m 20 len = attr_offs buf 20 len"
    "map (attr_at ?m) (attr_offs buf 20 len) = map (attr_at buf) (attr_offs buf 20 len)"
    using attr_walk_agree [OF agree_sym [OF added_agree(1) [OF l20, of buf t v]], of 20] wf
    by (auto simp: wf_msg_def)
  have "attr_offs ?m len ?e = [len]"
    using added_attr(1) [OF room v(1), of t] p_less_attr_end [of ?e ?m]
    by (simp_all add: attr_offs.simps [of ?m len] attr_offs.simps [of ?m ?e])
  with attr_walk_append [OF W(1), of ?e] W(2) added_len [OF l20 room v(2), of t] wf
  show "msg_offs ?m ?e = msg_offs buf len @ [len]" by (simp add: msg_offs_def wf_msg_def nat_int_add)
  show "p \<in> set (msg_offs buf len) \<Longrightarrow> attr_at ?m p = attr_at buf p"
    using W(3) wf by (simp add: msg_offs_def wf_msg_def)
qed

lemma added_old_type:
  assumes "wf_msg buf len" and "len + attr_space v \<le> length buf" and "len + attr_space v < MAX_STUN_MESSAGE_SIZE"
    and "find (\<lambda>(t', v). t' = t) (msg_attrs buf len) = None"
    and "p \<in> set (msg_offs buf len)"
  shows "t \<noteq> nswap16 (ld16 (added buf len t v) p)"
  using msg_offs_added(2) [OF assms(1,2,3,5), of t] assms(4,5)
  by (auto simp: find_None_iff msg_attrs_def attr_at_def)

lemma first_by_type_added:
  assumes "wf_msg buf len" and "len + attr_space v \<le> length buf" and "len + attr_space v < MAX_STUN_MESSAGE_SIZE"
    and "find (\<lambda>(t', v). t' = t) (msg_attrs buf len) = None"
  shows "stun_attr_get_first_by_type_str (added buf len t v) (len + attr_space v) t = Some len"
proof -
  let ?m = "added buf len t v"
  have "find (\<lambda>p. nswap16 (ld16 ?m p) = t) (msg_offs buf len) = None"
    using added_old_type [OF assms] unfolding find_None_iff by metis
  moreover have "nswap16 (ld16 ?m len) = t"
    using added_attr(2) [OF assms(2), of t] assms(3) round4_bounds(1) [of "length v"]
    by (simp add: attr_at_def attr_space_def stun_consts)
  ultimately show ?thesis
    unfolding first_by_type_find msg_offs_added(1) [OF assms(1,2,3)] find_append by simp
qed

lemma list_while_append_skip:
  assumes "\<And>p s. p \<in> set ps \<Longrightarrow> body p s = (False, s)"
  shows "list_while body (ps @ qs) s = list_while body qs s"
  using assms by (induction ps) simp_all

lemma addr_decode_agree:
  assumes "agree 0 (nat n) m f"
  shows "stun_addr_decode ca m n x mc tsx = stun_addr_decode ca f n x mc tsx"
proof -
  have r: "read_bytes m i k = read_bytes f i k" if "i + k \<le> nat n" for i k
    using agree_read [OF assms _ that] by simp
  have b: "byte_at m 0 = byte_at f 0" "byte_at m 1 = byte_at f 1" if "8 \<le> n"
    using assms that by (simp_all add: agree_def)
  show ?thesis
    using r [of 2 2] r [of 4 4] r [of 8 12] r [of 4 16] b
    by (auto simp: stun_addr_decode_def Let_def ld16_def ld32_def)
qed

lemma drop_agree: "read_bytes m c k = f \<Longrightarrow> agree 0 k (drop c m) f"
  by (auto simp: agree_def byte_at_def read_bytes_def add.commute)

lemma map_public_cong:
  assumes "addr_eq (Some a) (Some b)" and "list_all (\<lambda>m. ip_addr (snd m)) ms"
  shows "addr_eq (Some (map_addr_from_public_to_private ms a)) (Some (map_addr_from_public_to_private ms b))"
proof -
  have eq: "addr_eq_no_port (Some a) (Some c) = addr_eq_no_port (Some b) (Some c)" for c
    using assms(1) by (meson addr_eq_no_portI addr_eq_no_port_sym addr_eq_no_port_trans)
  have port: "addr_get_port (Some a) = addr_get_port (Some b)"
    using assms(1) by (auto simp: addr_eq_Some addr_get_port_ip dest: ip_addr_cong)
  show ?thesis using assms by (induction ms) (auto simp: eq port)
qed

lemma get_added_addr:
  assumes enc: "stun_addr_encode pub (stun_xor_type t) STUN_MAGIC_COOKIE (stun_tid_from_message_str buf len) = Some f"
    and pub: "ip_addr pub" "wf_addr pub" and wf: "wf_msg buf len"
    and room: "len + attr_space f \<le> length buf" and max: "len + attr_space f < MAX_STUN_MESSAGE_SIZE"
    and ms: "list_all (\<lambda>m. ip_addr (snd m)) ms"
  shows "\<exists>b. stun_attr_get_addr_str ms (added buf len t f) (len + attr_space f) (Some len) None = (0, b) \<and>
    addr_eq (Some b) (Some (map_addr_from_public_to_private ms pub))"
proof -
  let ?m = "added buf len t f" and ?tid = "stun_tid_from_message_str buf len"
  have l20: "20 \<le> len" by (rule wf_msg_ge [OF wf])
  have lt: "length ?tid = 12" by (simp add: stun_tid_from_message_str_def STUN_TID_SIZE)
  have lf: "length f = 8 \<or> length f = 20" using length_stun_addr_encode [OF enc pub(2)] lt by simp
  have tid: "stun_tid_from_message_str ?m (len + attr_space f) = ?tid"
    unfolding stun_tid_from_message_str_def STUN_TID_SIZE
    by (rule agree_read [OF added_agree(1) [OF l20]]) (use l20 in simp_all)
  have "attr_at ?m len = (t, f)" by (rule added_attr(2) [OF room]) (use lf in auto)
  then have t: "nswap16 (ld16 ?m len) = t" and v: "read_bytes ?m (len + 4) (attr_alen ?m len) = f"
    by (simp_all add: attr_at_def)
  from v have al: "attr_alen ?m len = length f" using length_read_bytes by metis
  from v have ag: "agree 0 (length f) (drop (len + 4) ?m) f" unfolding al by (rule drop_agree)
  obtain b where b: "stun_addr_decode addr_set_any f (int (length f)) (stun_xor_type t) STUN_MAGIC_COOKIE ?tid = (0, b)"
      "addr_eq (Some b) (Some pub)"
  proof (cases "sa_family pub = AF_INET")
    case True
    with decode_encode_v4 [OF True enc, of addr_set_any] that show ?thesis
      by (auto simp: addr_eq_Some ip_addr_def)
  next
    case False
    then have v6: "sa_family pub = AF_INET6" using pub by (simp add: ip_addr_def)
    with decode_encode_v6 [OF v6 pub(2) lt enc, of addr_set_any] that show ?thesis
      by (auto simp: addr_eq_Some ip_addr_def)
  qed
  have "stun_addr_decode addr_set_any (drop (len + 4) ?m) (int (length f)) (stun_xor_type t) STUN_MAGIC_COOKIE ?tid = (0, b)"
    using addr_decode_agree [of "int (length f)"] ag b(1) by simp
  with lf al t tid have "stun_attr_get_addr_str ms ?m (len + attr_space f) (Some len) None =
      (0, map_addr_from_public_to_private ms b)"
    by (auto simp: stun_attr_get_addr_str_def Let_def get_value_eq get_len_alen stun_attr_get_type_def
        of_nat_unat)
  with map_public_cong [OF b(2) ms] show ?thesis by simp
qed

text \<open>
  \<^bold>\<open>C28\<close>: an address written into a message with \<^verbatim>\<open>stun_attr_add_addr_str\<close> is read back with
  \<^verbatim>\<open>stun_attr_get_first_addr_str\<close>, for IPv4 and IPv6, plain and XOR-ed attribute types and any table of
  external addresses: translated to its public form on the way out and back to the private form on the way in.
\<close>

theorem addr_attr_roundtrip:
  assumes wf: "wf_msg buf len" and room: "len + 24 \<le> length buf" and max: "len + 24 < MAX_STUN_MESSAGE_SIZE"
    and t: "stun_addr_type t" and fresh: "find (\<lambda>(t', v). t' = t) (msg_attrs buf len) = None"
    and pub: "ip_addr (map_addr_from_private_to_public ms ca)" "wf_addr (map_addr_from_private_to_public ms ca)"
    and ms: "list_all (\<lambda>m. ip_addr (snd m)) ms"
  shows "\<exists>buf' len' b. stun_attr_add_addr_str ms buf len t ca = (0, buf', len') \<and> wf_msg buf' len' \<and>
    stun_attr_get_first_addr_str ms buf' len' t any None = (0, b) \<and>
    addr_eq (Some b) (Some (map_addr_from_public_to_private ms (map_addr_from_private_to_public ms ca)))"
proof -
  let ?pub = "map_addr_from_private_to_public ms ca" and ?tid = "stun_tid_from_message_str buf len"
  obtain f where f: "stun_addr_encode ?pub (stun_xor_type t) STUN_MAGIC_COOKIE ?tid = Some f"
    using pub by (cases "stun_xor_type t") (auto simp: stun_addr_encode_def ip_addr_def)
  have "length f = 8 \<or> length f = 20"
    using length_stun_addr_encode [OF f pub(2)] by (simp add: stun_tid_from_message_str_def STUN_TID_SIZE)
  then have sp: "attr_space f \<le> 24" by (auto simp: attr_space_def round4_def)
  let ?m = "added buf len t f" and ?e = "len + attr_space f"
  have room': "?e \<le> length buf" and max': "?e < MAX_STUN_MESSAGE_SIZE" using sp room max by simp_all
  have add: "stun_attr_add_addr_str ms buf len t ca = (0, ?m, ?e)"
    using add_str_eq [OF wf, of t f] max' f by (simp add: stun_attr_add_addr_str_def Let_def)
  obtain b where b: "stun_attr_get_addr_str ms ?m ?e (Some len) None = (0, b)"
    "addr_eq (Some b) (Some (map_addr_from_public_to_private ms ?pub))"
    using get_added_addr [OF f pub wf room' max' ms] by blast
  have ty: "nswap16 (ld16 ?m len) = t"
    using added_attr(2) [OF room', of t] max' round4_bounds(1) [of "length f"]
    by (simp add: attr_at_def attr_space_def stun_consts)
  have old: "t \<noteq> nswap16 (ld16 ?m p)" if "p \<in> set (msg_offs buf len)" for p
    by (rule added_old_type [OF wf room' max' fresh that])
  have "stun_attr_get_first_addr_str ms ?m ?e t any None = (0, b)"
    unfolding stun_attr_get_first_addr_str_def attr_while_msg msg_offs_added(1) [OF wf room' max']
    using t ty b(1) old
    by (subst list_while_append_skip)
      (auto simp: stun_attr_get_type_def stun_attr_is_addr_def simp flip: word_unat_eq_iff)
  with add b(2) added_wf(1) [OF wf room' max'] show ?thesis by blast
qed

theorem addr_attr_roundtrip_witness:
  "let buf = [0, 1, 0, 0, 0x21, 0x12, 0xA4, 0x42, 1, 2, 3, 4, 5, 6, 7, 8, 9, 10, 11, 12] @ replicate 24 0
   in wf_msg buf 20 \<and> (\<exists>buf' len' b. stun_attr_add_addr_str [] buf 20 STUN_ATTRIBUTE_XOR_PEER_ADDRESS (v4 7 9) = (0, buf', len') \<and>
     wf_msg buf' len' \<and>
     stun_attr_get_first_addr_str [] buf' len' STUN_ATTRIBUTE_XOR_PEER_ADDRESS addr_set_any None = (0, b) \<and>
     addr_eq (Some b) (Some (v4 7 9)))"
proof -
  let ?buf = "[0, 1, 0, 0, 0x21, 0x12, 0xA4, 0x42, 1, 2, 3, 4, 5, 6, 7, 8, 9, 10, 11, 12] @ replicate 24 0 :: u8 list"
  have w: "wf_msg ?buf 20" "msg_attrs ?buf 20 = []" by code_simp+
  from addr_attr_roundtrip [OF w(1), of STUN_ATTRIBUTE_XOR_PEER_ADDRESS "[]" "v4 7 9" addr_set_any] show ?thesis
    using w by (simp add: stun_consts stun_addr_type_def ip_addr_def wf_addr_def v4_def)
qed

end
