(* ===== verification/Stun_Build.thy ===== *)
theory Stun_Build
  imports Stun_View "HOL-Library.Signed_Division"
begin

text \<open>
  Model of the message constructors of \<^verbatim>\<open>src/coturn/src/client/ns_turn_msg.c\<close>: initialisation of
  requests, indications and responses, error responses with their reason texts, the allocate, channel-bind
  and binding messages, and the readers of error and challenge responses.

  The random transaction identifier is the argument \<open>rnd\<close>, the random channel number the argument
  \<open>rnd32\<close>. A constructor returns its result code, the buffer and \<^verbatim>\<open>*len\<close>.
\<close>

type_synonym msg_result = "int \<times> u8 list \<times> nat"

text \<open>\<^verbatim>\<open>if(step < 0) return -1;\<close> and a step whose result is ignored.\<close>

definition msg_try :: "msg_result \<Rightarrow> (u8 list \<Rightarrow> nat \<Rightarrow> msg_result) \<Rightarrow> msg_result" where
  "msg_try x k = (case x of (r, buf, len) \<Rightarrow> if r < 0 then (-1, buf, len) else k buf len)"

definition msg_then :: "msg_result \<Rightarrow> (u8 list \<Rightarrow> nat \<Rightarrow> msg_result) \<Rightarrow> msg_result" where
  "msg_then x k = (case x of (r, buf, len) \<Rightarrow> k buf len)"

section \<open>Initialisation\<close>

definition stun_init_buffer_str :: "u8 list \<Rightarrow> u8 list \<times> nat" where
  "stun_init_buffer_str buf = (put_bytes buf 0 (replicate STUN_HEADER_LENGTH 0), STUN_HEADER_LENGTH)"

definition old_stun_init_command_str :: "u8 list \<Rightarrow> u16 \<Rightarrow> u8 list \<Rightarrow> u32 \<Rightarrow> u8 list \<times> nat" where
  "old_stun_init_command_str rnd message_type buf cookie =
     (case stun_init_buffer_str buf of (buf, len) \<Rightarrow>
        let message_type = message_type AND 0x3FFF;
            buf = put_bytes buf 0 (bytes_le 2 (nswap16 message_type));
            buf = put_bytes buf 2 (bytes_le 2 (0 :: u16));
            buf = put_bytes buf 4 (bytes_le 4 (nswap32 cookie))
        in (stun_tid_generate_in_message_str rnd buf, len))"

definition stun_init_command_str :: "u8 list \<Rightarrow> u16 \<Rightarrow> u8 list \<Rightarrow> u8 list \<times> nat" where
  "stun_init_command_str rnd message_type buf =
     (case stun_init_buffer_str buf of (buf, len) \<Rightarrow>
        let message_type = message_type AND 0x3FFF;
            buf = put_bytes buf 0 (bytes_le 2 (nswap16 message_type));
            buf = put_bytes buf 2 (bytes_le 2 (0 :: u16));
            buf = put_bytes buf 4 (bytes_le 4 (nswap32 STUN_MAGIC_COOKIE))
        in (stun_tid_generate_in_message_str rnd buf, len))"

definition stun_init_request_str :: "u8 list \<Rightarrow> u16 \<Rightarrow> u8 list \<Rightarrow> u8 list \<times> nat" where
  "stun_init_request_str rnd method buf = stun_init_command_str rnd (stun_make_request method) buf"

definition stun_init_indication_str :: "u8 list \<Rightarrow> u16 \<Rightarrow> u8 list \<Rightarrow> u8 list \<times> nat" where
  "stun_init_indication_str rnd method buf = stun_init_command_str rnd (stun_make_indication method) buf"

definition stun_init_success_response_str ::
  "u8 list \<Rightarrow> u16 \<Rightarrow> u8 list \<Rightarrow> stun_tid option \<Rightarrow> u8 list \<times> nat" where
  "stun_init_success_response_str rnd method buf tid =
     (case stun_init_command_str rnd (stun_make_success_response method) buf of (buf, len) \<Rightarrow>
        (if tid \<noteq> None then stun_tid_message_cpy buf tid else buf, len))"

definition old_stun_init_success_response_str ::
  "u8 list \<Rightarrow> u16 \<Rightarrow> u8 list \<Rightarrow> stun_tid option \<Rightarrow> u32 \<Rightarrow> u8 list \<times> nat" where
  "old_stun_init_success_response_str rnd method buf tid cookie =
     (case old_stun_init_command_str rnd (stun_make_success_response method) buf cookie of (buf, len) \<Rightarrow>
        (if tid \<noteq> None then stun_tid_message_cpy buf tid else buf, len))"

section \<open>Error responses\<close>

definition get_default_reason :: "int \<Rightarrow> u8 list" where
  "get_default_reason error_code = str_bytes
     (if error_code = 300 then ''Try Alternate''
      else if error_code = 400 then ''Bad Request''
      else if error_code = 401 then ''Unauthorized''
      else if error_code = 403 then ''Forbidden''
      else if error_code = 404 then ''Not Found''
      else if error_code = 420 then ''Unknown Attribute''
      else if error_code = 437 then ''Allocation Mismatch''
      else if error_code = 438 then ''Stale Nonce''
      else if error_code = 440 then ''Address Family not Supported''
      else if error_code = 441 then ''Wrong Credentials''
      else if error_code = 442 then ''Unsupported Transport Protocol''
      else if error_code = 443 then ''Peer Address Family Mismatch''
      else if error_code = 446 then ''Connection Already Exists''
      else if error_code = 447 then ''Connection Timeout or Failure''
      else if error_code = 486 then ''Allocation Quota Reached''
      else if error_code = 487 then ''Role Conflict''
      else if error_code = 500 then ''Server Error''
      else if error_code = 508 then ''Insufficient Capacity''
      else ''Unknown error'')"

text \<open>
  The 513-byte array \<^verbatim>\<open>avalue\<close> after \<^verbatim>\<open>strncpy\<close> and the final zero: two bytes, hundreds, rest, at most
  508 characters of the reason and zeros; with the padded length that is passed on.
\<close>

definition error_avalue :: "u8 \<Rightarrow> u8 \<Rightarrow> u8 \<Rightarrow> u8 list \<Rightarrow> u8 list \<times> int" where
  "error_avalue b0 hundreds rest reason =
     (let text = take 508 (c_str reason);
          avalue = [b0, 0, hundreds, rest] @ text @ replicate (509 - length text) 0;
          alen = 4 + length text;
          rem = alen mod 4
      in (avalue, int (if rem \<noteq> 0 then alen + (4 - rem) else alen)))"

definition stun_init_error_response_common_str ::
  "u8 list \<Rightarrow> nat \<Rightarrow> u16 \<Rightarrow> u8 list option \<Rightarrow> stun_tid option \<Rightarrow> u8 list \<times> nat" where
  "stun_init_error_response_common_str buf len error_code reason tid =
     (let reason = (case reason of
            None \<Rightarrow> get_default_reason (int (unat error_code))
          | Some rs \<Rightarrow> if c_str rs = str_bytes ''Unknown error''
              then get_default_reason (int (unat error_code)) else rs)
      in case error_avalue 0 (ucast (error_code div 100)) (ucast (error_code mod 100)) reason of
        (avalue, alen) \<Rightarrow>
          (case stun_attr_add_str buf len STUN_ATTRIBUTE_ERROR_CODE (Some avalue) alen of
             (_, buf, len) \<Rightarrow> (if tid \<noteq> None then stun_tid_message_cpy buf tid else buf, len)))"

definition old_stun_init_error_response_str ::
  "u8 list \<Rightarrow> u16 \<Rightarrow> u8 list \<Rightarrow> u16 \<Rightarrow> u8 list option \<Rightarrow> stun_tid option \<Rightarrow> u32 \<Rightarrow> u8 list \<times> nat" where
  "old_stun_init_error_response_str rnd method buf error_code reason tid cookie =
     (case old_stun_init_command_str rnd (stun_make_error_response method) buf cookie of (buf, len) \<Rightarrow>
        stun_init_error_response_common_str buf len error_code reason tid)"

definition stun_init_error_response_str ::
  "u8 list \<Rightarrow> u16 \<Rightarrow> u8 list \<Rightarrow> u16 \<Rightarrow> u8 list option \<Rightarrow> stun_tid option \<Rightarrow> u8 list \<times> nat" where
  "stun_init_error_response_str rnd method buf error_code reason tid =
     (case stun_init_command_str rnd (stun_make_error_response method) buf of (buf, len) \<Rightarrow>
        stun_init_error_response_common_str buf len error_code reason tid)"

definition stun_attr_add_address_error_code ::
  "u8 list \<Rightarrow> nat \<Rightarrow> int \<Rightarrow> int \<Rightarrow> msg_result" where
  "stun_attr_add_address_error_code buf len requested_address_family error_code =
     (let reason = get_default_reason error_code in
      case error_avalue (of_int requested_address_family) (of_int (error_code sdiv 100))
             (of_int (error_code smod 100)) reason of
        (avalue, alen) \<Rightarrow>
          (case stun_attr_add_str buf len STUN_ATTRIBUTE_ADDRESS_ERROR_CODE (Some avalue) alen of
             (_, buf, len) \<Rightarrow> (0, buf, len)))"

text \<open>Result, \<^verbatim>\<open>*requested_address_family\<close> and \<^verbatim>\<open>*error_code\<close>.\<close>

definition stun_attr_get_address_error_code :: "u8 list \<Rightarrow> nat \<Rightarrow> int \<times> int \<times> int" where
  "stun_attr_get_address_error_code buf len =
     (if len \<noteq> 0 then
        (case stun_attr_get_first_by_type_str buf len STUN_ATTRIBUTE_ADDRESS_ERROR_CODE of
           None \<Rightarrow> (0, 0, 0)
         | Some sar \<Rightarrow>
             (case stun_attr_get_value buf (Some sar) of
                None \<Rightarrow> (-1, 0, 0)
              | Some value \<Rightarrow>
                  (if stun_attr_get_len buf (Some sar) \<noteq> 4 then (-1, 0, 0)
                   else (0, int (unat (byte_at buf value)),
                         int (unat (byte_at buf (value + 2))) * 100 + int (unat (byte_at buf (value + 3)))))))
      else (0, 0, 0))"

text \<open>
  \<^verbatim>\<open>err_code\<close> and \<^verbatim>\<open>err_msg\<close> may be \<open>NULL\<close>; otherwise the argument is the content before the call, and the
  content after it is returned next to the result.
\<close>

definition stun_is_error_response_str ::
  "u8 list \<Rightarrow> nat \<Rightarrow> int option \<Rightarrow> u8 list option \<Rightarrow> nat \<Rightarrow> bool \<times> int option \<times> u8 list option" where
  "stun_is_error_response_str buf len err_code err_msg err_msg_size =
     (if is_channel_msg_str buf len then (False, err_code, err_msg)
      else if IS_STUN_ERR_RESP (stun_get_msg_type_str buf len) then
        (if err_code = None then (True, err_code, err_msg)
         else case stun_attr_get_first_by_type_str buf len STUN_ATTRIBUTE_ERROR_CODE of
           None \<Rightarrow> (True, err_code, err_msg)
         | Some sar \<Rightarrow>
             (if 4 \<le> stun_attr_get_len buf (Some sar) then
                let val = sar + 4;
                    code = int (unat (byte_at buf (val + 2))) * 100 + int (unat (byte_at buf (val + 3)));
                    msg = (case err_msg of
                        None \<Rightarrow> None
                      | Some m \<Rightarrow>
                          if 0 < err_msg_size then
                            let m = put_bytes m 0 [0] in
                            if stun_attr_get_len buf (Some sar) > 4 then
                              let msg_len = nat (stun_attr_get_len buf (Some sar)) - 4;
                                  msg_len = (if msg_len > err_msg_size - 1 then err_msg_size - 1 else msg_len)
                              in Some (put_bytes (put_bytes m 0 (read_bytes buf (val + 4) msg_len)) msg_len [0])
                            else Some m
                          else Some m)
                in (True, Some code, msg)
              else (True, err_code, err_msg)))
      else (False, err_code, err_msg))"

text \<open>
  What \<^verbatim>\<open>stun_is_challenge_response_str\<close> writes through its output pointers; \<open>None\<close> is "not written".
  There is no bound on the number of bytes written to \<^verbatim>\<open>realm\<close> and \<^verbatim>\<open>nonce\<close> but the attribute length.
\<close>

record challenge =
  ch_realm :: "u8 list option"
  ch_nonce :: "u8 list option"
  ch_server_name :: "u8 list option"
  ch_oauth :: "bool option"

definition stun_is_challenge_response_str ::
  "u8 list \<Rightarrow> nat \<Rightarrow> int \<Rightarrow> u8 list option \<Rightarrow> nat \<Rightarrow> bool \<Rightarrow> bool \<Rightarrow>
   bool \<times> int \<times> u8 list option \<times> challenge" where
  "stun_is_challenge_response_str buf len err_code err_msg err_msg_size want_server_name want_oauth =
     (case stun_is_error_response_str buf len (Some err_code) err_msg err_msg_size of
        (ret, ec, em) \<Rightarrow>
          (let code = the ec; none = \<lparr>ch_realm = None, ch_nonce = None, ch_server_name = None, ch_oauth = None\<rparr> in
           if ret \<and> (code = 401 \<or> code = 438) then
             (let sar = stun_attr_get_first_by_type_str buf len STUN_ATTRIBUTE_REALM in
              case stun_attr_get_value buf sar of
                None \<Rightarrow> (False, code, em, none)
              | Some value \<Rightarrow>
                  (let vlen = nat (stun_attr_get_len buf sar);
                       c1 = none\<lparr>ch_realm := Some (read_bytes buf value vlen @ [0])\<rparr>;
                       tpa = stun_attr_get_first_by_type_str buf len STUN_ATTRIBUTE_THIRD_PARTY_AUTHORIZATION;
                       tpl = nat (stun_attr_get_len buf tpa);
                       found_oauth = (stun_attr_get_value buf tpa \<noteq> None \<and> tpl > 0);
                       c2 = (case stun_attr_get_value buf tpa of
                           None \<Rightarrow> c1
                         | Some tv \<Rightarrow> if tpl > 0 \<and> want_server_name
                             then c1\<lparr>ch_server_name := Some (read_bytes buf tv tpl)\<rparr> else c1);
                       nar = stun_attr_get_first_by_type_str buf len STUN_ATTRIBUTE_NONCE
                   in case stun_attr_get_value buf nar of
                        None \<Rightarrow> (False, code, em, c2)
                      | Some nv \<Rightarrow>
                          (True, code, em,
                           c2\<lparr>ch_nonce := Some (read_bytes buf nv (nat (stun_attr_get_len buf nar)) @ [0]),
                              ch_oauth := (if want_oauth then Some found_oauth else None)\<rparr>)))
           else (False, code, em, none)))"

section \<open>Allocate\<close>

definition stun_set_allocate_request_str ::
  "u8 list \<Rightarrow> u8 list \<Rightarrow> u32 \<Rightarrow> bool \<Rightarrow> bool \<Rightarrow> u8 \<Rightarrow> bool \<Rightarrow> u8 list option \<Rightarrow> int \<Rightarrow> msg_result" where
  "stun_set_allocate_request_str rnd buf lifetime af4 af6 transport mobile rt ep =
     (case stun_init_request_str rnd STUN_METHOD_ALLOCATE buf of (buf, len) \<Rightarrow>
      msg_try (stun_attr_add_str buf len STUN_ATTRIBUTE_REQUESTED_TRANSPORT (Some [transport, 0, 0, 0]) 4) (\<lambda>buf len.
      let lifetime = (if lifetime < 1 then STUN_DEFAULT_ALLOCATE_LIFETIME else lifetime) in
      msg_try (stun_attr_add_str buf len STUN_ATTRIBUTE_LIFETIME (Some (bytes_le 4 (nswap32 lifetime))) 4) (\<lambda>buf len.
      msg_try (if mobile then stun_attr_add_str buf len STUN_ATTRIBUTE_MOBILITY_TICKET (Some []) 0
               else (0, buf, len)) (\<lambda>buf len.
      msg_try (if ep > -1
               then stun_attr_add_str buf len STUN_ATTRIBUTE_EVEN_PORT (Some [if ep \<noteq> 0 then 0x80 else 0x00]) 1
               else (0, buf, len)) (\<lambda>buf len.
      case rt of
        Some token \<Rightarrow>
          msg_then (stun_attr_add_str buf len STUN_ATTRIBUTE_RESERVATION_TOKEN (Some token) 8)
            (\<lambda>buf len. (0, buf, len))
      | None \<Rightarrow>
          msg_try (if af4 \<and> \<not> af6
                   then stun_attr_add_str buf len STUN_ATTRIBUTE_REQUESTED_ADDRESS_FAMILY
                     (Some [of_int STUN_ATTRIBUTE_REQUESTED_ADDRESS_FAMILY_VALUE_IPV4, 0, 0, 0]) 4
                   else (0, buf, len)) (\<lambda>buf len.
          msg_try (if af6 \<and> \<not> af4
                   then stun_attr_add_str buf len STUN_ATTRIBUTE_REQUESTED_ADDRESS_FAMILY
                     (Some [of_int STUN_ATTRIBUTE_REQUESTED_ADDRESS_FAMILY_VALUE_IPV6, 0, 0, 0]) 4
                   else (0, buf, len)) (\<lambda>buf len.
          msg_try (if af4 \<and> af6
                   then stun_attr_add_str buf len STUN_ATTRIBUTE_ADDITIONAL_ADDRESS_FAMILY
                     (Some [of_int STUN_ATTRIBUTE_REQUESTED_ADDRESS_FAMILY_VALUE_IPV6, 0, 0, 0]) 4
                   else (0, buf, len)) (\<lambda>buf len. (0, buf, len)))))))))"

definition stun_set_allocate_response_str ::
  "u8 list \<Rightarrow> addr_mapping \<Rightarrow> u8 list \<Rightarrow> stun_tid option \<Rightarrow> ioa_addr option \<Rightarrow> ioa_addr option \<Rightarrow>
   ioa_addr option \<Rightarrow> u32 \<Rightarrow> u32 \<Rightarrow> int \<Rightarrow> u8 list option \<Rightarrow> u64 \<Rightarrow> u8 list option \<Rightarrow> msg_result" where
  "stun_set_allocate_response_str rnd ms buf tid relayed_addr1 relayed_addr2 reflexive_addr lifetime
     max_lifetime error_code reason reservation_token mobile_id =
     (if error_code = 0 then
        (case stun_init_success_response_str rnd STUN_METHOD_ALLOCATE buf tid of (buf, len) \<Rightarrow>
         msg_try (case relayed_addr1 of None \<Rightarrow> (0, buf, len)
                  | Some a \<Rightarrow> stun_attr_add_addr_str ms buf len STUN_ATTRIBUTE_XOR_RELAYED_ADDRESS a) (\<lambda>buf len.
         msg_try (case relayed_addr2 of None \<Rightarrow> (0, buf, len)
                  | Some a \<Rightarrow> stun_attr_add_addr_str ms buf len STUN_ATTRIBUTE_XOR_RELAYED_ADDRESS a) (\<lambda>buf len.
         msg_try (case reflexive_addr of None \<Rightarrow> (0, buf, len)
                  | Some a \<Rightarrow> stun_attr_add_addr_str ms buf len STUN_ATTRIBUTE_XOR_MAPPED_ADDRESS a) (\<lambda>buf len.
         msg_then (if reservation_token \<noteq> 0
                   then stun_attr_add_str buf len STUN_ATTRIBUTE_RESERVATION_TOKEN
                     (Some (bytes_le 8 (nswap64 reservation_token))) 8
                   else (0, buf, len)) (\<lambda>buf len.
         let lifetime = (if lifetime < 1 then STUN_DEFAULT_ALLOCATE_LIFETIME
                         else if lifetime > max_lifetime then max_lifetime else lifetime) in
         msg_try (stun_attr_add_str buf len STUN_ATTRIBUTE_LIFETIME (Some (bytes_le 4 (nswap32 lifetime))) 4) (\<lambda>buf len.
         msg_try (case mobile_id of None \<Rightarrow> (0, buf, len)
                  | Some m \<Rightarrow> if c_str m \<noteq> []
                      then stun_attr_add_str buf len STUN_ATTRIBUTE_MOBILITY_TICKET (Some m) (int (length (c_str m)))
                      else (0, buf, len)) (\<lambda>buf len. (0, buf, len))))))))
      else (case stun_init_error_response_str rnd STUN_METHOD_ALLOCATE buf (of_int error_code) reason tid of
              (buf, len) \<Rightarrow> (0, buf, len)))"

section \<open>Channel bind and binding\<close>

text \<open>The result is the channel number, \<open>0\<close> on failure.\<close>

definition stun_set_channel_bind_request_str ::
  "u8 list \<Rightarrow> u32 \<Rightarrow> addr_mapping \<Rightarrow> u8 list \<Rightarrow> ioa_addr option \<Rightarrow> u16 \<Rightarrow> u16 \<times> u8 list \<times> nat" where
  "stun_set_channel_bind_request_str rnd rnd32 ms buf peer_addr channel_number =
     (let channel_number = (if \<not> STUN_VALID_CHANNEL channel_number
          then 0x4000 + ucast (rnd32 mod (0x7FFF - 0x4000 + 1)) else channel_number)
      in case stun_init_request_str rnd STUN_METHOD_CHANNEL_BIND buf of (buf, len) \<Rightarrow>
         (case stun_attr_add_channel_number_str buf len channel_number of (r, buf, len) \<Rightarrow>
            if r < 0 then (0, buf, len)
            else (case stun_attr_add_addr_str ms buf len STUN_ATTRIBUTE_XOR_PEER_ADDRESS
                     (case peer_addr of None \<Rightarrow> addr_set_any | Some a \<Rightarrow> a) of (r, buf, len) \<Rightarrow>
                    if r < 0 then (0, buf, len) else (channel_number, buf, len))))"

definition stun_set_channel_bind_response_str ::
  "u8 list \<Rightarrow> u8 list \<Rightarrow> stun_tid option \<Rightarrow> int \<Rightarrow> u8 list option \<Rightarrow> u8 list \<times> nat" where
  "stun_set_channel_bind_response_str rnd buf tid error_code reason =
     (if error_code = 0 then stun_init_success_response_str rnd STUN_METHOD_CHANNEL_BIND buf tid
      else stun_init_error_response_str rnd STUN_METHOD_CHANNEL_BIND buf (of_int error_code) reason tid)"

definition stun_set_binding_request_str :: "u8 list \<Rightarrow> u8 list \<Rightarrow> u8 list \<times> nat" where
  "stun_set_binding_request_str rnd buf = stun_init_request_str rnd STUN_METHOD_BINDING buf"

definition stun_set_binding_response_str ::
  "u8 list \<Rightarrow> addr_mapping \<Rightarrow> u8 list \<Rightarrow> stun_tid option \<Rightarrow> ioa_addr option \<Rightarrow> int \<Rightarrow> u8 list option \<Rightarrow>
   u32 \<Rightarrow> bool \<Rightarrow> msg_result" where
  "stun_set_binding_response_str rnd ms buf tid reflexive_addr error_code reason cookie old_stun =
     (if error_code = 0 then
        (case (if \<not> old_stun then stun_init_success_response_str rnd STUN_METHOD_BINDING buf tid
               else old_stun_init_success_response_str rnd STUN_METHOD_BINDING buf tid cookie) of (buf, len) \<Rightarrow>
         msg_try (case reflexive_addr of
                    Some a \<Rightarrow> if \<not> old_stun then stun_attr_add_addr_str ms buf len STUN_ATTRIBUTE_XOR_MAPPED_ADDRESS a
                      else (0, buf, len)
                  | None \<Rightarrow> (0, buf, len)) (\<lambda>buf len.
         msg_try (case reflexive_addr of
                    Some a \<Rightarrow> stun_attr_add_addr_str ms buf len STUN_ATTRIBUTE_MAPPED_ADDRESS a
                  | None \<Rightarrow> (0, buf, len)) (\<lambda>buf len. (0, buf, len))))
      else if \<not> old_stun then
        (case stun_init_error_response_str rnd STUN_METHOD_BINDING buf (of_int error_code) reason tid of
           (buf, len) \<Rightarrow> (0, buf, len))
      else
        (case old_stun_init_error_response_str rnd STUN_METHOD_BINDING buf (of_int error_code) reason tid cookie of
           (buf, len) \<Rightarrow> (0, buf, len)))"

section \<open>Messages under construction\<close>

text \<open>
  \<open>msg_is N ty ck tid as\<close> holds of a buffer of \<open>N\<close> bytes that contains a well-formed message of type \<open>ty\<close>
  with cookie \<open>ck\<close>, transaction identifier \<open>tid\<close> and attribute list \<open>as\<close>. \<open>msg_ok x Q\<close> says that the
  constructor \<open>x\<close> succeeds with a message that satisfies \<open>Q\<close>.
\<close>

definition attrs_space :: "(u16 \<times> u8 list) list \<Rightarrow> nat" where
  "attrs_space as = sum_list (map (\<lambda>(t, v). attr_space v) as)"

definition msg_is ::
  "nat \<Rightarrow> u16 \<Rightarrow> u32 \<Rightarrow> u8 list \<Rightarrow> (u16 \<times> u8 list) list \<Rightarrow> u8 list \<Rightarrow> nat \<Rightarrow> bool" where
  "msg_is N ty ck tid as buf len \<longleftrightarrow> length buf = N \<and> len = 20 + attrs_space as \<and> wf_msg buf len \<and>
     msg_attrs buf len = as \<and> nswap16 (ld16 buf 0) = ty \<and> nswap32 (ld32 buf 4) = ck \<and>
     read_bytes buf 8 12 = tid"

definition msg_ok :: "msg_result \<Rightarrow> (u8 list \<Rightarrow> nat \<Rightarrow> bool) \<Rightarrow> bool" where
  "msg_ok x Q \<longleftrightarrow> (case x of (r, buf, len) \<Rightarrow> r = 0 \<and> Q buf len)"

lemma attrs_space_simps [simp]:
  "attrs_space [] = 0" "attrs_space ((t, v) # as) = attr_space v + attrs_space as"
  "attrs_space (as @ bs) = attrs_space as + attrs_space bs"
  by (simp_all add: attrs_space_def)

lemma msg_ok_try: "msg_ok x Q \<Longrightarrow> (\<And>b l. Q b l \<Longrightarrow> msg_ok (k b l) R) \<Longrightarrow> msg_ok (msg_try x k) R"
  by (cases x) (fastforce simp: msg_ok_def msg_try_def)

lemma msg_ok_then: "msg_ok x Q \<Longrightarrow> (\<And>b l. Q b l \<Longrightarrow> msg_ok (k b l) R) \<Longrightarrow> msg_ok (msg_then x k) R"
  by (cases x) (fastforce simp: msg_ok_def msg_then_def)

lemma msg_ok_ret: "Q b l \<Longrightarrow> msg_ok (0, b, l) Q"
  by (simp add: msg_ok_def)

lemma msg_is_added:
  assumes m: "msg_is N ty ck tid as buf len" and room: "len + attr_space v \<le> N"
    and max: "N < MAX_STUN_MESSAGE_SIZE"
  shows "msg_is N ty ck tid (as @ [(t, v)]) (added buf len t v) (len + attr_space v)"
proof -
  from m have wf: "wf_msg buf len" and N: "length buf = N" by (auto simp: msg_is_def)
  have l20: "20 \<le> len" by (rule wf_msg_ge [OF wf])
  have r: "len + attr_space v \<le> length buf" "len + attr_space v < MAX_STUN_MESSAGE_SIZE"
    using room max N by simp_all
  have "ld16 (added buf len t v) 0 = ld16 buf 0"
    by (rule agree_ld16 [OF added_agree(2) [OF l20]]) simp_all
  moreover have "read_bytes (added buf len t v) 8 12 = read_bytes buf 8 12"
    "ld32 (added buf len t v) 4 = ld32 buf 4"
    unfolding ld32_def using l20 by (intro agree_read [OF added_agree(1) [OF l20]] arg_cong [where f = word_le]; simp)+
  ultimately show ?thesis using m added_wf [OF wf r] by (auto simp: msg_is_def)
qed

lemma msg_ok_add:
  assumes "msg_is N ty ck tid as buf len" and "20 + attrs_space as + attr_space v \<le> N"
    and "N < MAX_STUN_MESSAGE_SIZE" and "n = int (length v)"
  shows "msg_ok (stun_attr_add_str buf len t (Some v) n) (msg_is N ty ck tid (as @ [(t, v)]))"
proof -
  have len: "len = 20 + attrs_space as" and wf: "wf_msg buf len" using assms(1) by (auto simp: msg_is_def)
  show ?thesis
    using msg_is_added [OF assms(1), of v t] add_str_eq [OF wf, of t v] assms(2,3,4) len
    by (simp add: msg_ok_def)
qed

definition addr_field :: "addr_mapping \<Rightarrow> u8 list \<Rightarrow> u16 \<Rightarrow> ioa_addr \<Rightarrow> u8 list" where
  "addr_field ms tid t a =
     the (stun_addr_encode (map_addr_from_private_to_public ms a) (stun_xor_type t) STUN_MAGIC_COOKIE tid)"

definition sendable :: "addr_mapping \<Rightarrow> ioa_addr \<Rightarrow> bool" where
  "sendable ms a \<longleftrightarrow> ip_addr (map_addr_from_private_to_public ms a) \<and>
     wf_addr (map_addr_from_private_to_public ms a)"

lemma addr_field_Some:
  assumes "sendable ms a" and "length tid = 12"
  shows "stun_addr_encode (map_addr_from_private_to_public ms a) (stun_xor_type t) STUN_MAGIC_COOKIE tid =
      Some (addr_field ms tid t a)" "attr_space (addr_field ms tid t a) \<le> 24"
proof -
  let ?pub = "map_addr_from_private_to_public ms a"
  obtain f where f: "stun_addr_encode ?pub (stun_xor_type t) STUN_MAGIC_COOKIE tid = Some f"
    using assms by (cases "stun_xor_type t") (auto simp: stun_addr_encode_def ip_addr_def sendable_def)
  then show e: "stun_addr_encode ?pub (stun_xor_type t) STUN_MAGIC_COOKIE tid = Some (addr_field ms tid t a)"
    by (simp add: addr_field_def)
  have "length (addr_field ms tid t a) = 8 \<or> length (addr_field ms tid t a) = 20"
    using length_stun_addr_encode [OF e] assms by (simp add: sendable_def)
  then show "attr_space (addr_field ms tid t a) \<le> 24" by (auto simp: attr_space_def round4_def)
qed

lemma msg_ok_add_addr:
  assumes m: "msg_is N ty ck tid as buf len" and room: "20 + attrs_space as + 24 \<le> N"
    and max: "N < MAX_STUN_MESSAGE_SIZE" and a: "sendable ms a"
  shows "msg_ok (stun_attr_add_addr_str ms buf len t a)
           (msg_is N ty ck tid (as @ [(t, addr_field ms tid t a)]))"
proof -
  have tid: "stun_tid_from_message_str buf len = tid" "length tid = 12"
    using m by (auto simp: msg_is_def stun_tid_from_message_str_def STUN_TID_SIZE)
  note f = addr_field_Some [OF a tid(2), of t]
  have "msg_ok (stun_attr_add_str buf len t (Some (addr_field ms tid t a)) (int (length (addr_field ms tid t a))))
      (msg_is N ty ck tid (as @ [(t, addr_field ms tid t a)]))"
    by (rule msg_ok_add [OF m _ max]) (use room f(2) in simp_all)
  then show ?thesis
    by (auto simp: stun_attr_add_addr_str_def Let_def tid f(1) msg_ok_def split: prod.splits)
qed

section \<open>Initial messages\<close>

lemma empty_msg_wf:
  assumes "20 \<le> length buf" and "ld16 buf 2 = 0"
  shows "wf_msg buf 20" "msg_attrs buf 20 = []"
proof -
  have "unat (nswap16 0) = 0" by code_simp
  then have c: "stun_get_command_message_len_str buf 20 = 20"
    using assms(2) by (simp add: stun_get_command_message_len_str_def STUN_HEADER_LENGTH)
  have "\<not> attr_end buf 20 \<le> 20" by (simp add: attr_end_def)
  then show wf: "wf_msg buf 20"
    using assms(1) c by (simp add: wf_msg_def attr_stop.simps [of buf 20])
  show "msg_attrs buf 20 = []"
    using \<open>\<not> attr_end buf 20 \<le> 20\<close> by (simp add: msg_attrs_wf [OF wf] attr_offs.simps [of buf 20])
qed

lemma old_init_command:
  assumes "20 \<le> length buf" and "length rnd = 12"
    and "old_stun_init_command_str rnd ty buf ck = (buf', len)"
  shows "msg_is (length buf) (ty AND 0x3FFF) ck rnd [] buf' len"
proof -
  let ?b = "put_bytes (put_bytes (put_bytes (put_bytes (put_bytes buf 0 (replicate 20 0)) 0
      (bytes_le 2 (nswap16 (ty AND 0x3FFF)))) 2 (bytes_le 2 (0 :: u16))) 4 (bytes_le 4 (nswap32 ck))) 8 rnd"
  have b: "buf' = ?b" "len = 20"
    using assms by (simp_all add: old_stun_init_command_str_def stun_init_buffer_str_def Let_def
        STUN_HEADER_LENGTH stun_tid_generate_in_message_str_def stun_tid_message_cpy_def STUN_TID_SIZE)
  have "ld16 ?b 2 = 0" "ld16 ?b 0 = nswap16 (ty AND 0x3FFF)" "ld32 ?b 4 = nswap32 ck" "read_bytes ?b 8 12 = rnd"
    using assms(1,2) by (simp_all add: mem_simps del: bytes_nswap16 bytes_nswap32)
  with assms(1) b empty_msg_wf [of ?b] show ?thesis by (simp add: msg_is_def)
qed

lemma init_command_old: "stun_init_command_str rnd ty buf = old_stun_init_command_str rnd ty buf STUN_MAGIC_COOKIE"
  by (simp add: stun_init_command_str_def old_stun_init_command_str_def)

lemma mask_14: "(t :: u16) AND 0xC000 = 0 \<Longrightarrow> t AND 0x3FFF = t"
proof -
  assume top: "t AND 0xC000 = 0"
  have "t = t AND (0x3FFF OR 0xC000)"
    by (rule u16_eqI, drule less16_cases, unfold bit_and_iff bit_or_iff, elim disjE) simp_all
  also have "\<dots> = (t AND 0x3FFF) OR (t AND 0xC000)" by (rule bit.conj_disj_distrib)
  finally show ?thesis using top by simp
qed

lemma make_14 [simp]:
  "stun_make_request m AND 0x3FFF = stun_make_request m"
  "stun_make_indication m AND 0x3FFF = stun_make_indication m"
  "stun_make_success_response m AND 0x3FFF = stun_make_success_response m"
  "stun_make_error_response m AND 0x3FFF = stun_make_error_response m"
  by (simp_all add: mask_14)

lemma msg_is_set_tid:
  assumes "msg_is N ty ck tid as buf len" and "length tid' = 12" and "20 \<le> N"
  shows "msg_is N ty ck tid' as (stun_tid_message_cpy buf (Some tid')) len"
proof -
  let ?b = "put_bytes buf 8 tid'"
  have wf: "wf_msg buf len" and len: "length buf = N" using assms(1) by (auto simp: msg_is_def)
  have a: "agree 20 len ?b buf" "agree 0 8 ?b buf" using assms(2) by simp_all
  have l: "ld16 ?b 2 = ld16 buf 2" "ld16 ?b 0 = ld16 buf 0" "ld32 ?b 4 = ld32 buf 4"
    using agree_read [OF a(2), of 4 4] by (simp_all add: agree_ld16 [OF a(2)] ld32_def)
  then have "stun_get_command_message_len_str ?b len = stun_get_command_message_len_str buf len"
    by (simp add: stun_get_command_message_len_str_def)
  then have c: "stun_get_command_message_len_str ?b len = int len" using wf by (simp add: wf_msg_def)
  have w: "attr_stop ?b 20 len = len"
    "map (attr_at ?b) (attr_offs ?b 20 len) = map (attr_at buf) (attr_offs buf 20 len)"
    using attr_walk_agree [OF agree_sym [OF a(1)], of 20] wf by (auto simp: wf_msg_def)
  have wf': "wf_msg ?b len" using wf c w by (simp add: wf_msg_def)
  have "read_bytes ?b 8 12 = tid'"
    using read_put_same [of 8 tid' buf] assms(2,3) len by simp
  moreover have "msg_attrs ?b len = msg_attrs buf len"
    unfolding msg_attrs_wf [OF wf'] msg_attrs_wf [OF wf] by (rule w(2))
  ultimately show ?thesis using assms wf' l
    by (auto simp: msg_is_def stun_tid_message_cpy_def STUN_TID_SIZE)
qed

lemma init_request:
  assumes "20 \<le> length buf" and "length rnd = 12" and "stun_init_request_str rnd m buf = (buf', len)"
  shows "msg_is (length buf) (stun_make_request m) STUN_MAGIC_COOKIE rnd [] buf' len"
  using old_init_command [OF assms(1,2), of "stun_make_request m" STUN_MAGIC_COOKIE] assms(3)
  by (simp add: stun_init_request_str_def init_command_old)

definition reply_tid :: "u8 list \<Rightarrow> stun_tid option \<Rightarrow> u8 list" where
  "reply_tid rnd tid = (case tid of None \<Rightarrow> rnd | Some t \<Rightarrow> t)"

lemma init_success_response:
  assumes "20 \<le> length buf" and "length rnd = 12" and "\<forall>t. tid = Some t \<longrightarrow> length t = 12"
    and "stun_init_success_response_str rnd m buf tid = (buf', len)"
  shows "msg_is (length buf) (stun_make_success_response m) STUN_MAGIC_COOKIE (reply_tid rnd tid) [] buf' len"
proof -
  obtain b l where b: "old_stun_init_command_str rnd (stun_make_success_response m) buf STUN_MAGIC_COOKIE = (b, l)"
    by fastforce
  note i = old_init_command [OF assms(1,2) b]
  from i msg_is_set_tid [OF i _ assms(1)] assms(3,4) b show ?thesis
    by (cases tid) (auto simp: stun_init_success_response_str_def init_command_old reply_tid_def)
qed

section \<open>The allocate messages\<close>

definition be32 :: "u32 \<Rightarrow> u8 list" where
  "be32 w = rev (bytes_le 4 w)"

lemma length_be32 [simp]: "length (be32 w) = 4"
  by (simp add: be32_def)

lemma attr_space_le: "attr_space v \<le> length v + 7"
  using round4_bounds(2) [of "length v"] by (simp add: attr_space_def)

definition allocate_request_attrs ::
  "u32 \<Rightarrow> bool \<Rightarrow> bool \<Rightarrow> u8 \<Rightarrow> bool \<Rightarrow> u8 list option \<Rightarrow> int \<Rightarrow> (u16 \<times> u8 list) list" where
  "allocate_request_attrs lifetime af4 af6 transport mobile rt ep =
     [(STUN_ATTRIBUTE_REQUESTED_TRANSPORT, [transport, 0, 0, 0]),
      (STUN_ATTRIBUTE_LIFETIME, be32 (if lifetime = 0 then 600 else lifetime))]
     @ (if mobile then [(STUN_ATTRIBUTE_MOBILITY_TICKET, [])] else [])
     @ (if ep \<ge> 0 then [(STUN_ATTRIBUTE_EVEN_PORT, [if ep = 0 then 0 else 0x80])] else [])
     @ (case rt of
          Some token \<Rightarrow> [(STUN_ATTRIBUTE_RESERVATION_TOKEN, token)]
        | None \<Rightarrow>
            if af4 \<and> af6 then [(STUN_ATTRIBUTE_ADDITIONAL_ADDRESS_FAMILY, [2, 0, 0, 0])]
            else if af4 then [(STUN_ATTRIBUTE_REQUESTED_ADDRESS_FAMILY, [1, 0, 0, 0])]
            else if af6 then [(STUN_ATTRIBUTE_REQUESTED_ADDRESS_FAMILY, [2, 0, 0, 0])]
            else [])"

lemma msg_ok_try_add:
  assumes "msg_is N ty ck tid as buf len" and "N < MAX_STUN_MESSAGE_SIZE" and "n = int (length v)"
    and "20 + attrs_space as + attr_space v \<le> N"
    and "\<And>b l. msg_is N ty ck tid (as @ [(t, v)]) b l \<Longrightarrow> msg_ok (k b l) R"
  shows "msg_ok (msg_try (stun_attr_add_str buf len t (Some v) n) k) R"
    "msg_ok (msg_then (stun_attr_add_str buf len t (Some v) n) k) R"
  using msg_ok_try msg_ok_then msg_ok_add assms by metis+

lemma msg_ok_try_if:
  assumes "msg_is N ty ck tid as buf len" and "N < MAX_STUN_MESSAGE_SIZE" and "n = int (length v)"
    and "20 + attrs_space as + attr_space v \<le> N"
    and "\<And>b l. msg_is N ty ck tid (as @ (if c then [(t, v)] else [])) b l \<Longrightarrow> msg_ok (k b l) R"
  shows "msg_ok (msg_try (if c then stun_attr_add_str buf len t (Some v) n else (0, buf, len)) k) R"
    "msg_ok (msg_then (if c then stun_attr_add_str buf len t (Some v) n else (0, buf, len)) k) R"
  using msg_ok_try_add [OF assms(1,2,3,4), of t k R] assms(1,5) by (cases c; simp add: msg_try_def msg_then_def)+

lemma attrs_space_if [simp]:
  "attrs_space (if c then as else bs) = (if c then attrs_space as else attrs_space bs)"
  by simp



lemma msg_ok_try_addr:
  assumes "msg_is N ty ck tid as buf len" and "N < MAX_STUN_MESSAGE_SIZE"
    and "\<And>a. oa = Some a \<Longrightarrow> sendable ms a" and "20 + attrs_space as + 24 \<le> N"
    and "\<And>b l. msg_is N ty ck tid (as @ (case oa of None \<Rightarrow> [] | Some a \<Rightarrow> [(t, addr_field ms tid t a)])) b l \<Longrightarrow>
      msg_ok (k b l) R"
  shows "msg_ok (msg_try (case oa of None \<Rightarrow> (0, buf, len) | Some a \<Rightarrow> stun_attr_add_addr_str ms buf len t a) k) R"
proof (cases oa)
  case None
  then show ?thesis using assms(1,5) by (simp add: msg_try_def)
next
  case (Some a)
  show ?thesis unfolding Some option.case
    by (rule msg_ok_try [OF msg_ok_add_addr [OF assms(1,4,2)]]) (use assms(3,5) Some in auto)
qed

definition addr_attr :: "addr_mapping \<Rightarrow> u8 list \<Rightarrow> u16 \<Rightarrow> ioa_addr option \<Rightarrow> (u16 \<times> u8 list) list" where
  "addr_attr ms tid t oa = (case oa of None \<Rightarrow> [] | Some a \<Rightarrow> [(t, addr_field ms tid t a)])"

lemma addr_attr_space:
  "length tid = 12 \<Longrightarrow> (\<And>a. oa = Some a \<Longrightarrow> sendable ms a) \<Longrightarrow> attrs_space (addr_attr ms tid t oa) \<le> 24"
  using addr_field_Some(2) by (auto simp: addr_attr_def split: option.splits)

definition allocate_response_attrs ::
  "addr_mapping \<Rightarrow> u8 list \<Rightarrow> ioa_addr option \<Rightarrow> ioa_addr option \<Rightarrow> ioa_addr option \<Rightarrow> u32 \<Rightarrow> u32 \<Rightarrow>
   u64 \<Rightarrow> u8 list option \<Rightarrow> (u16 \<times> u8 list) list" where
  "allocate_response_attrs ms tid relayed1 relayed2 reflexive lifetime max_lifetime token mobile_id =
     addr_attr ms tid STUN_ATTRIBUTE_XOR_RELAYED_ADDRESS relayed1
     @ addr_attr ms tid STUN_ATTRIBUTE_XOR_RELAYED_ADDRESS relayed2
     @ addr_attr ms tid STUN_ATTRIBUTE_XOR_MAPPED_ADDRESS reflexive
     @ (if token \<noteq> 0 then [(STUN_ATTRIBUTE_RESERVATION_TOKEN, rev (bytes_le 8 token))] else [])
     @ [(STUN_ATTRIBUTE_LIFETIME, be32 (if lifetime = 0 then 600 else min lifetime max_lifetime))]
     @ (case mobile_id of None \<Rightarrow> []
        | Some m \<Rightarrow> if m \<noteq> [] then [(STUN_ATTRIBUTE_MOBILITY_TICKET, m)] else [])"

text \<open>
  \<^bold>\<open>C26\<close>: a successful allocate response is a well-formed success response to the request's transaction
  that carries the relayed addresses, the reflexive address, a non-zero reservation token, a lifetime
  bounded by the maximum and a non-empty mobility ticket, in this order and nothing else.
\<close>

theorem allocate_response_message:
  assumes "160 + (case mobile_id of None \<Rightarrow> 0 | Some m \<Rightarrow> length m) \<le> length buf"
    and "length buf < MAX_STUN_MESSAGE_SIZE" and "length rnd = 12" and "\<forall>t. tid = Some t \<longrightarrow> length t = 12"
    and "\<forall>a. relayed1 = Some a \<or> relayed2 = Some a \<or> reflexive = Some a \<longrightarrow> sendable ms a"
    and "\<forall>m. mobile_id = Some m \<longrightarrow> 0 \<notin> set m"
  shows "msg_ok (stun_set_allocate_response_str rnd ms buf tid relayed1 relayed2 reflexive lifetime max_lifetime
      0 reason token mobile_id)
    (msg_is (length buf) (stun_make_success_response STUN_METHOD_ALLOCATE) STUN_MAGIC_COOKIE (reply_tid rnd tid)
       (allocate_response_attrs ms (reply_tid rnd tid) relayed1 relayed2 reflexive lifetime max_lifetime token mobile_id))"
proof -
  obtain b l where b: "stun_init_success_response_str rnd STUN_METHOD_ALLOCATE buf tid = (b, l)" by fastforce
  let ?tid = "reply_tid rnd tid"
  have N: "160 \<le> length buf" using assms(1) by simp
  have i: "msg_is (length buf) (stun_make_success_response STUN_METHOD_ALLOCATE) STUN_MAGIC_COOKIE ?tid [] b l"
    by (rule init_success_response [OF _ assms(3,4) b]) (use N in simp)
  have lt: "(if lifetime < 1 then STUN_DEFAULT_ALLOCATE_LIFETIME
      else if lifetime > max_lifetime then max_lifetime else lifetime) =
      (if lifetime = 0 then 600 else min lifetime max_lifetime)"
    by (auto simp: word_less_nat_alt unsigned_eq_0_iff stun_consts min_def word_le_nat_alt)
  have be: "bytes_le 4 (nswap32 w) = be32 w" "bytes_le 8 (nswap64 v) = rev (bytes_le 8 v)" for w v
    by (simp_all add: be32_def)
  have t12: "length ?tid = 12" using assms(3,4) by (cases tid) (auto simp: reply_tid_def)
  have sp: "attrs_space (addr_attr ms ?tid t oa) \<le> 24" if "oa \<in> {relayed1, relayed2, reflexive}" for t oa
    using addr_attr_space [OF t12] assms(5) that by blast
  have cs: "c_str m = m" if "mobile_id = Some m" for m using assms(6) that by (simp add: c_str_id)
  have sn: "sendable ms a" if "relayed1 = Some a \<or> relayed2 = Some a \<or> reflexive = Some a" for a
    using assms(5) that by blast
  note addr = msg_ok_try_addr [OF _ assms(2), folded addr_attr_def]
    and r1 = sp [of relayed1 STUN_ATTRIBUTE_XOR_RELAYED_ADDRESS, simplified]
    and r2 = sp [of relayed2 STUN_ATTRIBUTE_XOR_RELAYED_ADDRESS, simplified]
    and r3 = sp [of reflexive STUN_ATTRIBUTE_XOR_MAPPED_ADDRESS, simplified]
  show ?thesis
    unfolding stun_set_allocate_response_str_def b Let_def prod.case lt be simp_thms if_True
    apply (rule addr [OF i], simp add: sn, use N in \<open>simp; fail\<close>)
    apply (rule addr, assumption, simp add: sn, use N r1 in \<open>simp; fail\<close>)
    apply (rule addr, assumption, simp add: sn, use N r1 r2 in \<open>simp; fail\<close>)
    apply (rule msg_ok_try_if(2) [OF _ assms(2)], assumption, simp, use N r1 r2 r3 in \<open>simp add: attr_space_def round4_def; fail\<close>)
    apply (rule msg_ok_try_add(1) [OF _ assms(2)], assumption, simp, use N r1 r2 r3 in \<open>simp add: attr_space_def round4_def; fail\<close>)
    subgoal premises m for b1 l1 b2 l2 b3 l3 b4 l4 b5 l5
    proof (cases mobile_id)
      case None
      with m(5) show ?thesis by (simp add: msg_try_def msg_ok_def allocate_response_attrs_def)
    next
      case (Some mid)
      show ?thesis unfolding Some option.case cs [OF Some]
        apply (rule msg_ok_try_if(1) [OF m(5) assms(2)], simp)
        using assms(1) Some r1 r2 r3 attr_space_le [of mid]
        subgoal by (simp add: attr_space_def [of "be32 _"] attr_space_def [of "rev _"] round4_def)
        by (rule msg_ok_ret) (simp add: allocate_response_attrs_def)
    qed
    done
qed

theorem allocate_response_message_witness:
  "msg_ok (stun_set_allocate_response_str (replicate 12 9) [] (replicate 200 0) (Some (replicate 12 5)) (Some (v4 1 2)) None
      (Some (v4 3 4)) 5000 3600 0 None 0 None)
    (msg_is 200 (stun_make_success_response STUN_METHOD_ALLOCATE) STUN_MAGIC_COOKIE (replicate 12 5)
       [(STUN_ATTRIBUTE_XOR_RELAYED_ADDRESS, addr_field [] (replicate 12 5) STUN_ATTRIBUTE_XOR_RELAYED_ADDRESS (v4 1 2)),
        (STUN_ATTRIBUTE_XOR_MAPPED_ADDRESS, addr_field [] (replicate 12 5) STUN_ATTRIBUTE_XOR_MAPPED_ADDRESS (v4 3 4)),
        (STUN_ATTRIBUTE_LIFETIME, be32 3600)])"
proof -
  have s: "sendable [] (v4 1 2)" "sendable [] (v4 3 4)"
    by (simp_all add: sendable_def ip_addr_def wf_addr_def v4_def)
  have m: "min 5000 3600 = (3600 :: u32)" by (simp add: min_def)
  show ?thesis
    using allocate_response_message [of None "replicate 200 0" "replicate 12 9" "Some (replicate 12 5)"
        "Some (v4 1 2)" None "Some (v4 3 4)" "[]" 5000 3600 None 0] s
    by (auto simp: allocate_response_attrs_def addr_attr_def reply_tid_def stun_consts m)
qed

section \<open>Reading an error response back\<close>

lemma read_read_bytes [simp]: "read_bytes (read_bytes v 0 k) 0 k = read_bytes v 0 k"
  by (rule nth_equalityI) (simp_all add: byte_at_def)

lemma add_str_prefix:
  "stun_attr_add_str buf len t (Some v) n = stun_attr_add_str buf len t (Some (read_bytes v 0 (nat n))) n"
  by (cases "n < 0") (simp_all add: stun_attr_add_str_def Let_def)

definition error_value :: "u8 \<Rightarrow> u8 \<Rightarrow> u8 \<Rightarrow> u8 list \<Rightarrow> u8 list" where
  "error_value b0 h r reason = (let text = take 508 (c_str reason) in
     [b0, 0, h, r] @ text @ replicate (round4 (length text) - length text) 0)"

lemma error_avalue_value:
  assumes "error_avalue b0 h r reason = (avalue, alen)"
  shows "alen = int (length (error_value b0 h r reason))"
    "read_bytes avalue 0 (nat alen) = error_value b0 h r reason"
    "length (error_value b0 h r reason) \<le> 512"
proof -
  define tx where "tx = take 508 (c_str reason)"
  have l: "length tx \<le> 508" by (simp add: tx_def)
  note rb = round4_bounds [of "length tx"]
  have al: "alen = int (4 + round4 (length tx))"
    using assms by (auto simp: error_avalue_def Let_def round4_def tx_def [symmetric] mod_add_eq)
      presburger+
  have av: "avalue = [b0, 0, h, r] @ tx @ replicate (509 - length tx) 0"
    using assms by (simp add: error_avalue_def Let_def tx_def)
  have v: "error_value b0 h r reason = [b0, 0, h, r] @ tx @ replicate (round4 (length tx) - length tx) 0"
    by (simp add: error_value_def Let_def tx_def)
  have r508: "round4 (length tx) \<le> 508" using l unfolding round4_def by presburger
  show "alen = int (length (error_value b0 h r reason))" using al v rb by simp
  show "length (error_value b0 h r reason) \<le> 512" using v rb r508 by simp
  show "read_bytes avalue 0 (nat alen) = error_value b0 h r reason"
    unfolding v al nat_int
    by (rule nth_equalityI) (use rb r508 in \<open>auto simp: byte_at_def av nth_append nth_Cons split: nat.splits\<close>)
qed

lemma attr_at_byte: "attr_at buf p = (t, v) \<Longrightarrow> i < length v \<Longrightarrow> byte_at buf (p + 4 + i) = v ! i"
  unfolding attr_at_def by (metis length_read_bytes nth_read_bytes prod.inject)

lemma attr_at_len: "attr_at buf p = (t, v) \<Longrightarrow> stun_attr_get_len buf (Some p) = int (length v)"
  unfolding attr_at_def get_len_alen by (metis length_read_bytes prod.inject)

lemma not_channel_type: "(t :: u16) AND 0xC000 = 0 \<Longrightarrow> \<not> STUN_VALID_CHANNEL t"
proof
  assume "t AND 0xC000 = 0" and "STUN_VALID_CHANNEL t"
  have "t = take_bit 14 t"
    using mask_14 [OF \<open>t AND 0xC000 = 0\<close>] by (simp add: take_bit_eq_mask mask_eq_exp_minus_1)
  then have "unat t < 2 ^ 14" by (metis unsigned_take_bit_eq take_bit_nat_less_exp)
  with \<open>STUN_VALID_CHANNEL t\<close> show False by (simp add: STUN_VALID_CHANNEL_def word_le_nat_alt)
qed

lemma msg_is_not_channel: "msg_is N ty ck tid as buf len \<Longrightarrow> ty AND 0xC000 = 0 \<Longrightarrow> \<not> is_channel_msg_str buf len"
  using not_channel_type by (auto simp: msg_is_def is_channel_msg_str_def)

lemma msg_is_type:
  "msg_is N ty ck tid as buf len \<Longrightarrow> stun_get_msg_type_str buf len = ty AND 0x3FFF"
  "msg_is N ty ck tid as buf len \<Longrightarrow> stun_get_method_str buf len = method_of_type ty"
  by (auto simp: msg_is_def stun_get_msg_type_str_def stun_get_method_str_def)

lemma msg_is_first:
  assumes "msg_is N ty ck tid as buf len" and "find (\<lambda>(t', v). t' = t) as = Some (t, v)"
  obtains p where "stun_attr_get_first_by_type_str buf len t = Some p" "attr_at buf p = (t, v)"
  using first_by_type_attrs [of buf len t] assms by (auto simp: msg_is_def)

definition error_reason :: "u16 \<Rightarrow> u8 list option \<Rightarrow> u8 list" where
  "error_reason code reason = (case reason of
      None \<Rightarrow> get_default_reason (int (unat code))
    | Some rs \<Rightarrow> if c_str rs = str_bytes ''Unknown error'' then get_default_reason (int (unat code)) else rs)"

lemma init_error_response:
  assumes "600 \<le> length buf" and "length buf < MAX_STUN_MESSAGE_SIZE" and "length rnd = 12"
    and "\<forall>t. tid = Some t \<longrightarrow> length t = 12"
    and "stun_init_error_response_str rnd m buf code reason tid = (buf', len)"
  shows "msg_is (length buf) (stun_make_error_response m) STUN_MAGIC_COOKIE (reply_tid rnd tid)
    [(STUN_ATTRIBUTE_ERROR_CODE, error_value 0 (ucast (code div 100)) (ucast (code mod 100)) (error_reason code reason))]
    buf' len"
proof -
  let ?v = "error_value 0 (ucast (code div 100)) (ucast (code mod 100)) (error_reason code reason)"
  obtain b l where b: "old_stun_init_command_str rnd (stun_make_error_response m) buf STUN_MAGIC_COOKIE = (b, l)"
    by fastforce
  have i: "msg_is (length buf) (stun_make_error_response m) STUN_MAGIC_COOKIE rnd [] b l"
    using old_init_command [OF _ assms(3) b] assms(1) by simp
  obtain av al where av: "error_avalue 0 (ucast (code div 100)) (ucast (code mod 100)) (error_reason code reason) = (av, al)"
    by fastforce
  note e = error_avalue_value [OF av]
  have "msg_ok (stun_attr_add_str b l STUN_ATTRIBUTE_ERROR_CODE (Some av) al)
      (msg_is (length buf) (stun_make_error_response m) STUN_MAGIC_COOKIE rnd [(STUN_ATTRIBUTE_ERROR_CODE, ?v)])"
    unfolding add_str_prefix [of _ _ _ av] e(2)
    using msg_ok_add [OF i _ assms(2) e(1), of STUN_ATTRIBUTE_ERROR_CODE] e(3) attr_space_le [of ?v] assms(1) by simp
  then obtain b' where a: "stun_attr_add_str b l STUN_ATTRIBUTE_ERROR_CODE (Some av) al = (0, b', len)"
      "msg_is (length buf) (stun_make_error_response m) STUN_MAGIC_COOKIE rnd [(STUN_ATTRIBUTE_ERROR_CODE, ?v)] b' len"
      "buf' = (if tid \<noteq> None then stun_tid_message_cpy b' tid else b')"
    using assms(5) b av
    by (auto simp: stun_init_error_response_str_def init_command_old stun_init_error_response_common_str_def
        error_reason_def [symmetric] Let_def msg_ok_def split: prod.splits)
  from a(2,3) msg_is_set_tid [OF a(2)] assms(1,4) show ?thesis
    by (cases tid) (auto simp: reply_tid_def)
qed

text \<open>
  \<^bold>\<open>C27\<close>: an error response is a well-formed error response of its method to the request's transaction;
  the reader recognises it and recovers the numeric error code, for every code below 25600.
\<close>

theorem error_response_roundtrip:
  assumes "600 \<le> length buf" and "length buf < MAX_STUN_MESSAGE_SIZE" and "length rnd = 12"
    and "\<forall>t. tid = Some t \<longrightarrow> length t = 12" and "unat code < 25600"
    and "stun_init_error_response_str rnd m buf code reason tid = (buf', len)"
  shows "wf_msg buf' len \<and> stun_get_method_str buf' len = m AND 0x0FFF \<and>
    stun_tid_from_message_str buf' len = reply_tid rnd tid \<and>
    stun_is_error_response_str buf' len (Some old) None 0 = (True, Some (int (unat code)), None)"
proof -
  note M = init_error_response [OF assms(1,2,3,4,6)]
  let ?v = "error_value 0 (ucast (code div 100)) (ucast (code mod 100)) (error_reason code reason)"
  obtain p where p: "stun_attr_get_first_by_type_str buf' len STUN_ATTRIBUTE_ERROR_CODE = Some p"
      "attr_at buf' p = (STUN_ATTRIBUTE_ERROR_CODE, ?v)"
    using msg_is_first [OF M, of STUN_ATTRIBUTE_ERROR_CODE ?v] by auto
  have lv: "4 \<le> length ?v" by (simp add: error_value_def Let_def)
  have "byte_at buf' (p + 4 + 2) = ucast (code div 100)" "byte_at buf' (p + 4 + 3) = ucast (code mod 100)"
    using attr_at_byte [OF p(2), of 2] attr_at_byte [OF p(2), of 3] lv
    by (simp_all add: error_value_def Let_def)
  moreover have "unat (ucast (code div 100) :: u8) = unat code div 100" "unat (ucast (code mod 100) :: u8) = unat code mod 100"
    using assms(5) by (simp_all add: unsigned_ucast_eq unat_div_distrib unat_mod_distrib take_bit_eq_mod)
  moreover have "int (unat code div 100) * 100 + int (unat code mod 100) = int (unat code)"
    using div_mult_mod_eq [of "unat code" 100] by linarith
  ultimately have "int (unat (byte_at buf' (p + 4 + 2))) * 100 + int (unat (byte_at buf' (p + 4 + 3))) = int (unat code)"
    by (simp only:)
  then have "stun_is_error_response_str buf' len (Some old) None 0 = (True, Some (int (unat code)), None)"
    using msg_is_not_channel [OF M] msg_is_type(1) [OF M] p attr_at_len [OF p(2)] lv
    by (simp add: stun_is_error_response_str_def Let_def IS_STUN_ERR_RESP_def)
  moreover have "stun_get_method_str buf' len = m AND 0x0FFF" using msg_is_type(2) [OF M] by simp
  ultimately show ?thesis using M by (auto simp: msg_is_def stun_tid_from_message_str_def STUN_TID_SIZE)
qed

theorem error_response_roundtrip_witness:
  "case stun_init_error_response_str (replicate 12 9) STUN_METHOD_REFRESH (replicate 600 0) 437 None (Some (replicate 12 5)) of
     (buf, len) \<Rightarrow> wf_msg buf len \<and> stun_get_method_str buf len = STUN_METHOD_REFRESH \<and>
       stun_tid_from_message_str buf len = replicate 12 5 \<and>
       stun_is_error_response_str buf len (Some 0) None 0 = (True, Some 437, None)"
proof -
  obtain buf len where b: "stun_init_error_response_str (replicate 12 9) STUN_METHOD_REFRESH (replicate 600 0) 437 None
      (Some (replicate 12 5)) = (buf, len)" by fastforce
  from error_response_roundtrip [OF _ _ _ _ _ b, of 0] show ?thesis
    unfolding b prod.case by (simp add: stun_consts reply_tid_def)
qed

lemma default_reason_text: "c_str (get_default_reason c) \<noteq> []"
  by (simp add: get_default_reason_def str_bytes_def c_str_def)

text \<open>
  The reader of ADDRESS-ERROR-CODE wants a value of exactly four bytes, and the writer always
  appends a reason text: what \<^verbatim>\<open>stun_attr_add_address_error_code\<close> writes is never read back.
\<close>

theorem address_error_code_unreadable:
  assumes "msg_is N ty ck tid as buf len" and "find (\<lambda>(t', v). t' = STUN_ATTRIBUTE_ADDRESS_ERROR_CODE) as = None"
    and "len + 600 \<le> N" and "N < MAX_STUN_MESSAGE_SIZE"
    and "stun_attr_add_address_error_code buf len family code = (r, buf', len')"
  shows "r = 0 \<and> wf_msg buf' len' \<and> stun_attr_get_address_error_code buf' len' = (-1, 0, 0)"
proof -
  let ?t = STUN_ATTRIBUTE_ADDRESS_ERROR_CODE
  obtain av al where av: "error_avalue (of_int family) (of_int (code sdiv 100)) (of_int (code smod 100))
      (get_default_reason code) = (av, al)" by fastforce
  let ?v = "error_value (of_int family) (of_int (code sdiv 100)) (of_int (code smod 100)) (get_default_reason code)"
  note e = error_avalue_value [OF av]
  have "msg_ok (stun_attr_add_str buf len ?t (Some av) al) (msg_is N ty ck tid (as @ [(?t, ?v)]))"
    unfolding add_str_prefix [of _ _ _ av] e(2)
    using msg_ok_add [OF assms(1) _ assms(4) e(1), of ?t] e(3) attr_space_le [of ?v] assms(1,3)
    by (simp add: msg_is_def)
  then have r: "r = 0" and M: "msg_is N ty ck tid (as @ [(?t, ?v)]) buf' len'"
    using assms(5) av by (auto simp: stun_attr_add_address_error_code_def Let_def msg_ok_def split: prod.splits)
  have "find (\<lambda>(t', v). t' = ?t) (as @ [(?t, ?v)]) = Some (?t, ?v)"
    using assms(2) by (induction as) (auto split: if_splits)
  then obtain p where p: "stun_attr_get_first_by_type_str buf' len' ?t = Some p" "attr_at buf' p = (?t, ?v)"
    by (rule msg_is_first [OF M])
  have "4 < length ?v" using default_reason_text [of code] by (simp add: error_value_def Let_def)
  with p attr_at_len [OF p(2)] M r show ?thesis
    by (auto simp: stun_attr_get_address_error_code_def get_value_eq get_len_alen msg_is_def)
qed

theorem address_error_code_unreadable_witness:
  "case stun_init_success_response_str (replicate 12 9) STUN_METHOD_ALLOCATE (replicate 700 0) None of (buf, len) \<Rightarrow>
     case stun_attr_add_address_error_code buf len 2 440 of (r, buf', len') \<Rightarrow>
       r = 0 \<and> stun_attr_get_address_error_code buf' len' = (-1, 0, 0)"
proof -
  obtain buf len where b: "stun_init_success_response_str (replicate 12 9) STUN_METHOD_ALLOCATE (replicate 700 0) None = (buf, len)"
    by fastforce
  have M: "msg_is 700 (stun_make_success_response STUN_METHOD_ALLOCATE) STUN_MAGIC_COOKIE (replicate 12 9) [] buf len"
    using init_success_response [OF _ _ _ b] by (simp add: reply_tid_def)
  obtain r buf' len' where a: "stun_attr_add_address_error_code buf len 2 440 = (r, buf', len')"
    by (rule prod_cases3)
  have "len = 20" using M by (simp add: msg_is_def)
  with address_error_code_unreadable [OF M _ _ _ a] show ?thesis
    unfolding b prod.case a by (simp add: stun_consts)
qed

end
