(* ===== verification/Stun_Crc.thy ===== *)
theory Stun_Crc
  imports Stun_Build
begin

text \<open>
  Model of the checksum and fingerprint part of \<^verbatim>\<open>src/coturn/src/client/ns_turn_msg.c\<close>: the table-driven
  CRC-32, \<^verbatim>\<open>stun_attr_add_fingerprint_str\<close> and \<^verbatim>\<open>stun_is_command_message_full_check_str\<close>. The table is
  compared with the bit-by-bit generator that the code keeps in a comment (\<^verbatim>\<open>make_crctable\<close>), and the
  table-driven loop with bit-by-bit division, from which its error detection follows.
\<close>

section \<open>The checksum\<close>

definition crctable :: "u32 list" where
  "crctable =
    [0x00000000, 0x77073096, 0xee0e612c, 0x990951ba, 0x076dc419, 0x706af48f, 0xe963a535, 0x9e6495a3,
     0x0edb8832, 0x79dcb8a4, 0xe0d5e91e, 0x97d2d988, 0x09b64c2b, 0x7eb17cbd, 0xe7b82d07, 0x90bf1d91,
     0x1db71064, 0x6ab020f2, 0xf3b97148, 0x84be41de, 0x1adad47d, 0x6ddde4eb, 0xf4d4b551, 0x83d385c7,
     0x136c9856, 0x646ba8c0, 0xfd62f97a, 0x8a65c9ec, 0x14015c4f, 0x63066cd9, 0xfa0f3d63, 0x8d080df5,
     0x3b6e20c8, 0x4c69105e, 0xd56041e4, 0xa2677172, 0x3c03e4d1, 0x4b04d447, 0xd20d85fd, 0xa50ab56b,
     0x35b5a8fa, 0x42b2986c, 0xdbbbc9d6, 0xacbcf940, 0x32d86ce3, 0x45df5c75, 0xdcd60dcf, 0xabd13d59,
     0x26d930ac, 0x51de003a, 0xc8d75180, 0xbfd06116, 0x21b4f4b5, 0x56b3c423, 0xcfba9599, 0xb8bda50f,
     0x2802b89e, 0x5f058808, 0xc60cd9b2, 0xb10be924, 0x2f6f7c87, 0x58684c11, 0xc1611dab, 0xb6662d3d,
     0x76dc4190, 0x01db7106, 0x98d220bc, 0xefd5102a, 0x71b18589, 0x06b6b51f, 0x9fbfe4a5, 0xe8b8d433,
     0x7807c9a2, 0x0f00f934, 0x9609a88e, 0xe10e9818, 0x7f6a0dbb, 0x086d3d2d, 0x91646c97, 0xe6635c01,
     0x6b6b51f4, 0x1c6c6162, 0x856530d8, 0xf262004e, 0x6c0695ed, 0x1b01a57b, 0x8208f4c1, 0xf50fc457,
     0x65b0d9c6, 0x12b7e950, 0x8bbeb8ea, 0xfcb9887c, 0x62dd1ddf, 0x15da2d49, 0x8cd37cf3, 0xfbd44c65,
     0x4db26158, 0x3ab551ce, 0xa3bc0074, 0xd4bb30e2, 0x4adfa541, 0x3dd895d7, 0xa4d1c46d, 0xd3d6f4fb,
     0x4369e96a, 0x346ed9fc, 0xad678846, 0xda60b8d0, 0x44042d73, 0x33031de5, 0xaa0a4c5f, 0xdd0d7cc9,
     0x5005713c, 0x270241aa, 0xbe0b1010, 0xc90c2086, 0x5768b525, 0x206f85b3, 0xb966d409, 0xce61e49f,
     0x5edef90e, 0x29d9c998, 0xb0d09822, 0xc7d7a8b4, 0x59b33d17, 0x2eb40d81, 0xb7bd5c3b, 0xc0ba6cad,
     0xedb88320, 0x9abfb3b6, 0x03b6e20c, 0x74b1d29a, 0xead54739, 0x9dd277af, 0x04db2615, 0x73dc1683,
     0xe3630b12, 0x94643b84, 0x0d6d6a3e, 0x7a6a5aa8, 0xe40ecf0b, 0x9309ff9d, 0x0a00ae27, 0x7d079eb1,
     0xf00f9344, 0x8708a3d2, 0x1e01f268, 0x6906c2fe, 0xf762575d, 0x806567cb, 0x196c3671, 0x6e6b06e7,
     0xfed41b76, 0x89d32be0, 0x10da7a5a, 0x67dd4acc, 0xf9b9df6f, 0x8ebeeff9, 0x17b7be43, 0x60b08ed5,
     0xd6d6a3e8, 0xa1d1937e, 0x38d8c2c4, 0x4fdff252, 0xd1bb67f1, 0xa6bc5767, 0x3fb506dd, 0x48b2364b,
     0xd80d2bda, 0xaf0a1b4c, 0x36034af6, 0x41047a60, 0xdf60efc3, 0xa867df55, 0x316e8eef, 0x4669be79,
     0xcb61b38c, 0xbc66831a, 0x256fd2a0, 0x5268e236, 0xcc0c7795, 0xbb0b4703, 0x220216b9, 0x5505262f,
     0xc5ba3bbe, 0xb2bd0b28, 0x2bb45a92, 0x5cb36a04, 0xc2d7ffa7, 0xb5d0cf31, 0x2cd99e8b, 0x5bdeae1d,
     0x9b64c2b0, 0xec63f226, 0x756aa39c, 0x026d930a, 0x9c0906a9, 0xeb0e363f, 0x72076785, 0x05005713,
     0x95bf4a82, 0xe2b87a14, 0x7bb12bae, 0x0cb61b38, 0x92d28e9b, 0xe5d5be0d, 0x7cdcefb7, 0x0bdbdf21,
     0x86d3d2d4, 0xf1d4e242, 0x68ddb3f8, 0x1fda836e, 0x81be16cd, 0xf6b9265b, 0x6fb077e1, 0x18b74777,
     0x88085ae6, 0xff0f6a70, 0x66063bca, 0x11010b5c, 0x8f659eff, 0xf862ae69, 0x616bffd3, 0x166ccf45,
     0xa00ae278, 0xd70dd2ee, 0x4e048354, 0x3903b3c2, 0xa7672661, 0xd06016f7, 0x4969474d, 0x3e6e77db,
     0xaed16a4a, 0xd9d65adc, 0x40df0b66, 0x37d83bf0, 0xa9bcae53, 0xdebb9ec5, 0x47b2cf7f, 0x30b5ffe9,
     0xbdbdf21c, 0xcabac28a, 0x53b39330, 0x24b4a3a6, 0xbad03605, 0xcdd70693, 0x54de5729, 0x23d967bf,
     0xb3667a2e, 0xc4614ab8, 0x5d681b02, 0x2a6f2b94, 0xb40bbe37, 0xc30c8ea1, 0x5a05df1b, 0x2d02ef8d]"

definition UPDATE_CRC :: "u32 \<Rightarrow> u8 \<Rightarrow> u32" where
  "UPDATE_CRC crc c = crctable ! unat (ucast crc XOR c) XOR drop_bit 8 crc"

text \<open>\<^verbatim>\<open>while ( len-- ) UPDATE_CRC( crc, *buffer++ );\<close>\<close>

fun crc_loop :: "u32 \<Rightarrow> u8 list \<Rightarrow> u32" where
  "crc_loop crc [] = crc"
| "crc_loop crc (c # cs) = crc_loop (UPDATE_CRC crc c) cs"

definition ns_crc32 :: "u8 list \<Rightarrow> u32 \<Rightarrow> u32" where
  "ns_crc32 buffer len = NOT (crc_loop 0xFFFFFFFF (read_bytes buffer 0 (unat len)))"

definition stun_attr_add_fingerprint_str :: "u8 list \<Rightarrow> nat \<Rightarrow> msg_result" where
  "stun_attr_add_fingerprint_str buf len =
     (case stun_attr_add_str buf len STUN_ATTRIBUTE_FINGERPRINT (Some (bytes_le 4 (0 :: u32))) 4 of
        (_, buf, len) \<Rightarrow>
          (let crc32 = ns_crc32 buf (of_int (int len - 8))
           in (0, put_bytes_at buf (int len - 4) (bytes_le 4 (nswap32 (crc32 XOR 0x5354554e))), len)))"

text \<open>Result and \<^verbatim>\<open>*fingerprint_present\<close>, \<open>None\<close> when the pointer is \<open>NULL\<close>.\<close>

definition stun_is_command_message_full_check_str ::
  "u8 list \<Rightarrow> nat \<Rightarrow> bool \<Rightarrow> bool option \<Rightarrow> bool \<times> bool option" where
  "stun_is_command_message_full_check_str buf blen must_check_fingerprint fingerprint_present =
     (if \<not> stun_is_command_message_str buf blen then (False, fingerprint_present)
      else case stun_attr_get_first_by_type_str buf blen STUN_ATTRIBUTE_FINGERPRINT of
        None \<Rightarrow>
          (let present = map_option (\<lambda>_. False) fingerprint_present in
           if stun_get_method_str buf blen = STUN_METHOD_BINDING then (True, present)
           else (\<not> must_check_fingerprint, present))
      | Some sar \<Rightarrow>
          (if stun_attr_get_len buf (Some sar) \<noteq> 4 then (False, fingerprint_present)
           else case stun_attr_get_value buf (Some sar) of
             None \<Rightarrow> (\<not> must_check_fingerprint, fingerprint_present)
           | Some fingerprint \<Rightarrow>
               (let crc32len = of_nat (fingerprint - 4) :: u32;
                    ret = (ld32 buf fingerprint = nswap32 (ns_crc32 buf crc32len XOR 0x5354554e))
                in (ret, if ret then map_option (\<lambda>_. ret) fingerprint_present else fingerprint_present))))"

section \<open>Bit by bit\<close>

text \<open>One bit of the division, and the table as the comment in the code generates it.\<close>

definition crc_step :: "u32 \<Rightarrow> u32" where
  "crc_step r = (if bit r 0 then drop_bit 1 r XOR 0xEDB88320 else drop_bit 1 r)"

definition crc_bitwise :: "u32 \<Rightarrow> u8 \<Rightarrow> u32" where
  "crc_bitwise crc c = (crc_step ^^ 8) (crc XOR ucast c)"

definition make_crctable :: "u32 list" where
  "make_crctable = map (\<lambda>i. (crc_step ^^ 8) (of_nat i)) [0..<256]"

text \<open>The division is linear, so the table of \<open>2 * n\<close> entries is the one of \<open>n\<close> entries and its translate.\<close>

definition crc_dbl :: "u32 \<Rightarrow> u32 list \<Rightarrow> u32 list" where
  "crc_dbl b xs = xs @ map ((XOR) b) xs"

lemma crc_step_xor: "crc_step (v XOR w) = crc_step v XOR crc_step w"
proof -
  have d: "drop_bit 1 (v XOR w) = drop_bit 1 v XOR drop_bit 1 w" by (rule drop_bit_xor)
  show ?thesis unfolding crc_step_def d bit_xor_iff
    by (cases "bit v 0"; cases "bit w 0") (simp_all add: ac_simps)
qed

lemma crc_steps_xor: "(crc_step ^^ n) (v XOR w) = (crc_step ^^ n) v XOR (crc_step ^^ n) w"
  by (induction n) (simp_all add: crc_step_xor)

lemma of_nat_add_xor:
  assumes "i < 2 ^ k"
  shows "(of_nat (2 ^ k + i) :: u32) = 2 ^ k XOR of_nat i"
proof -
  have "\<not> bit i k"
    using take_bit_nat_eq_self [OF assms] bit_take_bit_iff [of k i k] by simp
  then have "(2 ^ k :: u32) AND of_nat i = 0"
    by (intro bit_word_eqI) (auto simp: bit_simps)
  then show ?thesis using disjunctive_add_eq_xor [of "2 ^ k :: u32" "of_nat i"] by simp
qed

definition crc_row :: "nat \<Rightarrow> u32 list" where
  "crc_row k = map (\<lambda>i. (crc_step ^^ 8) (of_nat i)) [0..<2 ^ k]"

lemma crc_row_Suc: "crc_row (Suc k) = crc_dbl ((crc_step ^^ 8) (2 ^ k)) (crc_row k)"
proof -
  have "[0..<2 ^ Suc k] = [0..<2 ^ k] @ map (\<lambda>i. i + 2 ^ k) [0..<2 ^ k]"
    using upt_add_eq_append [of 0 "2 ^ k" "2 ^ k"] unfolding map_add_upt by (simp add: mult_2)
  moreover have "(crc_step ^^ 8) (of_nat (i + 2 ^ k)) = (crc_step ^^ 8) (2 ^ k) XOR (crc_step ^^ 8) (of_nat i)"
    if "i < 2 ^ k" for i
    unfolding add.commute [of i] of_nat_add_xor [OF that] crc_steps_xor ..
  ultimately show ?thesis unfolding crc_row_def crc_dbl_def by (simp del: upt_Suc of_nat_add)
qed

lemma funpow8: "(f ^^ 8) x = f (f (f (f (f (f (f (f x)))))))"
  by (simp add: numeral_eq_Suc)

lemma crc_steps_0: "(crc_step ^^ n) 0 = 0"
  by (induction n) (simp_all add: crc_step_def)

lemma crc_basis:
  "(crc_step ^^ 8) (2 ^ 0) = 0x77073096"
  "(crc_step ^^ 8) (2 ^ 1) = 0xee0e612c"
  "(crc_step ^^ 8) (2 ^ 2) = 0x076dc419"
  "(crc_step ^^ 8) (2 ^ 3) = 0x0edb8832"
  "(crc_step ^^ 8) (2 ^ 4) = 0x1db71064"
  "(crc_step ^^ 8) (2 ^ 5) = 0x3b6e20c8"
  "(crc_step ^^ 8) (2 ^ 6) = 0x76dc4190"
  "(crc_step ^^ 8) (2 ^ 7) = 0xedb88320"
  unfolding funpow8 by (simp_all add: crc_step_def)

lemma crctable_rows:
  "crctable = crc_dbl 0xedb88320 (crc_dbl 0x76dc4190 (crc_dbl 0x3b6e20c8 (crc_dbl 0x1db71064 (crc_dbl 0x0edb8832 (crc_dbl 0x076dc419 (crc_dbl 0xee0e612c (crc_dbl 0x77073096 [0])))))))"
  unfolding crctable_def crc_dbl_def by simp

lemma crctable_generated: "crctable = make_crctable"
proof -
  have "make_crctable = crc_row 8" by (simp add: make_crctable_def crc_row_def)
  also have "\<dots> = crctable"
  proof -
    have "crc_row 1 = crc_dbl ((crc_step ^^ 8) (2 ^ 0)) (crc_row 0)" "crc_row 2 = crc_dbl ((crc_step ^^ 8) (2 ^ 1)) (crc_row 1)"
      using crc_row_Suc [of 0] crc_row_Suc [of 1] by (simp_all only: One_nat_def numeral_2_eq_2)
    moreover have "crc_row 0 = [0]" by (simp add: crc_row_def crc_steps_0)
    ultimately show ?thesis
      using crc_row_Suc [of 7] crc_row_Suc [of 6] crc_row_Suc [of 5] crc_row_Suc [of 4] crc_row_Suc [of 3]
        crc_row_Suc [of 2]
      unfolding crctable_rows by (simp add: crc_basis [simplified] del: One_nat_def)
  qed
  finally show ?thesis ..
qed

lemma crctable_nth: "i < 256 \<Longrightarrow> crctable ! i = (crc_step ^^ 8) (of_nat i)"
  unfolding crctable_generated make_crctable_def by simp

lemma crc_steps_shift: "(\<And>i. i < n \<Longrightarrow> \<not> bit w i) \<Longrightarrow> (crc_step ^^ n) w = drop_bit n w"
proof (induction n arbitrary: w)
  case (Suc n)
  have "\<not> bit w 0" using Suc.prems by simp
  then have "crc_step w = drop_bit 1 w" by (simp add: crc_step_def)
  moreover have "(crc_step ^^ n) (drop_bit 1 w) = drop_bit n (drop_bit 1 w)"
    by (rule Suc.IH) (use Suc.prems in \<open>auto simp: bit_drop_bit_eq\<close>)
  ultimately show ?case by (simp add: funpow_swap1 del: funpow.simps(2) add: funpow_Suc_right)
qed simp

lemma UPDATE_CRC_bitwise: "UPDATE_CRC crc c = crc_bitwise crc c"
proof -
  let ?x = "crc XOR ucast c" and ?lo = "ucast (ucast crc XOR c) :: u32"
  have c8: "bit c n \<Longrightarrow> n < 8" for n using bit_imp_le_length [of c n] by simp
  have lo: "?lo = take_bit 8 ?x"
    by (rule bit_word_eqI) (auto simp: bit_simps dest: c8)
  have split: "?x = ?lo XOR push_bit 8 (drop_bit 8 crc)"
    unfolding lo
  proof (rule bit_word_eqI)
    fix n assume n: "n < LENGTH(32)"
    show "bit ?x n = bit (take_bit 8 ?x XOR push_bit 8 (drop_bit 8 crc)) n"
      using n c8 [of n] by (cases "n < 8") (auto simp: bit_simps)
  qed
  have "(crc_step ^^ 8) ?x = (crc_step ^^ 8) ?lo XOR drop_bit 8 (push_bit 8 (drop_bit 8 crc))"
    unfolding split crc_steps_xor by (subst crc_steps_shift [of 8 "push_bit 8 _"]) (auto simp: bit_simps)
  also have "drop_bit 8 (push_bit 8 (drop_bit 8 crc)) = drop_bit 8 crc"
    by (rule bit_word_eqI) (auto simp: bit_simps dest: bit_imp_le_length)
  also have "(crc_step ^^ 8) ?lo = crctable ! unat (ucast crc XOR c)"
    using crctable_nth [of "unat (ucast crc XOR c)"] unat_8_less by (simp add: of_nat_unat)
  finally show ?thesis by (simp add: UPDATE_CRC_def crc_bitwise_def)
qed

lemma crc_loop_append: "crc_loop crc (xs @ ys) = crc_loop (crc_loop crc xs) ys"
  by (induction xs arbitrary: crc) simp_all

lemma crc_step_0D: "crc_step w = 0 \<Longrightarrow> w = 0"
proof (cases "bit w 0")
  case True
  assume "crc_step w = 0"
  then have "drop_bit 1 w XOR 0xEDB88320 = 0" using True by (simp add: crc_step_def)
  then have "drop_bit 1 w = 0xEDB88320" 
    using xor.assoc [of "drop_bit 1 w" "0xEDB88320" "0xEDB88320"] by simp
  then have "bit (drop_bit 1 w) 31 = bit (0xEDB88320 :: u32) 31" by simp
  then show ?thesis using bit_imp_le_length [of w 32] by (simp add: bit_drop_bit_eq)
next
  case False
  assume "crc_step w = 0"
  then have "drop_bit 1 w = 0" using False by (simp add: crc_step_def)
  then have "\<not> bit (drop_bit 1 w) n" for n by simp
  then have "\<not> bit w (Suc n)" for n by (simp add: bit_drop_bit_eq)
  with False have "\<not> bit w n" for n by (cases n) simp_all
  then show ?thesis by (intro bit_word_eqI) simp
qed

lemma crc_steps_0D: "(crc_step ^^ n) w = 0 \<Longrightarrow> w = 0"
  by (induction n) (auto dest: crc_step_0D)

lemma crc_steps_inj: "(crc_step ^^ n) v = (crc_step ^^ n) w \<Longrightarrow> v = w"
proof -
  assume "(crc_step ^^ n) v = (crc_step ^^ n) w"
  then have "(crc_step ^^ n) (v XOR w) = 0" unfolding crc_steps_xor by simp
  then have "v XOR w = 0" by (rule crc_steps_0D)
  then show ?thesis using xor.assoc [of v w w] by simp
qed

lemma xor_cancel: "v XOR x = w XOR x \<Longrightarrow> v = w" for v w x :: u32
proof -
  assume "v XOR x = w XOR x"
  then have "(v XOR x) XOR x = (w XOR x) XOR x" by (rule arg_cong)
  then show ?thesis unfolding xor.assoc by simp
qed

lemma UPDATE_CRC_inj_state: "UPDATE_CRC v c = UPDATE_CRC w c \<Longrightarrow> v = w"
  unfolding UPDATE_CRC_bitwise crc_bitwise_def by (drule crc_steps_inj) (rule xor_cancel)

lemma UPDATE_CRC_inj_byte: "UPDATE_CRC v c = UPDATE_CRC v d \<Longrightarrow> c = d"
proof -
  assume "UPDATE_CRC v c = UPDATE_CRC v d"
  then have "v XOR ucast c = v XOR ucast d"
    unfolding UPDATE_CRC_bitwise crc_bitwise_def by (rule crc_steps_inj)
  then have "(ucast c :: u32) = ucast d" unfolding xor.commute [of v] by (rule xor_cancel)
  then have "(ucast (ucast c :: u32) :: u8) = ucast (ucast d :: u32)" by (rule arg_cong)
  moreover have "(ucast (ucast x :: u32) :: u8) = x" for x :: u8
    by (rule bit_word_eqI) (simp add: bit_simps)
  ultimately show ?thesis by metis
qed

lemma crc_loop_inj: "crc_loop v xs = crc_loop w xs \<Longrightarrow> v = w"
  by (induction xs arbitrary: v w) (auto dest: UPDATE_CRC_inj_state)

lemma crc_loop_foldl: "crc_loop crc cs = foldl crc_bitwise crc cs"
  by (induction cs arbitrary: crc) (simp_all add: UPDATE_CRC_bitwise)

text \<open>
  \<^bold>\<open>C19\<close>: the constant table of the code is the one its commented-out generator computes, and the
  table-driven checksum of every buffer is the bit-by-bit one.
\<close>

theorem crc_table_correct:
  "crctable = make_crctable \<and>
   ns_crc32 buf n = NOT (foldl crc_bitwise 0xFFFFFFFF (read_bytes buf 0 (unat n)))"
  by (simp add: crctable_generated ns_crc32_def crc_loop_foldl)

text \<open>
  \<^bold>\<open>C20\<close>: the checksum detects every corruption of a single byte of the checked data.
\<close>

theorem crc_detects_byte:
  assumes "i < unat n" and "i < length buf" and "byte_at buf i \<noteq> b"
  shows "ns_crc32 (put_bytes buf i [b]) n \<noteq> ns_crc32 buf n"
proof
  let ?m = "put_bytes buf i [b]" and ?n = "unat n"
  assume "ns_crc32 ?m n = ns_crc32 buf n"
  then have eq: "crc_loop 0xFFFFFFFF (read_bytes ?m 0 ?n) = crc_loop 0xFFFFFFFF (read_bytes buf 0 ?n)"
    by (simp add: ns_crc32_def)
  have sp: "read_bytes x 0 ?n = read_bytes x 0 i @ byte_at x i # read_bytes x (Suc i) (?n - Suc i)" for x
    using read_bytes_add [of x 0 i "1 + (?n - Suc i)"] read_bytes_add [of x i 1 "?n - Suc i"] assms(1)
    by (simp add: read_bytes_def [of x i])
  have same: "read_bytes ?m 0 i = read_bytes buf 0 i"
    "read_bytes ?m (Suc i) (?n - Suc i) = read_bytes buf (Suc i) (?n - Suc i)"
    by (simp_all add: mem_simps)
  have b: "byte_at ?m i = b" using assms(2) by (simp add: mem_simps)
  from eq have "UPDATE_CRC (crc_loop 0xFFFFFFFF (read_bytes buf 0 i)) b =
      UPDATE_CRC (crc_loop 0xFFFFFFFF (read_bytes buf 0 i)) (byte_at buf i)"
    unfolding sp same b crc_loop_append crc_loop.simps by (rule crc_loop_inj)
  then show False using UPDATE_CRC_inj_byte assms(3) by blast
qed

theorem crc_detects_byte_witness:
  "ns_crc32 (put_bytes [1, 2, 3, 4] 2 [9]) 4 \<noteq> ns_crc32 [1, 2, 3, 4] 4"
  by (rule crc_detects_byte) (simp_all add: byte_at_def)

section \<open>Fingerprints\<close>

lemma byte_at_eqI: "length m = length n \<Longrightarrow> (\<And>i. byte_at m i = byte_at n i) \<Longrightarrow> m = n"
  by (rule nth_equalityI) (simp, metis byte_at_def)

lemma put_put_same: "length v = length w \<Longrightarrow> put_bytes (put_bytes m i v) i w = put_bytes m i w"
  by (rule byte_at_eqI) (auto simp: mem_simps)

lemma added_agree_header:
  "2 \<le> len \<Longrightarrow> agree 0 len (added buf len t v) (put_bytes buf 2 (bytes_le 2 (nswap16 (of_nat (len + attr_space v - 20)))))"
  unfolding added_def by (intro agree_trans [OF agree_put] agree_put; simp)

lemma msg_is_byte0:
  assumes "nswap16 (ld16 buf 0) = ty" and "ty AND 0xC000 = 0"
  shows "byte_at buf 0 AND 0xC0 = 0"
proof -
  have "bytes_le 2 (ld16 buf 0) = read_bytes buf 0 2" unfolding ld16_def by (rule bytes_le_word_le) simp_all
  then have "read_bytes buf 0 2 = rev (bytes_le 2 ty)" using assms(1) bytes_nswap16 [of "ld16 buf 0"] by auto
  then have b: "byte_at buf 0 = ucast (drop_bit 8 ty)"
    by (simp add: bytes_le_2 read_bytes_def upt_rec)
  have "(ucast (drop_bit 8 ty) :: u8) AND 0xC0 = ucast (drop_bit 8 (ty AND 0xC000))"
    by (simp add: drop_bit_and unsigned_and_eq)
  then show ?thesis using assms(2) b by simp
qed

lemma msg_is_command:
  assumes "msg_is N ty STUN_MAGIC_COOKIE tid as buf len" and "ty AND 0xC000 = 0"
  shows "stun_is_command_message_str buf len"
proof -
  have wf: "wf_msg buf len" and ty: "nswap16 (ld16 buf 0) = ty" and ck: "nswap32 (ld32 buf 4) = STUN_MAGIC_COOKIE"
    using assms(1) by (auto simp: msg_is_def)
  note l = wf_msg_ge [OF wf] and d = wf_msg_dvd [OF wf]
  have "unat (nswap16 (ld16 buf 2)) + 20 = len"
    using wf l by (auto simp: wf_msg_def stun_get_command_message_len_str_def STUN_HEADER_LENGTH Let_def split: if_splits)
  moreover from this have "4 dvd unat (nswap16 (ld16 buf 2))" using d by presburger
  ultimately show ?thesis
    using l ty ck not_channel_type [OF assms(2)] msg_is_byte0 [OF ty assms(2)] by (simp add: command_message_unfold)
qed

lemma add_fingerprint_eq:
  assumes M: "msg_is N ty ck tid as buf len" and room: "len + 8 \<le> N" and max: "N < MAX_STUN_MESSAGE_SIZE"
  shows "stun_attr_add_fingerprint_str buf len =
    (0, added buf len STUN_ATTRIBUTE_FINGERPRINT (be32 (ns_crc32 (added buf len STUN_ATTRIBUTE_FINGERPRINT (be32 0)) (of_nat len) XOR 0x5354554e)),
     len + 8)"
proof -
  have wf: "wf_msg buf len" using M by (auto simp: msg_is_def)
  have z: "bytes_le 4 (0 :: u32) = be32 0" by (simp add: be32_def bytes_le_4)
  have sp: "attr_space (be32 w) = 8" for w by (simp add: attr_space_def round4_def)
  have a: "stun_attr_add_str buf len STUN_ATTRIBUTE_FINGERPRINT (Some (bytes_le 4 (0 :: u32))) 4 =
      (0, added buf len STUN_ATTRIBUTE_FINGERPRINT (be32 0), len + 8)"
    using add_str_eq [OF wf, of STUN_ATTRIBUTE_FINGERPRINT "be32 0"] room max by (simp add: z sp)
  have o: "int (len + 8) - 8 = int len" "int (len + 8) - 4 = int (len + 4)" by simp_all
  have be: "bytes_le 4 (nswap32 w) = be32 w" for w by (simp add: be32_def)
  have "put_bytes (added buf len t (be32 0)) (len + 4) (be32 w) = added buf len t (be32 w)" for t w
    unfolding added_def by (subst put_put_same) (simp_all add: sp)
  then show ?thesis
    unfolding stun_attr_add_fingerprint_str_def a prod.case Let_def o put_bytes_at_nat be of_int_of_nat_eq by simp
qed

text \<open>
  \<^bold>\<open>C18\<close>: a message completed with \<^verbatim>\<open>stun_attr_add_fingerprint_str\<close> passes the full check, whether or not a
  fingerprint is demanded, and the check reports the fingerprint as present.
\<close>

theorem fingerprint_roundtrip:
  assumes M: "msg_is N ty STUN_MAGIC_COOKIE tid as buf len" and ty: "ty AND 0xC000 = 0"
    and fresh: "find (\<lambda>(t', v). t' = STUN_ATTRIBUTE_FINGERPRINT) as = None"
    and room: "len + 8 \<le> N" and max: "N < MAX_STUN_MESSAGE_SIZE"
    and add: "stun_attr_add_fingerprint_str buf len = (r, buf', len')"
  shows "r = 0 \<and> len' = len + 8 \<and>
    stun_is_command_message_full_check_str buf' len' must_check (Some present) = (True, Some True)"
proof -
  let ?t = STUN_ATTRIBUTE_FINGERPRINT
  let ?crc = "ns_crc32 (added buf len ?t (be32 0)) (of_nat len)"
  let ?v = "be32 (?crc XOR 0x5354554e)"
  have sp: "attr_space ?v = 8" by (simp add: attr_space_def round4_def)
  have wf: "wf_msg buf len" and N: "length buf = N" using M by (auto simp: msg_is_def)
  have l20: "20 \<le> len" by (rule wf_msg_ge [OF wf])
  have r: "r = 0" "len' = len + 8" "buf' = added buf len ?t ?v"
    using add_fingerprint_eq [OF M room max] add by simp_all
  have M': "msg_is N ty STUN_MAGIC_COOKIE tid (as @ [(?t, ?v)]) buf' len'"
    unfolding r sp [symmetric] by (rule msg_is_added [OF M _ max]) (use room sp in simp)
  have rm: "len + attr_space ?v \<le> length buf" using room N sp by simp
  have mx: "len + attr_space ?v < MAX_STUN_MESSAGE_SIZE" using room max sp by simp
  have at: "attr_at buf' len = (?t, ?v)" unfolding r by (rule added_attr(2) [OF rm]) simp
  have f: "stun_attr_get_first_by_type_str buf' len' ?t = Some len"
    using first_by_type_added [OF wf rm mx] fresh M by (auto simp: r sp msg_is_def)
  have al: "stun_attr_get_len buf' (Some len) = 4" using attr_at_len [OF at] by simp
  have "read_bytes buf' 0 len = read_bytes (added buf len ?t (be32 0)) 0 len"
  proof -
    have "agree 0 len (added buf len ?t (be32 w)) (put_bytes buf 2 (bytes_le 2 (nswap16 (of_nat (len + 8 - 20)))))" for w
      using added_agree_header [of len buf ?t "be32 w"] l20 by (simp add: attr_space_def round4_def)
    from agree_trans [OF this agree_sym [OF this]] show ?thesis
      unfolding r by (rule agree_read) simp_all
  qed
  moreover have "unat (of_nat len :: u32) = len"
    using room max by (intro unat_of_nat_eq) (simp add: stun_consts)
  ultimately have "ns_crc32 buf' (of_nat len) = ?crc" by (simp add: ns_crc32_def)
  moreover have "read_bytes buf' (len + 4) 4 = ?v" using at al by (simp add: attr_at_def get_len_alen)
  then have "ld32 buf' (len + 4) = nswap32 (?crc XOR 0x5354554e)"
    by (simp add: ld32_def be32_def bytes_nswap32 [symmetric] del: bytes_nswap32)
  ultimately show ?thesis using f al msg_is_command [OF M' ty] r
    by (simp add: stun_is_command_message_full_check_str_def get_value_eq get_len_alen Let_def)
qed

theorem fingerprint_roundtrip_witness:
  "case stun_init_request_str (replicate 12 9) STUN_METHOD_BINDING (replicate 100 0) of (buf, len) \<Rightarrow>
     case stun_attr_add_fingerprint_str buf len of (r, buf', len') \<Rightarrow>
       r = 0 \<and> stun_is_command_message_full_check_str buf' len' True (Some False) = (True, Some True)"
proof -
  obtain buf len where b: "stun_init_request_str (replicate 12 9) STUN_METHOD_BINDING (replicate 100 0) = (buf, len)"
    by fastforce
  have M: "msg_is 100 (stun_make_request STUN_METHOD_BINDING) STUN_MAGIC_COOKIE (replicate 12 9) [] buf len"
    using init_request [OF _ _ b] by simp
  obtain r buf' len' where a: "stun_attr_add_fingerprint_str buf len = (r, buf', len')" by (rule prod_cases3)
  have "len = 20" using M by (simp add: msg_is_def)
  with fingerprint_roundtrip [OF M _ _ _ _ a, of True False] show ?thesis
    unfolding b prod.case a by (auto simp: stun_consts)
qed

end
