(* ===== verification/Stun_Auth.thy ===== *)
theory Stun_Auth
  imports Stun_Crc
begin

text \<open>
  Model of the authentication part of \<^verbatim>\<open>src/coturn/src/client/ns_turn_msg.c\<close>: SASLprep, the long- and
  short-term integrity keys, MESSAGE-INTEGRITY and its check, the salted administrator passwords, and the
  attributes of RFC 5780.

  The digests and HMACs of OpenSSL are the arguments \<open>digest\<close> and \<open>hmac\<close>, indexed by the \<^verbatim>\<open>EVP_*\<close>
  algorithm; \<open>hmac\<close> may fail. The theorems assume of them only the documented output lengths. C strings
  are lists that end at their first zero byte.
\<close>

datatype shatype = SHATYPE_ERROR | SHATYPE_SHA1 | SHATYPE_SHA256 | SHATYPE_SHA384 | SHATYPE_SHA512

datatype turn_credential_type =
  TURN_CREDENTIALS_NONE | TURN_CREDENTIALS_LONG_TERM | TURN_CREDENTIALS_SHORT_TERM | TURN_CREDENTIALS_UNDEFINED

datatype evp_md = EVP_md5 | EVP_sha1 | EVP_sha256 | EVP_sha384 | EVP_sha512

type_synonym digest_fun = "evp_md \<Rightarrow> u8 list \<Rightarrow> u8 list"
type_synonym hmac_fun = "evp_md \<Rightarrow> u8 list \<Rightarrow> u8 list \<Rightarrow> u8 list option"

section \<open>SASLprep\<close>

text \<open>\<open>strin\<close> is what is left to read, \<open>strout\<close> what has been written; \<open>None\<close> is a forbidden character.\<close>

fun SASLprep_loop :: "u8 list \<Rightarrow> u8 list \<Rightarrow> bool \<times> u8 list" where
  "SASLprep_loop [] strout = (True, strout)"
| "SASLprep_loop (c # strin) strout =
     (if c = 0xAD then SASLprep_loop strin strout
      else if c = 0xA0 \<or> c = 0x20 then SASLprep_loop strin (strout @ [0x20])
      else if c = 0x7F then (False, strout)
      else if c < 0x1F then (False, strout)
      else if 0x80 \<le> c \<and> c \<le> 0x9F then (False, strout)
      else SASLprep_loop strin (strout @ [c]))"

text \<open>The result and the string that is left in the buffer.\<close>

definition SASLprep :: "u8 list option \<Rightarrow> int \<times> u8 list option" where
  "SASLprep s = (case s of
     None \<Rightarrow> (0, None)
   | Some s \<Rightarrow> (case SASLprep_loop (c_str s) [] of
       (True, strout) \<Rightarrow> (0, Some strout)
     | (False, strout) \<Rightarrow> (-1, Some (strout @ drop (length strout) (c_str s)))))"

section \<open>Keys\<close>

definition stun_calculate_hmac ::
  "hmac_fun \<Rightarrow> u8 list \<Rightarrow> nat \<Rightarrow> u8 list \<Rightarrow> nat \<Rightarrow> shatype \<Rightarrow> u8 list option" where
  "stun_calculate_hmac hmac buf len key keylen shatype =
     (if shatype = SHATYPE_SHA256 then hmac EVP_sha256 (read_bytes key 0 keylen) (read_bytes buf 0 len)
      else if shatype = SHATYPE_SHA384 then hmac EVP_sha384 (read_bytes key 0 keylen) (read_bytes buf 0 len)
      else if shatype = SHATYPE_SHA512 then hmac EVP_sha512 (read_bytes key 0 keylen) (read_bytes buf 0 len)
      else hmac EVP_sha1 (read_bytes key 0 keylen) (read_bytes buf 0 len))"

text \<open>The 64-byte key array after the digest has been stored at its start.\<close>

definition stun_produce_integrity_key_str ::
  "digest_fun \<Rightarrow> u8 list \<Rightarrow> u8 list \<Rightarrow> u8 list \<Rightarrow> u8 list \<Rightarrow> shatype \<Rightarrow> u8 list" where
  "stun_produce_integrity_key_str digest uname realm upwd key shatype =
     (let str = c_str uname @ [58] @ c_str realm @ [58] @ c_str upwd in
      if shatype = SHATYPE_SHA256 then put_bytes key 0 (digest EVP_sha256 str)
      else if shatype = SHATYPE_SHA384 then put_bytes key 0 (digest EVP_sha384 str)
      else if shatype = SHATYPE_SHA512 then put_bytes key 0 (digest EVP_sha512 str)
      else put_bytes key 0 (digest EVP_md5 str))"

definition get_hmackey_size :: "shatype \<Rightarrow> nat" where
  "get_hmackey_size shatype =
     (if shatype = SHATYPE_SHA256 then 32
      else if shatype = SHATYPE_SHA384 then 48
      else if shatype = SHATYPE_SHA512 then 64
      else 16)"

definition SHA1SIZEBYTES [stun_consts]: "SHA1SIZEBYTES = (20 :: nat)"
definition SHA256SIZEBYTES [stun_consts]: "SHA256SIZEBYTES = (32 :: nat)"
definition SHA384SIZEBYTES [stun_consts]: "SHA384SIZEBYTES = (48 :: nat)"
definition SHA512SIZEBYTES [stun_consts]: "SHA512SIZEBYTES = (64 :: nat)"

section \<open>Message integrity\<close>

text \<open>\<open>uninit\<close> is the content of the local array \<^verbatim>\<open>hmac\<close> that is copied into the new attribute.\<close>

definition stun_attr_add_integrity_str ::
  "hmac_fun \<Rightarrow> u8 list \<Rightarrow> turn_credential_type \<Rightarrow> u8 list \<Rightarrow> nat \<Rightarrow> u8 list \<Rightarrow> u8 list \<Rightarrow> shatype \<Rightarrow> msg_result" where
  "stun_attr_add_integrity_str hmac uninit ct buf len key pwd shatype =
     (let shasize = (case shatype of
          SHATYPE_SHA256 \<Rightarrow> SHA256SIZEBYTES | SHATYPE_SHA384 \<Rightarrow> SHA384SIZEBYTES
        | SHATYPE_SHA512 \<Rightarrow> SHA512SIZEBYTES | _ \<Rightarrow> SHA1SIZEBYTES)
      in msg_try (stun_attr_add_str buf len STUN_ATTRIBUTE_MESSAGE_INTEGRITY (Some uninit) (int shasize)) (\<lambda>buf len.
         case (if ct = TURN_CREDENTIALS_SHORT_TERM
               then stun_calculate_hmac hmac buf (len - 4 - shasize) pwd (length (c_str pwd)) shatype
               else stun_calculate_hmac hmac buf (len - 4 - shasize) key (get_hmackey_size shatype) shatype) of
           None \<Rightarrow> (-1, buf, len)
         | Some h \<Rightarrow> (0, put_bytes buf (len - shasize) h, len)))"

definition stun_attr_add_integrity_by_key_str ::
  "hmac_fun \<Rightarrow> u8 list \<Rightarrow> u8 list \<Rightarrow> nat \<Rightarrow> u8 list \<Rightarrow> u8 list \<Rightarrow> u8 list \<Rightarrow> u8 list \<Rightarrow> shatype \<Rightarrow> msg_result" where
  "stun_attr_add_integrity_by_key_str hmac uninit buf len uname realm key nonce shatype =
     msg_try (stun_attr_add_str buf len STUN_ATTRIBUTE_USERNAME (Some uname) (int (length (c_str uname)))) (\<lambda>buf len.
     msg_try (stun_attr_add_str buf len STUN_ATTRIBUTE_NONCE (Some nonce) (int (length (c_str nonce)))) (\<lambda>buf len.
     msg_try (stun_attr_add_str buf len STUN_ATTRIBUTE_REALM (Some realm) (int (length (c_str realm)))) (\<lambda>buf len.
     stun_attr_add_integrity_str hmac uninit TURN_CREDENTIALS_LONG_TERM buf len key [] shatype)))"

definition stun_attr_add_integrity_by_user_str ::
  "digest_fun \<Rightarrow> hmac_fun \<Rightarrow> u8 list \<Rightarrow> u8 list \<Rightarrow> nat \<Rightarrow> u8 list \<Rightarrow> u8 list \<Rightarrow> u8 list \<Rightarrow> u8 list \<Rightarrow> shatype \<Rightarrow> msg_result" where
  "stun_attr_add_integrity_by_user_str digest hmac uninit buf len uname realm upwd nonce shatype =
     (let key = stun_produce_integrity_key_str digest uname realm upwd (replicate 64 0) shatype
      in stun_attr_add_integrity_by_key_str hmac uninit buf len uname realm key nonce shatype)"

definition stun_attr_add_integrity_by_user_short_term_str ::
  "hmac_fun \<Rightarrow> u8 list \<Rightarrow> u8 list \<Rightarrow> nat \<Rightarrow> u8 list \<Rightarrow> u8 list \<Rightarrow> shatype \<Rightarrow> msg_result" where
  "stun_attr_add_integrity_by_user_short_term_str hmac uninit buf len uname pwd shatype =
     msg_try (stun_attr_add_str buf len STUN_ATTRIBUTE_USERNAME (Some uname) (int (length (c_str uname)))) (\<lambda>buf len.
     stun_attr_add_integrity_str hmac uninit TURN_CREDENTIALS_SHORT_TERM buf len [] pwd shatype)"

text \<open>Result (\<open>-1\<close> failure, \<open>0\<close> wrong, \<open>1\<close> right) and the buffer, whose length field is changed and restored.\<close>

definition stun_check_message_integrity_by_key_str ::
  "hmac_fun \<Rightarrow> turn_credential_type \<Rightarrow> u8 list \<Rightarrow> nat \<Rightarrow> u8 list \<Rightarrow> u8 list \<Rightarrow> shatype \<Rightarrow> int \<times> u8 list" where
  "stun_check_message_integrity_by_key_str hmac ct buf len key pwd shatype =
     (case stun_attr_get_first_by_type_str buf len STUN_ATTRIBUTE_MESSAGE_INTEGRITY of
        None \<Rightarrow> (-1, buf)
      | Some sar \<Rightarrow>
          (let sarlen = stun_attr_get_len buf (Some sar);
               shasize = nat sarlen in
           if sarlen = int SHA256SIZEBYTES \<and> shatype \<noteq> SHATYPE_SHA256 then (-1, buf)
           else if sarlen = int SHA384SIZEBYTES \<and> shatype \<noteq> SHATYPE_SHA384 then (-1, buf)
           else if sarlen = int SHA512SIZEBYTES \<and> shatype \<noteq> SHATYPE_SHA512 then (-1, buf)
           else if sarlen = int SHA1SIZEBYTES \<and> shatype \<noteq> SHATYPE_SHA1 then (-1, buf)
           else if sarlen \<notin> {int SHA256SIZEBYTES, int SHA384SIZEBYTES, int SHA512SIZEBYTES, int SHA1SIZEBYTES}
           then (-1, buf)
           else let orig_len = stun_get_command_message_len_str buf len in
             if orig_len < 0 then (-1, buf)
             else let new_len = int sar + 4 + int shasize in
               if new_len > orig_len then (-1, buf)
               else (case stun_set_command_message_len_str buf new_len of (r, buf1) \<Rightarrow>
                 if r < 0 then (-1, buf1)
                 else let
                   res = (if ct = TURN_CREDENTIALS_SHORT_TERM
                     then stun_calculate_hmac hmac buf1 (nat new_len - 4 - shasize) pwd (length (c_str pwd)) shatype
                     else stun_calculate_hmac hmac buf1 (nat new_len - 4 - shasize) key (get_hmackey_size shatype) shatype);
                   buf2 = snd (stun_set_command_message_len_str buf1 orig_len)
                 in case res of
                      None \<Rightarrow> (-1, buf2)
                    | Some new_hmac \<Rightarrow>
                        (case stun_attr_get_value buf2 (Some sar) of
                           None \<Rightarrow> (-1, buf2)
                         | Some old_hmac \<Rightarrow>
                             (if read_bytes buf2 old_hmac (length new_hmac) \<noteq> new_hmac then (0, buf2)
                              else (1, buf2))))))"

definition STUN_MAX_PWD_SIZE [stun_consts]: "STUN_MAX_PWD_SIZE = (256 :: nat)"

text \<open>\<^verbatim>\<open>strncpy\<close> fills the \<^verbatim>\<open>password_t\<close> array: the string, then zeros.\<close>

definition c_strncpy :: "u8 list \<Rightarrow> nat \<Rightarrow> u8 list" where
  "c_strncpy src n = take n (c_str src @ replicate n 0)"

definition stun_check_message_integrity_str ::
  "digest_fun \<Rightarrow> hmac_fun \<Rightarrow> turn_credential_type \<Rightarrow> u8 list \<Rightarrow> nat \<Rightarrow> u8 list \<Rightarrow> u8 list \<Rightarrow> u8 list \<Rightarrow> shatype \<Rightarrow>
   int \<times> u8 list" where
  "stun_check_message_integrity_str digest hmac ct buf len uname realm upwd shatype =
     (if ct = TURN_CREDENTIALS_SHORT_TERM
      then stun_check_message_integrity_by_key_str hmac ct buf len (replicate 64 0)
             (c_strncpy upwd (STUN_MAX_PWD_SIZE + 1)) shatype
      else stun_check_message_integrity_by_key_str hmac ct buf len
             (stun_produce_integrity_key_str digest uname realm upwd (replicate 64 0) shatype) [] shatype)"

section \<open>Administrator passwords\<close>

definition PWD_SALT_SIZE [stun_consts]: "PWD_SALT_SIZE = (8 :: nat)"

definition hex_digit :: "nat \<Rightarrow> u8" where
  "hex_digit n = (if n < 10 then of_nat (48 + n) else of_nat (87 + n))"

definition hex_byte :: "u8 \<Rightarrow> u8 list" where
  "hex_byte b = [hex_digit (unat b div 16), hex_digit (unat b mod 16)]"

definition readable_string :: "u8 list \<Rightarrow> nat \<Rightarrow> u8 list" where
  "readable_string orig sz = concat (map hex_byte (read_bytes orig 0 sz))"

text \<open>\<open>rnd\<close> is what the random source delivers when no salt is given.\<close>

definition generate_enc_password :: "digest_fun \<Rightarrow> u8 list \<Rightarrow> u8 list \<Rightarrow> u8 list option \<Rightarrow> u8 list" where
  "generate_enc_password digest rnd pwd orig_salt =
     (let salt = (case orig_salt of None \<Rightarrow> read_bytes rnd 0 PWD_SALT_SIZE
                  | Some s \<Rightarrow> read_bytes s 0 PWD_SALT_SIZE);
          rsalt = readable_string salt PWD_SALT_SIZE;
          hash = digest EVP_sha256 (salt @ c_str pwd)
      in [36, 53, 36] @ rsalt @ [36] @ readable_string hash (length hash))"

definition generate_new_enc_password :: "digest_fun \<Rightarrow> u8 list \<Rightarrow> u8 list \<Rightarrow> u8 list" where
  "generate_new_enc_password digest rnd pwd = generate_enc_password digest rnd pwd None"

text \<open>\<^verbatim>\<open>strtoul(.., NULL, 16)\<close>: spaces, a sign, an optional \<^verbatim>\<open>0x\<close> and hexadecimal digits.\<close>

definition hex_val :: "u8 \<Rightarrow> nat option" where
  "hex_val c = (if 48 \<le> c \<and> c \<le> 57 then Some (unat c - 48)
     else if 97 \<le> c \<and> c \<le> 102 then Some (unat c - 87)
     else if 65 \<le> c \<and> c \<le> 70 then Some (unat c - 55) else None)"

fun hex_digits_val :: "u8 list \<Rightarrow> nat \<Rightarrow> nat" where
  "hex_digits_val [] acc = acc"
| "hex_digits_val (c # cs) acc = (case hex_val c of None \<Rightarrow> acc | Some d \<Rightarrow> hex_digits_val cs (acc * 16 + d))"

definition c_strtoul16 :: "u8 list \<Rightarrow> nat" where
  "c_strtoul16 str = (let s = dropWhile is_space str;
       neg = (s \<noteq> [] \<and> hd s = 45);
       s1 = (if s \<noteq> [] \<and> (hd s = 45 \<or> hd s = 43) then tl s else s);
       s2 = (case s1 of
           z # x # d # r \<Rightarrow> if z = 48 \<and> (x = 120 \<or> x = 88) \<and> hex_val d \<noteq> None then d # r else s1
         | _ \<Rightarrow> s1);
       v = hex_digits_val s2 0
     in if v > 2 ^ 64 - 1 then 2 ^ 64 - 1 else if neg then (2 ^ 64 - v) mod 2 ^ 64 else v)"

text \<open>\<open>Some salt\<close> is the result \<open>1\<close>.\<close>

definition encrypted_password :: "u8 list \<Rightarrow> u8 list option" where
  "encrypted_password pin =
     (let min_len = 3 + PWD_SALT_SIZE + PWD_SALT_SIZE + 1 + 32 in
      if length (c_str pin) \<ge> min_len then
        (if byte_at pin 0 = 36 \<and> byte_at pin 1 = 53 \<and> byte_at pin 2 = 36 \<and>
            byte_at pin (3 + PWD_SALT_SIZE + PWD_SALT_SIZE) = 36
         then Some (map (\<lambda>i. of_nat (c_strtoul16 (c_str [byte_at pin (3 + i + i), byte_at pin (3 + i + i + 1)])))
                      [0..<PWD_SALT_SIZE])
         else None)
      else None)"

fun strcmp_loop :: "u8 list \<Rightarrow> u8 list \<Rightarrow> int" where
  "strcmp_loop [] [] = 0"
| "strcmp_loop [] (b # bs) = -1"
| "strcmp_loop (a # as) [] = 1"
| "strcmp_loop (a # as) (b # bs) = (if a = b then strcmp_loop as bs else if a < b then -1 else 1)"

definition c_strcmp :: "u8 list \<Rightarrow> u8 list \<Rightarrow> int" where
  "c_strcmp a b = strcmp_loop (c_str a) (c_str b)"

definition check_password :: "digest_fun \<Rightarrow> u8 list \<Rightarrow> u8 list \<Rightarrow> int" where
  "check_password digest pin pwd =
     (case encrypted_password pwd of
        None \<Rightarrow> c_strcmp pin pwd
      | Some salt \<Rightarrow> c_strcmp (generate_enc_password digest [] pin (Some salt)) pwd)"

section \<open>RFC 5780\<close>

text \<open>Result and what is stored in \<^verbatim>\<open>*change_ip\<close> and \<^verbatim>\<open>*change_port\<close>.\<close>

definition stun_attr_get_change_request_str ::
  "u8 list \<Rightarrow> attr_ref \<Rightarrow> int \<Rightarrow> int \<Rightarrow> int \<times> int \<times> int" where
  "stun_attr_get_change_request_str buf attr change_ip change_port =
     (if stun_attr_get_len buf attr = 4 then
        (case stun_attr_get_value buf attr of
           Some value \<Rightarrow> (0, int (unat (byte_at buf (value + 3) AND 0x04)), int (unat (byte_at buf (value + 3) AND 0x02)))
         | None \<Rightarrow> (-1, change_ip, change_port))
      else (-1, change_ip, change_port))"

definition stun_attr_add_change_request_str :: "u8 list \<Rightarrow> nat \<Rightarrow> bool \<Rightarrow> bool \<Rightarrow> msg_result" where
  "stun_attr_add_change_request_str buf len change_ip change_port =
     (let avalue = [0, 0, 0,
          if change_ip then (if change_port then 0x06 else 0x04) else if change_port then 0x02 else 0]
      in stun_attr_add_str buf len STUN_ATTRIBUTE_CHANGE_REQUEST (Some avalue) 4)"

definition stun_attr_get_response_port_str :: "u8 list \<Rightarrow> attr_ref \<Rightarrow> int" where
  "stun_attr_get_response_port_str buf attr =
     (if stun_attr_get_len buf attr \<ge> 2 then
        (case stun_attr_get_value buf attr of
           Some value \<Rightarrow> int (unat (nswap16 (ld16 buf value)))
         | None \<Rightarrow> -1)
      else -1)"

definition stun_attr_add_response_port_str :: "u8 list \<Rightarrow> nat \<Rightarrow> u16 \<Rightarrow> msg_result" where
  "stun_attr_add_response_port_str buf len port =
     (let avalue = bytes_le 2 (nswap16 port) @ [0, 0]
      in stun_attr_add_str buf len STUN_ATTRIBUTE_RESPONSE_PORT (Some avalue) 4)"

definition stun_attr_get_padding_len_str :: "u8 list \<Rightarrow> attr_ref \<Rightarrow> int" where
  "stun_attr_get_padding_len_str buf attr =
     (let len = stun_attr_get_len buf attr in if len < 0 then -1 else int (unat (of_int len :: u16)))"

definition stun_attr_add_padding_str :: "u8 list \<Rightarrow> nat \<Rightarrow> u16 \<Rightarrow> msg_result" where
  "stun_attr_add_padding_str buf len padding_len =
     (let avalue = replicate (unat padding_len) 0
      in stun_attr_add_str buf len STUN_ATTRIBUTE_PADDING (Some avalue) (int (unat padding_len)))"

end
