(* ===== verification/Stun_Integrity.thy ===== *)
theory Stun_Integrity
  imports Stun_Auth
begin

text \<open>
  Correctness of the authentication layer: the integrity check leaves the message as it was, accepts what
  the writer produced with the same key, and accepts a message only if its MESSAGE-INTEGRITY bytes are the HMAC of
  the message up to that attribute; SASLprep is a filter and a substitution of characters; a salted password accepts exactly the pins
  with the same digest.
\<close>

section \<open>The length field is restored\<close>

lemma put_read_same: "put_bytes m i (read_bytes m i k) = m"
  by (rule byte_at_eqI) (auto simp: mem_simps)

lemma set_len_back:
  assumes "stun_get_command_message_len_str buf len = l" and "0 \<le> l"
  shows "stun_set_command_message_len_str buf l = (0, buf)"
    "snd (stun_set_command_message_len_str (snd (stun_set_command_message_len_str buf k)) l) = buf"
proof -
  have l: "l = int (unat (nswap16 (ld16 buf 2))) + 20"
    using assms by (auto simp: stun_get_command_message_len_str_def STUN_HEADER_LENGTH Let_def split: if_splits)
  have "bytes_le 2 (ld16 buf 2) = read_bytes buf 2 2" unfolding ld16_def by (rule bytes_le_word_le) simp_all
  then have b: "bytes_le 2 (nswap16 (of_int (l - 20))) = read_bytes buf 2 2"
    unfolding l by (simp add: of_nat_unat del: bytes_nswap16)
  have set: "stun_set_command_message_len_str m l = (0, put_bytes m 2 (read_bytes buf 2 2))" for m
    using l b by (simp add: stun_set_command_message_len_str_def STUN_HEADER_LENGTH del: bytes_nswap16)
  show "stun_set_command_message_len_str buf l = (0, buf)" by (simp add: set put_read_same)
  show "snd (stun_set_command_message_len_str (snd (stun_set_command_message_len_str buf k)) l) = buf"
    unfolding set by (simp add: stun_set_command_message_len_str_def put_read_same put_put_same)
qed

text \<open>
  \<^bold>\<open>C17\<close>: the integrity check writes the length field of the message it checks, and on every path, whatever
  the buffer contains, it leaves the buffer as it found it.
\<close>

theorem integrity_check_restores:
  "snd (stun_check_message_integrity_by_key_str hmac ct buf len key pwd shatype) = buf"
proof (cases "stun_attr_get_first_by_type_str buf len STUN_ATTRIBUTE_MESSAGE_INTEGRITY")
  case None
  then show ?thesis by (simp add: stun_check_message_integrity_by_key_str_def)
next
  case (Some sar)
  then have "sar \<in> set (msg_offs buf len)" by (auto simp: first_by_type_find find_Some_iff)
  then have sar: "20 \<le> sar" using msg_offs_bounds by blast
  let ?l = "stun_get_command_message_len_str buf len"
  let ?n = "int sar + 4 + int (nat (stun_attr_get_len buf (Some sar)))"
  have "\<not> ?n < int STUN_HEADER_LENGTH" using sar by (simp add: STUN_HEADER_LENGTH)
  then obtain b1 where b1: "stun_set_command_message_len_str buf ?n = (0, b1)"
    unfolding stun_set_command_message_len_str_def by (simp only: if_False)
  have restore: "snd (stun_set_command_message_len_str b1 ?l) = buf" if "\<not> ?l < 0"
    using set_len_back(2) [OF refl, of buf len ?n] that b1 by simp
  have inner: "snd (case res of None \<Rightarrow> (- 1, buf) | Some new_hmac \<Rightarrow>
      (case v of None \<Rightarrow> (- 1, buf)
       | Some old_hmac \<Rightarrow> if read_bytes buf old_hmac (length new_hmac) \<noteq> new_hmac then (0, buf) else (1, buf))) = buf"
    for res :: "u8 list option" and v by (simp split: option.split)
  show ?thesis
    unfolding stun_check_message_integrity_by_key_str_def Some option.case Let_def b1 prod.case
    by (simp only: if_distrib [of snd] snd_conv restore inner less_irrefl if_False cong: if_cong) simp
qed

section \<open>Integrity round trip\<close>

definition sha_size :: "shatype \<Rightarrow> nat" where
  "sha_size shatype = (case shatype of
      SHATYPE_SHA256 \<Rightarrow> 32 | SHATYPE_SHA384 \<Rightarrow> 48 | SHATYPE_SHA512 \<Rightarrow> 64 | _ \<Rightarrow> 20)"

definition sha_md :: "shatype \<Rightarrow> evp_md" where
  "sha_md shatype = (case shatype of
      SHATYPE_SHA256 \<Rightarrow> EVP_sha256 | SHATYPE_SHA384 \<Rightarrow> EVP_sha384 | SHATYPE_SHA512 \<Rightarrow> EVP_sha512 | _ \<Rightarrow> EVP_sha1)"

definition mi_key :: "turn_credential_type \<Rightarrow> u8 list \<Rightarrow> u8 list \<Rightarrow> shatype \<Rightarrow> u8 list" where
  "mi_key ct key pwd shatype = (if ct = TURN_CREDENTIALS_SHORT_TERM then read_bytes pwd 0 (length (c_str pwd))
     else read_bytes key 0 (get_hmackey_size shatype))"

lemma calculate_hmac_eq:
  "(if ct = TURN_CREDENTIALS_SHORT_TERM
    then stun_calculate_hmac hmac buf n pwd (length (c_str pwd)) shatype
    else stun_calculate_hmac hmac buf n key (get_hmackey_size shatype) shatype) =
   hmac (sha_md shatype) (mi_key ct key pwd shatype) (read_bytes buf 0 n)"
  by (cases shatype) (auto simp: stun_calculate_hmac_def mi_key_def sha_md_def)

lemma shasize_eq:
  "(case shatype of SHATYPE_SHA256 \<Rightarrow> SHA256SIZEBYTES | SHATYPE_SHA384 \<Rightarrow> SHA384SIZEBYTES
      | SHATYPE_SHA512 \<Rightarrow> SHA512SIZEBYTES | _ \<Rightarrow> SHA1SIZEBYTES) = sha_size shatype"
  by (cases shatype) (simp_all add: sha_size_def stun_consts)

lemma sha_size_round [simp]: "round4 (sha_size sh) = sha_size sh"
  by (cases sh) (simp_all add: sha_size_def round4_def)

lemma sha_size_bounds: "20 \<le> sha_size sh" "sha_size sh \<le> 64"
  by (cases sh; simp add: sha_size_def)+

lemma added_prefix:
  assumes "20 \<le> len" and "length v = length w"
  shows "read_bytes (added buf len t v) 0 len = read_bytes (added buf len t w) 0 len"
proof -
  have "attr_space v = attr_space w" using assms(2) by (simp add: attr_space_def)
  then have "agree 0 len (added buf len t v) (added buf len t w)"
    using added_agree_header [of len buf t v] agree_sym [OF added_agree_header [of len buf t w]] assms(1) agree_trans
    by (metis le_trans numeral_le_iff semiring_norm(68) semiring_norm(69) semiring_norm(71))
  then show ?thesis by (rule agree_read) simp_all
qed

lemma put_added: "length v = length w \<Longrightarrow> put_bytes (added buf len t v) (len + 4) w = added buf len t w"
  unfolding added_def by (subst put_put_same) (simp_all add: attr_space_def)

lemma add_integrity_eq:
  assumes M: "msg_is N ty ck tid as buf len" and room: "len + 4 + sha_size sh \<le> N" and max: "N < MAX_STUN_MESSAGE_SIZE"
    and h: "hmac (sha_md sh) (mi_key ct key pwd sh)
      (read_bytes (added buf len STUN_ATTRIBUTE_MESSAGE_INTEGRITY (replicate (sha_size sh) 0)) 0 len) = Some h"
    and lh: "length h = sha_size sh"
  shows "stun_attr_add_integrity_str hmac uninit ct buf len key pwd sh =
    (0, added buf len STUN_ATTRIBUTE_MESSAGE_INTEGRITY h, len + 4 + sha_size sh)"
proof -
  let ?t = STUN_ATTRIBUTE_MESSAGE_INTEGRITY and ?n = "sha_size sh"
  let ?u = "read_bytes uninit 0 ?n"
  have wf: "wf_msg buf len" using M by (auto simp: msg_is_def)
  have sp: "attr_space ?u = 4 + ?n" by (simp add: attr_space_def)
  have a: "stun_attr_add_str buf len ?t (Some uninit) (int ?n) = (0, added buf len ?t ?u, len + 4 + ?n)"
    unfolding add_str_prefix [of _ _ _ uninit]
    using add_str_eq [OF wf, of ?t ?u] room max sp by simp
  have p: "read_bytes (added buf len ?t ?u) 0 len = read_bytes (added buf len ?t (replicate ?n 0)) 0 len"
    by (rule added_prefix [OF wf_msg_ge [OF wf]]) simp
  have o: "len + 4 + ?n - 4 - ?n = len" "len + 4 + ?n - ?n = len + 4" by simp_all
  show ?thesis
    unfolding stun_attr_add_integrity_str_def shasize_eq Let_def a calculate_hmac_eq
    by (simp add: msg_try_def o p h put_added lh)
qed

text \<open>
  \<^bold>\<open>C16\<close>: a message completed with MESSAGE-INTEGRITY passes the integrity check with the same credentials, for
  every supported hash and for long- and short-term credentials, provided OpenSSL's HMAC succeeds with
  digests of the documented size.
\<close>

theorem integrity_roundtrip:
  assumes M: "msg_is N ty ck tid as buf len" and max: "N < MAX_STUN_MESSAGE_SIZE" and room: "len + 68 \<le> N"
    and fresh: "find (\<lambda>(t', v). t' = STUN_ATTRIBUTE_MESSAGE_INTEGRITY) as = None"
    and sh: "sh \<noteq> SHATYPE_ERROR"
    and hmac: "\<And>k d. \<exists>h. hmac (sha_md sh) k d = Some h \<and> length h = sha_size sh"
    and add: "stun_attr_add_integrity_str hmac uninit ct buf len key pwd sh = (r, buf', len')"
  shows "r = 0 \<and> wf_msg buf' len' \<and>
    stun_check_message_integrity_by_key_str hmac ct buf' len' key pwd sh = (1, buf')"
proof -
  let ?t = STUN_ATTRIBUTE_MESSAGE_INTEGRITY and ?n = "sha_size sh"
  obtain h where h: "hmac (sha_md sh) (mi_key ct key pwd sh) (read_bytes (added buf len ?t (replicate ?n 0)) 0 len) = Some h"
    and lh: "length h = ?n" using hmac by blast
  have wf: "wf_msg buf len" and N: "length buf = N" using M by (auto simp: msg_is_def)
  have l20: "20 \<le> len" by (rule wf_msg_ge [OF wf])
  note sz = sha_size_bounds [of sh]
  have b: "r = 0" "buf' = added buf len ?t h" "len' = len + 4 + ?n"
    using add_integrity_eq [where hmac = hmac, OF M _ max h lh, of uninit] room sz add by simp_all
  have sp: "attr_space h = 4 + ?n" by (simp add: attr_space_def lh)
  have rm: "len + attr_space h \<le> length buf" "len + attr_space h < MAX_STUN_MESSAGE_SIZE"
    using room max N sp sz by simp_all
  have wf': "wf_msg buf' len'" using added_wf(1) [OF wf rm, of ?t] by (simp add: b sp add.assoc)
  have f: "stun_attr_get_first_by_type_str buf' len' ?t = Some len"
    using first_by_type_added [OF wf rm, of ?t] fresh M by (auto simp: b sp msg_is_def add.assoc)
  have at: "attr_at buf' len = (?t, h)" unfolding b by (rule added_attr(2) [OF rm(1)]) (use lh sz in simp)
  note al = attr_at_len [OF at]
  have cl: "stun_get_command_message_len_str buf' len' = int len'" using wf' by (simp add: wf_msg_def)
  have set: "stun_set_command_message_len_str buf' (int len') = (0, buf')"
    by (rule set_len_back(1) [OF cl]) simp
  have new: "int len + 4 + int ?n = int len'" "len' - 4 - ?n = len" by (simp_all add: b)
  have p: "read_bytes buf' 0 len = read_bytes (added buf len ?t (replicate ?n 0)) 0 len"
    unfolding b by (rule added_prefix [OF l20]) (simp add: lh)
  have old: "read_bytes buf' (len + 4) ?n = h"
    unfolding lh [symmetric] using at unfolding attr_at_def by (metis length_read_bytes prod.inject)
  have v: "stun_attr_get_value buf' (Some len) = Some (len + 4)"
    using al lh sz by (simp add: get_value_eq get_len_alen)
  have ok: "\<not> (int ?n = int SHA256SIZEBYTES \<and> sh \<noteq> SHATYPE_SHA256)" "\<not> (int ?n = int SHA384SIZEBYTES \<and> sh \<noteq> SHATYPE_SHA384)"
    "\<not> (int ?n = int SHA512SIZEBYTES \<and> sh \<noteq> SHATYPE_SHA512)" "\<not> (int ?n = int SHA1SIZEBYTES \<and> sh \<noteq> SHATYPE_SHA1)"
    "int ?n \<in> {int SHA256SIZEBYTES, int SHA384SIZEBYTES, int SHA512SIZEBYTES, int SHA1SIZEBYTES}"
    using sh by (cases sh; simp add: sha_size_def stun_consts)+
  have "stun_check_message_integrity_by_key_str hmac ct buf' len' key pwd sh = (1, buf')"
    unfolding stun_check_message_integrity_by_key_str_def f option.case Let_def al lh nat_int new set prod.case
      snd_conv calculate_hmac_eq p h cl v old
    using ok by simp
  with b wf' show ?thesis by simp
qed

theorem integrity_roundtrip_witness:
  "let hmac = \<lambda>m k d. Some (map (\<lambda>i. fold (XOR) (k @ d) (of_nat i)) [0..<20])
   in case stun_init_request_str (replicate 12 9) STUN_METHOD_ALLOCATE (replicate 200 0) of (buf, len) \<Rightarrow>
     case stun_attr_add_integrity_str hmac [] TURN_CREDENTIALS_LONG_TERM buf len (replicate 64 3) [] SHATYPE_SHA1 of
       (r, buf', len') \<Rightarrow> r = 0 \<and>
         stun_check_message_integrity_by_key_str hmac TURN_CREDENTIALS_LONG_TERM buf' len' (replicate 64 3) [] SHATYPE_SHA1 = (1, buf')"
proof -
  let ?hmac = "\<lambda>m k d. Some (map (\<lambda>i. fold (XOR) (k @ d) (of_nat i)) [0..<20]) :: u8 list option"
  obtain buf len where b: "stun_init_request_str (replicate 12 9) STUN_METHOD_ALLOCATE (replicate 200 0) = (buf, len)"
    by fastforce
  have M: "msg_is 200 (stun_make_request STUN_METHOD_ALLOCATE) STUN_MAGIC_COOKIE (replicate 12 9) [] buf len"
    using init_request [OF _ _ b] by simp
  obtain r buf' len' where a: "stun_attr_add_integrity_str ?hmac [] TURN_CREDENTIALS_LONG_TERM buf len (replicate 64 3) [] SHATYPE_SHA1 =
      (r, buf', len')" by (rule prod_cases3)
  have "len = 20" using M by (simp add: msg_is_def)
  with integrity_roundtrip [OF M _ _ _ _ _ a] show ?thesis
    unfolding b prod.case a Let_def by (simp add: stun_consts sha_size_def)
qed

text \<open>
  \<^bold>\<open>C3\<close>: a message is accepted only if its first MESSAGE-INTEGRITY attribute carries the HMAC, under the
  checked key, of all bytes in front of it with the length field set to end at that attribute.
\<close>

theorem integrity_sound:
  assumes acc: "fst (stun_check_message_integrity_by_key_str hmac ct buf len key pwd sh) = 1"
    and size: "\<And>k d h. hmac (sha_md sh) k d = Some h \<Longrightarrow> length h = sha_size sh"
  shows "\<exists>p h. stun_attr_get_first_by_type_str buf len STUN_ATTRIBUTE_MESSAGE_INTEGRITY = Some p \<and>
    attr_at buf p = (STUN_ATTRIBUTE_MESSAGE_INTEGRITY, h) \<and>
    hmac (sha_md sh) (mi_key ct key pwd sh)
      (read_bytes (put_bytes buf 2 (bytes_le 2 (nswap16 (of_nat (p + 4 + sha_size sh - 20))))) 0 p) = Some h"
proof -
  let ?t = STUN_ATTRIBUTE_MESSAGE_INTEGRITY
  obtain p where p: "stun_attr_get_first_by_type_str buf len ?t = Some p"
    using acc by (auto simp: stun_check_message_integrity_by_key_str_def split: option.splits)
  then have "p \<in> set (msg_offs buf len)" and ty: "nswap16 (ld16 buf p) = ?t"
    by (auto simp: first_by_type_find find_Some_iff)
  then have p20: "20 \<le> p" using msg_offs_bounds by blast
  let ?n = "attr_alen buf p"
  let ?l = "stun_get_command_message_len_str buf len"
  have al: "stun_attr_get_len buf (Some p) = int ?n" by (rule get_len_alen)
  note D = acc [unfolded stun_check_message_integrity_by_key_str_def p option.case Let_def al nat_int]
  have n: "?n = sha_size sh" and l: "\<not> ?l < 0"
    using D by (auto simp: sha_size_def stun_consts split: if_splits shatype.splits)
  have "int p + 4 + int ?n - int STUN_HEADER_LENGTH = int (p + 4 + ?n - 20)"
    using p20 by (simp add: STUN_HEADER_LENGTH)
  then have set: "stun_set_command_message_len_str buf (int p + 4 + int ?n) =
      (0, put_bytes buf 2 (bytes_le 2 (nswap16 (of_nat (p + 4 + ?n - 20)))))"
    using p20 unfolding stun_set_command_message_len_str_def
    by (simp only: of_int_of_nat_eq) (simp add: STUN_HEADER_LENGTH)
  have restore: "snd (stun_set_command_message_len_str (put_bytes buf 2 (bytes_le 2 (nswap16 (of_nat (p + 4 + ?n - 20))))) ?l) = buf"
    using set_len_back(2) [OF refl, of buf len "int p + 4 + int ?n"] l set by simp
  have o: "nat (int p + 4 + int ?n) - 4 - ?n = p" by simp
  obtain h where h: "hmac (sha_md sh) (mi_key ct key pwd sh)
      (read_bytes (put_bytes buf 2 (bytes_le 2 (nswap16 (of_nat (p + 4 + ?n - 20))))) 0 p) = Some h"
    and eq: "read_bytes buf (p + 4) (length h) = h"
    using D unfolding set prod.case calculate_hmac_eq restore o
    by (auto simp: get_value_eq split: if_splits option.splits)
  have "attr_at buf p = (?t, h)" using ty eq size [OF h] n by (simp add: attr_at_def)
  with p h n show ?thesis by auto
qed

theorem integrity_sound_witness:
  "let hmac = \<lambda>m k d. Some (map (\<lambda>i. fold (XOR) (k @ d) (of_nat i)) [0..<20]);
       buf = [0, 1, 0, 24, 0x21, 0x12, 0xA4, 0x42, 1, 2, 3, 4, 5, 6, 7, 8, 9, 10, 11, 12, 0, 8, 0, 20,
              195, 194, 193, 192, 199, 198, 197, 196, 203, 202, 201, 200, 207, 206, 205, 204, 211, 210, 209, 208]
   in fst (stun_check_message_integrity_by_key_str hmac TURN_CREDENTIALS_SHORT_TERM buf 44 [] [1, 2, 0] SHATYPE_SHA1) = 1 \<and>
      (\<exists>p h. stun_attr_get_first_by_type_str buf 44 STUN_ATTRIBUTE_MESSAGE_INTEGRITY = Some p \<and>
         attr_at buf p = (STUN_ATTRIBUTE_MESSAGE_INTEGRITY, h))"
proof -
  let ?hmac = "\<lambda>m k d. Some (map (\<lambda>i. fold (XOR) (k @ d) (of_nat i)) [0..<20]) :: u8 list option"
  let ?buf = "[0, 1, 0, 24, 0x21, 0x12, 0xA4, 0x42, 1, 2, 3, 4, 5, 6, 7, 8, 9, 10, 11, 12, 0, 8, 0, 20,
              195, 194, 193, 192, 199, 198, 197, 196, 203, 202, 201, 200, 207, 206, 205, 204, 211, 210, 209, 208]"
  have a: "fst (stun_check_message_integrity_by_key_str ?hmac TURN_CREDENTIALS_SHORT_TERM ?buf 44 [] [1, 2, 0] SHATYPE_SHA1) = 1"
    by code_simp
  have "\<exists>p h. stun_attr_get_first_by_type_str ?buf 44 STUN_ATTRIBUTE_MESSAGE_INTEGRITY = Some p \<and>
      attr_at ?buf p = (STUN_ATTRIBUTE_MESSAGE_INTEGRITY, h)"
    using integrity_sound [OF a] by (auto simp: sha_size_def)
  with a show ?thesis unfolding Let_def by blast
qed

section \<open>SASLprep\<close>

definition sasl_refused :: "u8 \<Rightarrow> bool" where
  "sasl_refused c \<longleftrightarrow> c < 0x1F \<or> c = 0x7F \<or> 0x80 \<le> c \<and> c \<le> 0x9F"

definition sasl_text :: "u8 list \<Rightarrow> u8 list" where
  "sasl_text str = map (\<lambda>c. if c = 0xA0 then 0x20 else c) (filter (\<lambda>c. c \<noteq> 0xAD) str)"

lemma sasl_loop_accepts:
  "\<not> list_ex sasl_refused str \<Longrightarrow> SASLprep_loop str out = (True, out @ sasl_text str)"
  by (induction str arbitrary: out) (auto simp: sasl_refused_def sasl_text_def)

lemma sasl_loop_refuses: "list_ex sasl_refused str \<Longrightarrow> fst (SASLprep_loop str out) = False"
  by (induction str arbitrary: out) (auto simp: sasl_refused_def)

lemma sasl_text_accepted:
  assumes "\<not> list_ex sasl_refused str"
  shows "\<not> list_ex sasl_refused (sasl_text str)" "sasl_text (sasl_text str) = sasl_text str" "c_str (sasl_text str) = sasl_text str"
proof -
  show nr: "\<not> list_ex sasl_refused (sasl_text str)"
    using assms by (auto simp: sasl_text_def list_ex_iff sasl_refused_def)
  show "sasl_text (sasl_text str) = sasl_text str" by (induction str) (auto simp: sasl_text_def)
  have "sasl_refused 0" by (simp add: sasl_refused_def)
  then have "0 \<notin> set (sasl_text str)" using nr by (auto simp: list_ex_iff)
  then show "c_str (sasl_text str) = sasl_text str" by (rule c_str_id)
qed

text \<open>
  \<^bold>\<open>C34\<close>: SASLprep refuses exactly the strings with a character below 0x1F, DEL or a C1 control (0x80 to 0x9F).
  From any other string it deletes the soft hyphens, turns the no-break spaces into spaces and copies every other
  character in order, and preparing the result again changes nothing. The control 0x1F is among the characters that
  are copied.
\<close>

theorem SASLprep_exact:
  "if list_ex sasl_refused (c_str s) then fst (SASLprep (Some s)) = - 1
   else SASLprep (Some s) = (0, Some (sasl_text (c_str s))) \<and>
     SASLprep (Some (sasl_text (c_str s))) = (0, Some (sasl_text (c_str s)))"
proof (cases "list_ex sasl_refused (c_str s)")
  case True
  then show ?thesis using sasl_loop_refuses [OF True, of "[]"] by (auto simp: SASLprep_def split: prod.splits)
next
  case False
  note t = sasl_text_accepted [OF False]
  show ?thesis using False sasl_loop_accepts [OF False, of "[]"] sasl_loop_accepts [OF t(1), of "[]"] t(2,3)
    by (simp add: SASLprep_def)
qed

section \<open>Passwords\<close>

lemma strcmp_loop_0: "strcmp_loop a b = 0 \<longleftrightarrow> a = b"
  by (induction a b rule: strcmp_loop.induct) auto

lemma c_strcmp_0: "c_strcmp a b = 0 \<longleftrightarrow> c_str a = c_str b"
  by (simp add: c_strcmp_def strcmp_loop_0)

lemma hex_digit_table:
  "list_all (\<lambda>n. hex_val (hex_digit n) = Some n \<and> hex_digit n \<noteq> 0 \<and> \<not> is_space (hex_digit n) \<and>
     hex_digit n \<noteq> 45 \<and> hex_digit n \<noteq> 43 \<and> hex_digit n \<noteq> 120 \<and> hex_digit n \<noteq> 88) [0..<16]"
  by code_simp

lemma hex_digit_facts:
  assumes "n < 16"
  shows "hex_val (hex_digit n) = Some n" "hex_digit n \<noteq> 0" "\<not> is_space (hex_digit n)"
    "hex_digit n \<noteq> 45" "hex_digit n \<noteq> 43" "hex_digit n \<noteq> 120" "hex_digit n \<noteq> 88"
  using hex_digit_table assms by (simp_all add: list_all_iff)

lemma hex_nibbles: "unat (b :: u8) div 16 < 16" "unat b mod 16 < 16"
  using unat_8_less [of b] by simp_all

lemma hex_byte_facts: "length (hex_byte b) = 2" "0 \<notin> set (hex_byte b)" "c_strtoul16 (hex_byte b) = unat b"
proof -
  show "length (hex_byte b) = 2" by (simp add: hex_byte_def)
  show "0 \<notin> set (hex_byte b)" using hex_digit_facts(2) [OF hex_nibbles(1) [of b]] hex_digit_facts(2) [OF hex_nibbles(2) [of b]]
    by (auto simp: hex_byte_def)
  have "unat b div 16 * 16 + unat b mod 16 = unat b" by simp
  then show "c_strtoul16 (hex_byte b) = unat b"
    using hex_digit_facts [OF hex_nibbles(1) [of b]] hex_digit_facts [OF hex_nibbles(2) [of b]] unat_8_less [of b]
    by (simp add: c_strtoul16_def hex_byte_def Let_def)
qed

lemma length_concat_hex: "length (concat (map hex_byte bs)) = 2 * length bs"
  by (induction bs) (simp_all add: hex_byte_facts)

lemma nth_concat_hex:
  "i < length bs \<Longrightarrow> concat (map hex_byte bs) ! (2 * i) = hex_byte (bs ! i) ! 0 \<and>
     concat (map hex_byte bs) ! (2 * i + 1) = hex_byte (bs ! i) ! 1"
proof (induction bs arbitrary: i)
  case (Cons b bs)
  then show ?case by (cases i) (auto simp: nth_append hex_byte_facts)
qed simp

lemma readable_string_facts:
  "length (readable_string m n) = 2 * n" "0 \<notin> set (readable_string m n)"
  "i < n \<Longrightarrow> [readable_string m n ! (2 * i), readable_string m n ! (2 * i + 1)] = hex_byte (byte_at m i)"
proof -
  show "length (readable_string m n) = 2 * n" by (simp add: readable_string_def length_concat_hex)
  show "0 \<notin> set (readable_string m n)" using hex_byte_facts(2) by (auto simp: readable_string_def)
  assume "i < n"
  then show "[readable_string m n ! (2 * i), readable_string m n ! (2 * i + 1)] = hex_byte (byte_at m i)"
    using nth_concat_hex [of i "read_bytes m 0 n"] by (simp add: readable_string_def hex_byte_def)
qed

lemma hex_byte_inj: "hex_byte a = hex_byte b \<Longrightarrow> a = b"
  using hex_byte_facts(3) by (metis word_unat_eq_iff)

lemma readable_string_inj: "readable_string a (length a) = readable_string b (length b) \<Longrightarrow> a = b"
proof (rule nth_equalityI)
  assume eq: "readable_string a (length a) = readable_string b (length b)"
  then show l: "length a = length b" using readable_string_facts(1) by (metis nat_mult_eq_cancel1 zero_less_numeral)
  fix i assume "i < length a"
  then show "a ! i = b ! i"
    using readable_string_facts(3) [of i "length a" a] readable_string_facts(3) [of i "length b" b] eq l
    by (auto simp: byte_at_def dest: hex_byte_inj)
qed

lemma enc_password_no_zero: "c_str (generate_enc_password digest rnd pwd os) = generate_enc_password digest rnd pwd os"
  by (rule c_str_id) (auto simp: generate_enc_password_def Let_def readable_string_facts(2))

lemma encrypted_password_parse:
  assumes R: "length R = 16" "\<And>i. i < 8 \<Longrightarrow> [R ! (2 * i), R ! (2 * i + 1)] = hex_byte (salt ! i)"
    and salt: "length salt = 8" and H: "32 \<le> length H" and z: "0 \<notin> set R" "0 \<notin> set H"
  shows "encrypted_password ([36, 53, 36] @ R @ [36] @ H) = Some salt"
proof -
  define e where "e = [36, 53, 36] @ R @ [36] @ H"
  have c: "c_str e = e" unfolding e_def by (rule c_str_id) (use z in simp)
  have nth: "byte_at e (3 + k) = R ! k" if "k < 16" for k
    using that R(1) unfolding e_def byte_at_def by (simp add: nth_append)
  have b: "c_str [byte_at e (3 + i + i), byte_at e (3 + i + i + 1)] = hex_byte (salt ! i)" if "i < 8" for i
  proof -
    have k: "3 + i + i = 3 + 2 * i" "3 + 2 * i + 1 = 3 + (2 * i + 1)" by simp_all
    have lt: "2 * i < 16" "2 * i + 1 < 16" using that by simp_all
    show ?thesis unfolding k nth [OF lt(1)] nth [OF lt(2)] R(2) [OF that] by (rule c_str_id [OF hex_byte_facts(2)])
  qed
  have "map (\<lambda>i. of_nat (c_strtoul16 (c_str [byte_at e (3 + i + i), byte_at e (3 + i + i + 1)]))) [0..<8] =
      map (\<lambda>i. salt ! i) [0..<8]"
    by (rule map_cong [OF refl]) (use b in \<open>simp only: hex_byte_facts(3) of_nat_unat ucast_id set_upt atLeastLessThan_iff\<close>)
  also have "\<dots> = salt" using map_nth [of salt] salt by simp
  finally have m: "map (\<lambda>i. of_nat (c_strtoul16 (c_str [byte_at e (3 + i + i), byte_at e (3 + i + i + 1)]))) [0..<8] = salt" .
  have q: "byte_at e 0 = 36 \<and> byte_at e 1 = 53 \<and> byte_at e 2 = 36 \<and> byte_at e 19 = 36"
    unfolding e_def byte_at_def using R(1) by (simp add: nth_append)
  have l: "52 \<le> length (c_str e)" unfolding c using R(1) H by (simp add: e_def)
  have n: "3 + PWD_SALT_SIZE + PWD_SALT_SIZE = 19" "PWD_SALT_SIZE = 8" "19 + 1 + 32 = (52 :: nat)" by (simp_all add: PWD_SALT_SIZE)
  show ?thesis
    unfolding e_def [symmetric] encrypted_password_def Let_def n m using l q by simp
qed

lemma encrypted_password_salt:
  assumes "16 \<le> length (digest EVP_sha256 (read_bytes rnd 0 8 @ c_str pwd))"
  shows "encrypted_password (generate_enc_password digest rnd pwd None) = Some (read_bytes rnd 0 8)"
proof -
  define salt where "salt = read_bytes rnd 0 8"
  have ls: "length salt = 8" by (simp add: salt_def)
  define h where "h = digest EVP_sha256 (salt @ c_str pwd)"
  have "generate_enc_password digest rnd pwd None =
      [36, 53, 36] @ readable_string salt 8 @ [36] @ readable_string h (length h)"
    unfolding generate_enc_password_def PWD_SALT_SIZE Let_def option.case salt_def h_def ..
  moreover have "encrypted_password ([36, 53, 36] @ readable_string salt 8 @ [36] @ readable_string h (length h)) = Some salt"
  proof (rule encrypted_password_parse)
    show "32 \<le> length (readable_string h (length h))"
      using assms by (simp only: readable_string_facts(1) h_def salt_def)
    fix i :: nat assume "i < 8"
    then show "[readable_string salt 8 ! (2 * i), readable_string salt 8 ! (2 * i + 1)] = hex_byte (salt ! i)"
      using readable_string_facts(3) [of i 8 salt] ls by (simp only: byte_at_def if_True)
  qed (simp_all only: readable_string_facts(1,2) ls not_False_eq_True)
  ultimately show ?thesis by (simp only: salt_def)
qed

text \<open>
  \<^bold>\<open>C33\<close>: the stored form of a password accepts a pin exactly when the salted SHA-256 digests agree: the right
  password always passes, and a wrong one passes only through a digest collision.
\<close>

theorem check_password_exact:
  assumes "\<And>d. length (digest EVP_sha256 d) = 32"
  shows "check_password digest pin (generate_new_enc_password digest rnd pwd) = 0 \<longleftrightarrow>
    digest EVP_sha256 (read_bytes rnd 0 8 @ c_str pin) = digest EVP_sha256 (read_bytes rnd 0 8 @ c_str pwd)"
proof -
  have s: "encrypted_password (generate_enc_password digest rnd pwd None) = Some (read_bytes rnd 0 8)"
    by (rule encrypted_password_salt) (simp add: assms)
  show ?thesis
    unfolding check_password_def generate_new_enc_password_def s option.case c_strcmp_0 enc_password_no_zero
    by (auto simp: generate_enc_password_def PWD_SALT_SIZE Let_def dest: readable_string_inj)
qed

theorem check_password_exact_witness:
  "let digest = \<lambda>m d. take 32 (d @ replicate 32 0)
   in check_password digest [112, 119] (generate_new_enc_password digest [1, 2, 3, 4, 5, 6, 7, 8] [112, 119]) = 0 \<and>
      check_password digest [112] (generate_new_enc_password digest [1, 2, 3, 4, 5, 6, 7, 8] [112, 119]) \<noteq> 0"
proof -
  let ?digest = "\<lambda>m d. take 32 (d @ replicate 32 0) :: u8 list"
  have d: "length (?digest EVP_sha256 d) = 32" for d by simp
  have "read_bytes [1, 2, 3, 4, 5, 6, 7, 8 :: u8] 0 8 = [1, 2, 3, 4, 5, 6, 7, 8]" by code_simp
  then show ?thesis
    using check_password_exact [of ?digest, OF d, of "[112, 119]" "[1, 2, 3, 4, 5, 6, 7, 8]" "[112, 119]"]
      check_password_exact [of ?digest, OF d, of "[112]" "[1, 2, 3, 4, 5, 6, 7, 8]" "[112, 119]"]
      replicate_Suc [of 22 "0 :: u8"]
    by (simp add: c_str_def)
qed

end
