(* ===== verification/Map_Spec.thy ===== *)
theory Map_Spec
  imports Turn_Prelude
begin

text \<open>
  The contract that the clients of the hash maps of \<^verbatim>\<open>src/coturn/src/server/ns_turn_maps.c\<close> rely on. Keys are
  compared by \<open>keq\<close>, since socket addresses are equal without being identical; \<open>vk\<close> and \<open>vv\<close> are the keys
  and values a client may use (the maps reserve zero).

  \<open>fresh_map\<close> promises what an insertion does when the key is absent; this is all the "local" map gives.
  \<open>update_map\<close> also promises that an insertion replaces the value of a key that is present.
\<close>

text \<open>The mark of an initialised map, in the maps of 64-bit keys and of addresses.\<close>

definition MAGIC_HASH :: u64 where "MAGIC_HASH = 0x90ABCDEF"

section \<open>Buckets\<close>

text \<open>The bindings of a table of buckets, where bucket \<open>i\<close> holds distinct keys of index \<open>i\<close>.\<close>

definition buckets_ok :: "('k \<Rightarrow> nat) \<Rightarrow> ('k \<times> 'v) list list \<Rightarrow> bool" where
  "buckets_ok idx bs \<longleftrightarrow> (\<forall>i < length bs. distinct (map fst (bs ! i)) \<and> (\<forall>k \<in> fst ` set (bs ! i). idx k = i))"

lemma buckets_distinct:
  assumes "buckets_ok idx bs"
  shows "distinct (map fst (concat bs))"
proof -
  have "distinct (map fst (concat (take n bs))) \<and> (\<forall>k \<in> fst ` set (concat (take n bs)). idx k < n)"
    if "n \<le> length bs" for n
    using that
  proof (induction n)
    case (Suc n)
    have e: "concat (take (Suc n) bs) = concat (take n bs) @ bs ! n" using Suc by (simp add: take_Suc_conv_app_nth)
    have b: "distinct (map fst (bs ! n))" "\<forall>k \<in> fst ` set (bs ! n). idx k = n"
      using assms Suc by (simp_all add: buckets_ok_def)
    have IH: "distinct (map fst (concat (take n bs)))" "\<forall>k \<in> fst ` set (concat (take n bs)). idx k < n"
      using Suc by simp_all
    have "False" if "k \<in> fst ` set (concat (take n bs))" "k \<in> fst ` set (bs ! n)" for k
      using bspec [OF b(2) that(2)] bspec [OF IH(2) that(1)] by simp
    then have "fst ` set (concat (take n bs)) \<inter> fst ` set (bs ! n) = {}" by blast
    moreover have "\<forall>k \<in> fst ` set (concat (take n bs)) \<union> fst ` set (bs ! n). idx k < Suc n"
      using b(2) IH(2) less_SucI lessI by (metis Un_iff)
    ultimately show ?case unfolding e map_append distinct_append set_map set_append image_Un
      using b(1) IH(1) by (simp only: set_map simp_thms)
  qed simp
  from this [of "length bs"] show ?thesis by simp
qed

lemma buckets_map_of:
  assumes "buckets_ok idx bs" "idx k < length bs"
  shows "map_of (concat bs) k = map_of (bs ! idx k) k"
proof (cases "map_of (concat bs) k")
  case None
  then have "k \<notin> fst ` set (concat bs)" by (simp only: map_of_eq_None_iff) simp
  then have "k \<notin> fst ` set (bs ! idx k)" using nth_mem [OF assms(2)] by auto
  then have "map_of (bs ! idx k) k = None" by (simp only: map_of_eq_None_iff) simp
  then show ?thesis using None by simp
next
  case (Some v)
  then have "(k, v) \<in> set (concat bs)" by (rule map_of_SomeD)
  then obtain b where "b \<in> set bs" "(k, v) \<in> set b" by auto
  then obtain i where i: "i < length bs" "(k, v) \<in> set (bs ! i)" by (metis in_set_conv_nth)
  have "k \<in> fst ` set (bs ! i)" using imageI [OF i(2), of fst] by simp
  then have "idx k = i" using assms(1) i(1) unfolding buckets_ok_def by blast
  then show ?thesis using assms(1) i Some by (simp add: buckets_ok_def)
qed

lemma distinct_map_of_set: "distinct (map fst es) \<Longrightarrow> set es = {(k, v). map_of es k = Some v}"
  by (auto dest: map_of_SomeD)

section \<open>The contract\<close>

locale fresh_map =
  fixes look :: "'m \<Rightarrow> 'k \<Rightarrow> 'v option"
    and ins :: "'m \<Rightarrow> 'k \<Rightarrow> 'v \<Rightarrow> 'm"
    and del :: "'m \<Rightarrow> 'k \<Rightarrow> 'm"
    and inv :: "'m \<Rightarrow> bool"
    and keq :: "'k \<Rightarrow> 'k \<Rightarrow> bool"
    and vk :: "'k \<Rightarrow> bool"
    and vv :: "'v \<Rightarrow> bool"
  assumes keq_refl: "vk k \<Longrightarrow> keq k k"
    and keq_sym: "keq k k' \<Longrightarrow> keq k' k"
    and keq_trans: "keq k k' \<Longrightarrow> keq k' k'' \<Longrightarrow> keq k k''"
    and look_keq: "inv m \<Longrightarrow> vk k \<Longrightarrow> vk k' \<Longrightarrow> keq k k' \<Longrightarrow> look m k = look m k'"
    and inv_ins_fresh: "inv m \<Longrightarrow> vk k \<Longrightarrow> vv v \<Longrightarrow> look m k = None \<Longrightarrow> inv (ins m k v)"
    and look_ins_fresh: "inv m \<Longrightarrow> vk k \<Longrightarrow> vv v \<Longrightarrow> vk k' \<Longrightarrow> look m k = None \<Longrightarrow>
      look (ins m k v) k' = (if keq k k' then Some v else look m k')"
    and inv_del: "inv m \<Longrightarrow> vk k \<Longrightarrow> inv (del m k)"
    and look_del: "inv m \<Longrightarrow> vk k \<Longrightarrow> vk k' \<Longrightarrow>
      look (del m k) k' = (if keq k k' then None else look m k')"
begin

lemma look_ins_same: "inv m \<Longrightarrow> vk k \<Longrightarrow> vv v \<Longrightarrow> look m k = None \<Longrightarrow> look (ins m k v) k = Some v"
  by (simp add: look_ins_fresh keq_refl)

lemma look_del_same: "inv m \<Longrightarrow> vk k \<Longrightarrow> look (del m k) k = None"
  by (simp add: look_del keq_refl)

text \<open>Deleting a key makes room for it again.\<close>

lemma replace:
  assumes "inv m" "vk k" "vv v" "vk k'"
  shows "inv (ins (del m k) k v)"
    "look (ins (del m k) k v) k' = (if keq k k' then Some v else look m k')"
  using assms inv_ins_fresh [of "del m k" k v] look_ins_fresh [of "del m k" k v k']
  by (simp_all add: inv_del look_del_same look_del)

lemma del_ins_fresh:
  assumes "inv m" "vk k" "vv v" "vk k'" "look m k = None"
  shows "look (del (ins m k v) k) k' = look m k'"
  using assms look_keq [of m k k'] by (auto simp: look_del look_ins_fresh inv_ins_fresh)

lemma ins_fresh_comm:
  assumes "inv m" "vk k" "vv v" "vk k'" "vv v'" "vk j" "look m k = None" "look m k' = None" "\<not> keq k k'"
  shows "look (ins (ins m k v) k' v') j = look (ins (ins m k' v') k v) j"
proof -
  have r: "\<not> keq k' k" using assms(9) keq_sym by blast
  have n: "\<not> (keq k j \<and> keq k' j)" using assms(9) keq_trans keq_sym by blast
  show ?thesis using assms(9) r n
    by (simp add: look_ins_fresh inv_ins_fresh assms(1-8))
qed

text \<open>A sequence of deletions removes exactly the keys it names.\<close>

lemma fold_del:
  assumes "inv m" "list_all vk ks" "vk j"
  shows "inv (fold (\<lambda>k m. del m k) ks m)"
    "look (fold (\<lambda>k m. del m k) ks m) j = (if list_ex (\<lambda>k. keq k j) ks then None else look m j)"
  using assms by (induction ks arbitrary: m) (auto simp: inv_del look_del)

end

locale update_map = fresh_map +
  assumes inv_ins: "inv m \<Longrightarrow> vk k \<Longrightarrow> vv v \<Longrightarrow> inv (ins m k v)"
    and look_ins: "inv m \<Longrightarrow> vk k \<Longrightarrow> vv v \<Longrightarrow> vk k' \<Longrightarrow>
      look (ins m k v) k' = (if keq k k' then Some v else look m k')"
begin

lemma ins_overwrites:
  assumes "inv m" "vk k" "vv v" "vv v'" "vk j"
  shows "look (ins (ins m k v) k v') j = look (ins m k v') j"
  using assms by (simp add: look_ins inv_ins)

text \<open>Inserting a list of bindings: the last binding of a key wins.\<close>

lemma fold_ins:
  assumes "inv m" "list_all (\<lambda>(k, v). vk k \<and> vv v) kvs" "vk j"
  shows "inv (fold (\<lambda>(k, v) m. ins m k v) kvs m)"
    "look (fold (\<lambda>(k, v) m. ins m k v) kvs m) j =
       (case find (\<lambda>(k, v). keq k j) (rev kvs) of Some (k, v) \<Rightarrow> Some v | None \<Rightarrow> look m j)"
proof -
  have "inv (fold (\<lambda>(k, v) m. ins m k v) kvs m) \<and>
    look (fold (\<lambda>(k, v) m. ins m k v) kvs m) j =
       (case find (\<lambda>(k, v). keq k j) (rev kvs) of Some (k, v) \<Rightarrow> Some v | None \<Rightarrow> look m j)"
    using assms(2)
  proof (induction kvs rule: rev_induct)
    case (snoc kv kvs)
    obtain k v where kv: "kv = (k, v)" by fastforce
    from snoc kv have "vk k" "vv v" and IH: "inv (fold (\<lambda>(k, v) m. ins m k v) kvs m)"
      "look (fold (\<lambda>(k, v) m. ins m k v) kvs m) j =
         (case find (\<lambda>(k, v). keq k j) (rev kvs) of Some (k, v) \<Rightarrow> Some v | None \<Rightarrow> look m j)" by auto
    then show ?case using kv assms(3) by (simp add: inv_ins look_ins)
  qed (simp add: assms(1))
  then show "inv (fold (\<lambda>(k, v) m. ins m k v) kvs m)"
    "look (fold (\<lambda>(k, v) m. ins m k v) kvs m) j =
       (case find (\<lambda>(k, v). keq k j) (rev kvs) of Some (k, v) \<Rightarrow> Some v | None \<Rightarrow> look m j)" by auto
qed

end

text \<open>A map that takes at most \<open>cap\<close> keys.\<close>

locale capped_map =
  fixes look :: "'m \<Rightarrow> 'k \<Rightarrow> 'v option"
    and ins :: "'m \<Rightarrow> 'k \<Rightarrow> 'v \<Rightarrow> 'm"
    and del :: "'m \<Rightarrow> 'k \<Rightarrow> 'm"
    and inv :: "'m \<Rightarrow> bool"
    and cap :: nat
  assumes finite_look: "inv m \<Longrightarrow> finite (dom (look m))"
    and inv_ins: "inv m \<Longrightarrow> card (dom (look m)) < cap \<Longrightarrow> inv (ins m k v)"
    and look_ins: "inv m \<Longrightarrow> card (dom (look m)) < cap \<Longrightarrow> look (ins m k v) = (look m)(k \<mapsto> v)"
    and inv_del: "inv m \<Longrightarrow> inv (del m k)"
    and look_del: "inv m \<Longrightarrow> look (del m k) = (look m)(k := None)"
begin

lemma card_ins:
  assumes "inv m" "card (dom (look m)) < cap"
  shows "card (dom (look (ins m k v))) \<le> Suc (card (dom (look m)))"
  using assms finite_look [of m] by (simp add: look_ins card_insert_if)

lemma card_del: "inv m \<Longrightarrow> card (dom (look (del m k))) \<le> card (dom (look m))"
  using finite_look [of m] by (simp add: look_del card_mono)

text \<open>Deleting a key makes room for it again, at any load.\<close>

lemma replace:
  assumes "inv m" "k \<in> dom (look m)" "card (dom (look m)) \<le> cap"
  shows "inv (ins (del m k) k v)" "look (ins (del m k) k v) = (look m)(k \<mapsto> v)"
proof -
  have "dom (look (del m k)) = dom (look m) - {k}" using assms(1) by (simp add: look_del)
  then have "card (dom (look (del m k))) < card (dom (look m))"
    using card_Diff1_less [OF finite_look [OF assms(1)] assms(2)] by simp
  then have "card (dom (look (del m k))) < cap" using assms(3) by simp
  then show "inv (ins (del m k) k v)" "look (ins (del m k) k v) = (look m)(k \<mapsto> v)"
    using assms(1) by (simp_all add: inv_ins inv_del look_ins look_del)
qed

end

end
