(* ===== verification/String_Map.thy ===== *)
theory String_Map
  imports Map_Spec
begin

text \<open>
  The map from C strings of \<^verbatim>\<open>src/coturn/src/server/ns_turn_maps.c\<close>: 1024 buckets, each a linked list. A key is
  the byte string before its terminating zero. The values handed to the map's \<^verbatim>\<open>del_value_func\<close> (when it has one)
  are returned as a list, in the order of the calls. The mutex operations only test the validity of the map.
\<close>

section \<open>Lists\<close>

type_synonym string_list = "(u8 list \<times> u64) list"

fun string_list_size :: "string_list \<Rightarrow> nat" where
  "string_list_size [] = 0"
| "string_list_size (e # sl) = 1 + string_list_size sl"

text \<open>Frees the whole list; the deletion callback runs on the non-NULL values.\<close>

fun string_list_free :: "bool \<Rightarrow> string_list \<Rightarrow> u64 list" where
  "string_list_free del [] = []"
| "string_list_free del ((k, v) # sl) = (if del \<and> v \<noteq> 0 then [v] else []) @ string_list_free del sl"

definition string_list_add :: "string_list \<Rightarrow> u8 list \<Rightarrow> u64 \<Rightarrow> string_list" where
  "string_list_add sl key val = (key, val) # sl"

fun string_list_remove :: "bool \<Rightarrow> string_list \<Rightarrow> u8 list \<Rightarrow> int \<Rightarrow> string_list \<times> u64 list \<times> int" where
  "string_list_remove del [] key counter = ([], [], counter)"
| "string_list_remove del ((k, v) # sl) key counter =
     (if k = key then
        (case string_list_remove del sl key (counter + 1) of
           (sl', dels, c) \<Rightarrow> (sl', (if del then [v] else []) @ dels, c))
      else
        (case string_list_remove del sl key counter of (sl', dels, c) \<Rightarrow> ((k, v) # sl', dels, c)))"

fun string_list_get :: "string_list \<Rightarrow> u8 list \<Rightarrow> u64 option" where
  "string_list_get [] key = None"
| "string_list_get ((k, v) # sl) key = (if k = key then Some v else string_list_get sl key)"

text \<open>The store \<^verbatim>\<open>elem->value = value\<close> through the element that \<^verbatim>\<open>string_list_get\<close> returned.\<close>

fun string_list_set :: "string_list \<Rightarrow> u8 list \<Rightarrow> u64 \<Rightarrow> string_list" where
  "string_list_set [] key val = []"
| "string_list_set ((k, v) # sl) key val = (if k = key then (k, val) # sl else (k, v) # string_list_set sl key val)"

section \<open>The map\<close>

record ur_string_map =
  slists :: "string_list list"
  smagic :: u64
  del_value_func :: bool

definition STRING_MAP_SIZE :: nat where "STRING_MAP_SIZE = 1024"
definition STRING_MAGIC_HASH :: u64 where "STRING_MAGIC_HASH = 0x90ABCDEF"

definition string_hash :: "u8 list \<Rightarrow> u32" where
  "string_hash key = fold (\<lambda>c hash. ucast c + push_bit 6 hash + push_bit 16 hash - hash) key 0"

definition string_map_index :: "u8 list \<Rightarrow> nat" where
  "string_map_index key = unat (string_hash key) mod STRING_MAP_SIZE"

definition ur_string_map_create :: "bool \<Rightarrow> ur_string_map" where
  "ur_string_map_create del =
     \<lparr>slists = replicate STRING_MAP_SIZE [], smagic = STRING_MAGIC_HASH, del_value_func = del\<rparr>"

definition ur_string_map_valid :: "ur_string_map \<Rightarrow> bool" where
  "ur_string_map_valid m \<longleftrightarrow> smagic m = STRING_MAGIC_HASH"

definition ur_string_map_put :: "ur_string_map \<Rightarrow> u8 list \<Rightarrow> u64 \<Rightarrow> int \<times> ur_string_map \<times> u64 list" where
  "ur_string_map_put m key val =
     (if \<not> ur_string_map_valid m then (- 1, m, [])
      else
        let i = string_map_index key; sl = slists m ! i in
        (case string_list_get sl key of
           Some v \<Rightarrow>
             if v \<noteq> val
             then (0, m\<lparr>slists := (slists m)[i := string_list_set sl key val]\<rparr>, if del_value_func m then [v] else [])
             else (0, m, [])
         | None \<Rightarrow> (0, m\<lparr>slists := (slists m)[i := string_list_add sl key val]\<rparr>, [])))"

definition ur_string_map_get :: "ur_string_map \<Rightarrow> u8 list \<Rightarrow> u64 option" where
  "ur_string_map_get m key =
     (if \<not> ur_string_map_valid m then None else string_list_get (slists m ! string_map_index key) key)"

definition ur_string_map_del :: "ur_string_map \<Rightarrow> u8 list \<Rightarrow> int \<times> ur_string_map \<times> u64 list" where
  "ur_string_map_del m key =
     (if \<not> ur_string_map_valid m then (0, m, [])
      else
        let i = string_map_index key in
        (case string_list_remove (del_value_func m) (slists m ! i) key 0 of
           (sl, dels, counter) \<Rightarrow> (c_bool (counter > 0), m\<lparr>slists := (slists m)[i := sl]\<rparr>, dels)))"

definition ur_string_map_clean :: "ur_string_map \<Rightarrow> ur_string_map \<times> u64 list" where
  "ur_string_map_clean m =
     (if ur_string_map_valid m
      then (m\<lparr>slists := map (\<lambda>sl. []) (slists m)\<rparr>, concat (map (string_list_free (del_value_func m)) (slists m)))
      else (m, []))"

text \<open>\<open>None\<close>: the map is released and the caller's pointer set to NULL.\<close>

definition ur_string_map_free :: "ur_string_map \<Rightarrow> ur_string_map option \<times> u64 list" where
  "ur_string_map_free m =
     (if ur_string_map_valid m then (None, concat (map (string_list_free (del_value_func m)) (slists m)))
      else (Some m, []))"

definition ur_string_map_size :: "ur_string_map \<Rightarrow> nat" where
  "ur_string_map_size m =
     (if ur_string_map_valid m then fold (\<lambda>sl ret. ret + string_list_size sl) (slists m) 0 else 0)"

definition ur_string_map_lock :: "ur_string_map \<Rightarrow> int" where
  "ur_string_map_lock m = (if ur_string_map_valid m then 0 else - 1)"

definition ur_string_map_unlock :: "ur_string_map \<Rightarrow> int" where
  "ur_string_map_unlock m = (if ur_string_map_valid m then 0 else - 1)"

section \<open>The invariant and the laws of the map\<close>

definition string_map_ok :: "ur_string_map \<Rightarrow> bool" where
  "string_map_ok m \<longleftrightarrow> ur_string_map_valid m \<and> length (slists m) = STRING_MAP_SIZE \<and>
     (\<forall>i < STRING_MAP_SIZE. distinct (map fst (slists m ! i)) \<and>
        list_all (\<lambda>(k, v). string_map_index k = i) (slists m ! i))"

lemma string_map_index_less: "string_map_index k < STRING_MAP_SIZE"
  by (simp add: string_map_index_def STRING_MAP_SIZE_def)

lemma string_list_get_map_of: "string_list_get sl k = map_of sl k"
  by (induction sl k rule: string_list_get.induct) auto

lemma string_list_set_keys: "map fst (string_list_set sl k v) = map fst sl"
  by (induction sl k v rule: string_list_set.induct) auto

lemma string_list_set_map_of:
  "map_of sl k \<noteq> None \<Longrightarrow> map_of (string_list_set sl k v) = (map_of sl)(k \<mapsto> v)"
  by (induction sl k v rule: string_list_set.induct) (auto split: if_splits)

lemma string_list_remove_filter:
  "string_list_remove del sl k c =
     (filter (\<lambda>(k', v). k' \<noteq> k) sl, if del then map snd (filter (\<lambda>(k', v). k' = k) sl) else [],
      c + int (length (filter (\<lambda>(k', v). k' = k) sl)))"
  by (induction del sl k c rule: string_list_remove.induct) auto

lemma map_of_filter_neq: "map_of (filter (\<lambda>(k', v). k' \<noteq> k) sl) = (map_of sl)(k := None)"
  by (induction sl) auto

lemma filter_key_distinct:
  "distinct (map fst sl) \<Longrightarrow> filter (\<lambda>(k', v). k' = k) sl = (case map_of sl k of Some v \<Rightarrow> [(k, v)] | None \<Rightarrow> [])"
proof (induction sl)
  case (Cons e sl)
  then show ?case
  proof (cases "fst e = k")
    case True
    then have "map_of sl k = None" using Cons.prems by (simp add: map_of_eq_None_iff)
    then show ?thesis using True Cons by (cases e) auto
  qed (cases e, auto)
qed simp

lemma list_all_keys: "list_all (\<lambda>(k, v). P k) a = list_all P (map fst a)"
  by (induction a) auto

lemma string_map_ok_create: "string_map_ok (ur_string_map_create del)"
  by (simp add: string_map_ok_def ur_string_map_create_def ur_string_map_valid_def)

lemma string_map_update:
  assumes "string_map_ok m" "distinct (map fst sl)" "list_all (\<lambda>(k', v). string_map_index k' = string_map_index k) sl"
    "map_of sl = (map_of (slists m ! string_map_index k))(k := r)"
  shows "string_map_ok (m\<lparr>slists := (slists m)[string_map_index k := sl]\<rparr>)"
    "ur_string_map_get (m\<lparr>slists := (slists m)[string_map_index k := sl]\<rparr>) = (ur_string_map_get m)(k := r)"
proof -
  have l: "string_map_index k < length (slists m)" "length (slists m) = STRING_MAP_SIZE" "ur_string_map_valid m"
    using assms(1) string_map_index_less by (simp_all add: string_map_ok_def)
  show "string_map_ok (m\<lparr>slists := (slists m)[string_map_index k := sl]\<rparr>)"
    using assms l by (auto simp: string_map_ok_def ur_string_map_valid_def nth_list_update)
  show "ur_string_map_get (m\<lparr>slists := (slists m)[string_map_index k := sl]\<rparr>) = (ur_string_map_get m)(k := r)"
    using l assms(4)
    by (auto simp: ur_string_map_get_def ur_string_map_valid_def string_list_get_map_of nth_list_update fun_eq_iff)
qed

lemma ur_string_map_put_laws:
  assumes "string_map_ok m" "ur_string_map_put m k v = (r, m', dels)"
  shows "r = 0" "string_map_ok m'" "ur_string_map_get m' = (ur_string_map_get m)(k \<mapsto> v)"
    "dels = (case ur_string_map_get m k of Some w \<Rightarrow> if w \<noteq> v \<and> del_value_func m then [w] else [] | None \<Rightarrow> [])"
proof -
  let ?i = "string_map_index k" and ?sl = "slists m ! string_map_index k"
  have b: "distinct (map fst ?sl)" "list_all (\<lambda>(k', v). string_map_index k' = ?i) ?sl" "ur_string_map_valid m"
    using assms(1) string_map_index_less by (simp_all add: string_map_ok_def)
  have g: "ur_string_map_get m k = map_of ?sl k" using b by (simp add: ur_string_map_get_def string_list_get_map_of)
  have "r = 0 \<and> string_map_ok m' \<and> ur_string_map_get m' = (ur_string_map_get m)(k \<mapsto> v) \<and>
    dels = (case ur_string_map_get m k of Some w \<Rightarrow> if w \<noteq> v \<and> del_value_func m then [w] else [] | None \<Rightarrow> [])"
  proof (cases "map_of ?sl k")
    case None
    then have "k \<notin> fst ` set ?sl" by (simp add: map_of_eq_None_iff)
    then show ?thesis using assms b None g string_map_update [OF assms(1), of "(k, v) # ?sl" k "Some v"]
      by (auto simp: ur_string_map_put_def Let_def string_list_get_map_of string_list_add_def)
  next
    case (Some w)
    show ?thesis
    proof (cases "w = v")
      case True
      then show ?thesis using assms b Some g
        by (auto simp: ur_string_map_put_def Let_def string_list_get_map_of fun_upd_idem)
    next
      case False
      have "list_all (\<lambda>(k', v). string_map_index k' = ?i) (string_list_set ?sl k v)"
        using b(2) by (simp add: list_all_keys string_list_set_keys del: list.pred_map)
      then show ?thesis
        using False assms b Some g string_map_update [OF assms(1), of "string_list_set ?sl k v" k "Some v"]
        by (auto simp: ur_string_map_put_def Let_def string_list_get_map_of string_list_set_map_of string_list_set_keys)
    qed
  qed
  then show "r = 0" "string_map_ok m'" "ur_string_map_get m' = (ur_string_map_get m)(k \<mapsto> v)"
    "dels = (case ur_string_map_get m k of Some w \<Rightarrow> if w \<noteq> v \<and> del_value_func m then [w] else [] | None \<Rightarrow> [])"
    by simp_all
qed

lemma ur_string_map_del_laws:
  assumes "string_map_ok m" "ur_string_map_del m k = (r, m', dels)"
  shows "string_map_ok m'" "ur_string_map_get m' = (ur_string_map_get m)(k := None)"
    "r = c_bool (ur_string_map_get m k \<noteq> None)"
    "dels = (case ur_string_map_get m k of Some w \<Rightarrow> if del_value_func m then [w] else [] | None \<Rightarrow> [])"
proof -
  let ?i = "string_map_index k" and ?sl = "slists m ! string_map_index k"
  let ?f = "filter (\<lambda>(k', v). k' \<noteq> k) ?sl"
  have b: "distinct (map fst ?sl)" "list_all (\<lambda>(k', v). string_map_index k' = ?i) ?sl" "ur_string_map_valid m"
    using assms(1) string_map_index_less by (simp_all add: string_map_ok_def)
  have g: "ur_string_map_get m k = map_of ?sl k" using b by (simp add: ur_string_map_get_def string_list_get_map_of)
  have m': "m' = m\<lparr>slists := (slists m)[?i := ?f]\<rparr>" "r = c_bool (map_of ?sl k \<noteq> None)"
    "dels = (case map_of ?sl k of Some w \<Rightarrow> if del_value_func m then [w] else [] | None \<Rightarrow> [])"
    using assms(2) b(3) filter_key_distinct [OF b(1), of k]
    by (cases "map_of ?sl k"; auto simp: ur_string_map_del_def Let_def string_list_remove_filter)+
  have f: "distinct (map fst ?f)" "list_all (\<lambda>(k', v). string_map_index k' = ?i) ?f"
    using b distinct_map_filter [of fst ?sl] by (auto simp: list_all_iff)
  show "string_map_ok m'" "ur_string_map_get m' = (ur_string_map_get m)(k := None)"
    using string_map_update [OF assms(1) f map_of_filter_neq] by (simp_all add: m')
  show "r = c_bool (ur_string_map_get m k \<noteq> None)"
    "dels = (case ur_string_map_get m k of Some w \<Rightarrow> if del_value_func m then [w] else [] | None \<Rightarrow> [])"
    by (simp_all add: m' g)
qed

lemma string_map_sel_laws:
  assumes "string_map_ok m"
  shows "string_map_ok (fst (snd (ur_string_map_put m k v)))"
    "ur_string_map_get (fst (snd (ur_string_map_put m k v))) j = (if k = j then Some v else ur_string_map_get m j)"
    "string_map_ok (fst (snd (ur_string_map_del m k)))"
    "ur_string_map_get (fst (snd (ur_string_map_del m k))) j = (if k = j then None else ur_string_map_get m j)"
  using ur_string_map_put_laws(2,3) [OF assms, of k v] ur_string_map_del_laws(1,2) [OF assms, of k]
  by (metis fun_upd_apply prod.collapse)+

interpretation sm: update_map ur_string_map_get "\<lambda>m k v. fst (snd (ur_string_map_put m k v))"
  "\<lambda>m k. fst (snd (ur_string_map_del m k))" string_map_ok "(=)" "\<lambda>k. True" "\<lambda>v. True"
  by unfold_locales (auto simp: string_map_sel_laws)

lemma string_map_buckets: "string_map_ok m \<Longrightarrow> buckets_ok string_map_index (slists m)"
  by (fastforce simp: string_map_ok_def buckets_ok_def list_all_iff)

lemma string_map_entries:
  assumes "string_map_ok m"
  shows "distinct (map fst (concat (slists m)))" "map_of (concat (slists m)) = ur_string_map_get m"
proof -
  show "distinct (map fst (concat (slists m)))" by (rule buckets_distinct [OF string_map_buckets [OF assms]])
  have "string_map_index k < length (slists m)" for k
    using assms string_map_index_less by (simp add: string_map_ok_def)
  then show "map_of (concat (slists m)) = ur_string_map_get m"
    using buckets_map_of [OF string_map_buckets [OF assms]] assms
    by (auto simp: ur_string_map_get_def string_map_ok_def string_list_get_map_of)
qed

lemma string_list_size_length: "string_list_size sl = length sl"
  by (induction sl) auto

lemma ur_string_map_size_length: "ur_string_map_valid m \<Longrightarrow> ur_string_map_size m = length (concat (slists m))"
proof -
  have "fold (\<lambda>sl ret. ret + string_list_size sl) ls r = r + length (concat ls)" for ls and r :: nat
    by (induction ls arbitrary: r) (auto simp: string_list_size_length)
  then show "ur_string_map_valid m \<Longrightarrow> ?thesis" by (simp add: ur_string_map_size_def)
qed

section \<open>Properties\<close>

text \<open>\<^bold>\<open>C14\<close>: on well-formed maps, put and delete implement the update of a finite map from strings, and a value is
  handed to the deletion callback exactly when it leaves the map, and once: the old value of a put that changes it, and
  the value of a deleted key. A put of another value for a present key replaces the value and succeeds, although the
  comments at the function and in the header call this case an error.\<close>

theorem string_map_refines:
  assumes "string_map_ok m" "ur_string_map_put m k v = (r, m', pdels)" "ur_string_map_del m k = (d, n, ddels)"
  shows "r = 0 \<and> string_map_ok m' \<and> ur_string_map_get m' = (ur_string_map_get m)(k \<mapsto> v) \<and>
    string_map_ok n \<and> ur_string_map_get n = (ur_string_map_get m)(k := None) \<and>
    d = c_bool (ur_string_map_get m k \<noteq> None) \<and>
    pdels = (case ur_string_map_get m k of Some w \<Rightarrow> if w \<noteq> v \<and> del_value_func m then [w] else [] | None \<Rightarrow> []) \<and>
    ddels = (case ur_string_map_get m k of Some w \<Rightarrow> if del_value_func m then [w] else [] | None \<Rightarrow> [])"
  using ur_string_map_put_laws [OF assms(1,2)] ur_string_map_del_laws [OF assms(1,3)] by blast

theorem string_map_refines_witness:
  "string_map_ok (ur_string_map_create True) \<and>
   ur_string_map_get (fst (snd (ur_string_map_put (ur_string_map_create True) [97] 5))) [97] = Some 5 \<and>
   snd (snd (ur_string_map_put (fst (snd (ur_string_map_put (ur_string_map_create True) [97] 5))) [97] 6)) = [5]"
proof -
  let ?m = "ur_string_map_create True"
  obtain r m' p d n e where a: "ur_string_map_put ?m [97] 5 = (r, m', p)" "ur_string_map_del ?m [97] = (d, n, e)"
    using prod_cases3 by metis
  obtain r2 m2 p2 d2 n2 e2 where b: "ur_string_map_put m' [97] 6 = (r2, m2, p2)" "ur_string_map_del m' [97] = (d2, n2, e2)"
    using prod_cases3 by metis
  have f: "del_value_func m'"
    using a(1) by (auto simp: ur_string_map_put_def Let_def ur_string_map_create_def split: if_splits option.splits)
  note one = string_map_refines [OF string_map_ok_create a]
  then have ok: "string_map_ok m'" "ur_string_map_get m' [97] = Some 5" by simp_all
  show ?thesis using string_map_refines [OF ok(1) b] a b ok f string_map_ok_create by simp
qed

text \<open>The size of a map is the number of its keys, and cleaning it hands every non-NULL value to the deletion
  callback, once per key, and leaves an empty well-formed map.\<close>

theorem string_map_clean_releases:
  assumes "string_map_ok m" "del_value_func m" "ur_string_map_clean m = (m', dels)"
  shows "ur_string_map_size m = card (dom (ur_string_map_get m)) \<and> string_map_ok m' \<and> ur_string_map_get m' = Map.empty \<and>
    (\<exists>ks. distinct ks \<and> set ks = {k. \<exists>v. ur_string_map_get m k = Some v \<and> v \<noteq> 0} \<and>
      dels = map (\<lambda>k. the (ur_string_map_get m k)) ks)"
proof -
  let ?es = "concat (slists m)" and ?g = "ur_string_map_get m"
  have v: "ur_string_map_valid m" "length (slists m) = STRING_MAP_SIZE" using assms(1) by (simp_all add: string_map_ok_def)
  note e = string_map_entries [OF assms(1)]
  have "dom ?g = fst ` set ?es" unfolding e(2) [symmetric] by (rule dom_map_of_conv_image_fst)
  then have size: "ur_string_map_size m = card (dom ?g)"
    using v(1) distinct_card [OF e(1)] by (simp add: ur_string_map_size_length)
  have m': "m' = m\<lparr>slists := map (\<lambda>sl. []) (slists m)\<rparr>" "dels = concat (map (string_list_free True) (slists m))"
    using assms(2,3) v by (auto simp: ur_string_map_clean_def)
  have ok: "string_map_ok m'" using v by (simp add: m' string_map_ok_def ur_string_map_valid_def)
  have emp: "ur_string_map_get m' k = None" for k
    using v string_map_index_less [of k] by (simp add: m' ur_string_map_get_def ur_string_map_valid_def)
  let ?live = "filter (\<lambda>(k, v). v \<noteq> 0) ?es"
  have fr: "string_list_free True sl = map snd (filter (\<lambda>(k, v). v \<noteq> 0) sl)" for sl
    by (induction sl) auto
  have "concat (map (string_list_free True) ls) = map snd (filter (\<lambda>(k, v). v \<noteq> 0) (concat ls))" for ls
    by (induction ls) (simp_all add: fr)
  then have d: "dels = map snd ?live" by (simp add: m')
  have g: "?g k = Some v \<longleftrightarrow> (k, v) \<in> set ?es" for k v
    using distinct_map_of_set [OF e(1)] e(2) by auto
  have "map snd ?live = map (\<lambda>k. the (?g k)) (map fst ?live)"
    using iffD2 [OF g] by (auto simp del: set_concat)
  moreover have "distinct (map fst ?live)" using e(1) by (simp only: distinct_map_filter)
  moreover have "set (map fst ?live) = {k. \<exists>v. ?g k = Some v \<and> v \<noteq> 0}"
    using g by (force simp del: set_concat)
  ultimately show ?thesis using size ok emp d by blast
qed

theorem string_map_clean_releases_witness:
  "string_map_ok (ur_string_map_create True) \<and> ur_string_map_size (ur_string_map_create True) =
     card (dom (ur_string_map_get (ur_string_map_create True)))"
  using string_map_clean_releases [OF string_map_ok_create, of True
      "fst (ur_string_map_clean (ur_string_map_create True))" "snd (ur_string_map_clean (ur_string_map_create True))"]
    string_map_ok_create
  by (simp add: ur_string_map_create_def)

end
