(* ===== verification/Addr_Map.thy ===== *)
theory Addr_Map
  imports Map_Spec Io_Addr
begin

text \<open>
  The map from socket addresses of \<^verbatim>\<open>src/coturn/src/server/ns_turn_maps.c\<close>: 1024 buckets selected by
  \<^verbatim>\<open>addr_hash\<close>, each with four inline elements and a growing array of extra elements. An element is free when
  its value is zero; keys are compared with \<^verbatim>\<open>addr_eq\<close>. A pointer to an element of a bucket is an
  \<open>elem_ref\<close>. The callbacks take a value and return nothing: an operation that calls one returns the list of the
  values it was called on.
\<close>

section \<open>Buckets\<close>

type_synonym addr_elem = "ioa_addr \<times> u64"

record addr_list_header =
  main_list :: "addr_elem list"
  extra_list :: "addr_elem list"

datatype elem_ref = Main nat | Extra nat

definition ADDR_ARRAY_SIZE :: nat where "ADDR_ARRAY_SIZE = 4"
definition ADDR_MAP_SIZE :: nat where "ADDR_MAP_SIZE = 1024"

definition addr_list_zero :: addr_list_header where
  "addr_list_zero = \<lparr>main_list = replicate ADDR_ARRAY_SIZE (addr_set_any, 0), extra_list = []\<rparr>"

fun first_idx :: "('a \<Rightarrow> bool) \<Rightarrow> 'a list \<Rightarrow> nat option" where
  "first_idx P [] = None"
| "first_idx P (x # xs) = (if P x then Some 0 else map_option Suc (first_idx P xs))"

definition elem_find :: "(addr_elem \<Rightarrow> bool) \<Rightarrow> addr_list_header \<Rightarrow> elem_ref option" where
  "elem_find P slh =
     (case first_idx P (main_list slh) of
        Some i \<Rightarrow> Some (Main i)
      | None \<Rightarrow> map_option Extra (first_idx P (extra_list slh)))"

fun elem_load :: "addr_list_header \<Rightarrow> elem_ref \<Rightarrow> addr_elem" where
  "elem_load slh (Main i) = main_list slh ! i"
| "elem_load slh (Extra i) = extra_list slh ! i"

fun elem_store :: "addr_list_header \<Rightarrow> elem_ref \<Rightarrow> addr_elem \<Rightarrow> addr_list_header" where
  "elem_store slh (Main i) x = slh\<lparr>main_list := (main_list slh)[i := x]\<rparr>"
| "elem_store slh (Extra i) x = slh\<lparr>extra_list := (extra_list slh)[i := x]\<rparr>"

definition addr_list_free :: "addr_list_header \<Rightarrow> addr_list_header" where
  "addr_list_free slh = addr_list_zero"

definition addr_list_add :: "addr_list_header \<Rightarrow> ioa_addr option \<Rightarrow> u64 \<Rightarrow> addr_list_header" where
  "addr_list_add slh key val =
     (if key = None \<or> val = 0 then slh
      else
        let (slh, elem) =
          (case elem_find (\<lambda>(k, v). v = 0) slh of
             Some e \<Rightarrow> (slh, e)
           | None \<Rightarrow> (slh\<lparr>extra_list := extra_list slh @ [(addr_set_any, 0)]\<rparr>, Extra (length (extra_list slh))))
        in elem_store slh elem (addr_cpy (fst (elem_load slh elem)) key, val))"

fun addr_elems_remove :: "addr_elem list \<Rightarrow> ioa_addr option \<Rightarrow> addr_elem list \<times> u64 list" where
  "addr_elems_remove [] key = ([], [])"
| "addr_elems_remove ((k, v) # es) key =
     (case addr_elems_remove es key of
        (es', dels) \<Rightarrow>
          if v \<noteq> 0 \<and> addr_eq (Some k) key then ((k, 0) # es', v # dels) else ((k, v) # es', dels))"

text \<open>The bucket after the removal, the deleted values and the counter.\<close>

definition addr_list_remove :: "addr_list_header \<Rightarrow> ioa_addr option \<Rightarrow> addr_list_header \<times> u64 list \<times> int" where
  "addr_list_remove slh key =
     (if key = None then (slh, [], 0)
      else
        let (m, dm) = addr_elems_remove (main_list slh) key;
            (x, dx) = addr_elems_remove (extra_list slh) key
        in (slh\<lparr>main_list := m, extra_list := x\<rparr>, dm @ dx, int (length dm + length dx)))"

definition elems :: "addr_list_header \<Rightarrow> addr_elem list" where
  "elems slh = main_list slh @ extra_list slh"

definition addr_list_foreach :: "addr_list_header \<Rightarrow> u64 list" where
  "addr_list_foreach slh = filter (\<lambda>v. v \<noteq> 0) (map snd (elems slh))"

definition addr_list_num_elements :: "addr_list_header \<Rightarrow> nat" where
  "addr_list_num_elements slh = fold (\<lambda>(k, v) ret. if v \<noteq> 0 then ret + 1 else ret) (elems slh) 0"

definition addr_list_size :: "addr_list_header \<Rightarrow> nat" where
  "addr_list_size slh = ADDR_ARRAY_SIZE + length (extra_list slh)"

definition addr_list_get :: "addr_list_header \<Rightarrow> ioa_addr option \<Rightarrow> elem_ref option" where
  "addr_list_get slh key =
     (if key = None then None else elem_find (\<lambda>(k, v). v \<noteq> 0 \<and> addr_eq (Some k) key) slh)"

definition addr_list_get_const :: "addr_list_header \<Rightarrow> ioa_addr option \<Rightarrow> addr_elem option" where
  "addr_list_get_const slh key = map_option (elem_load slh) (addr_list_get slh key)"

section \<open>The map\<close>

record ur_addr_map =
  lists :: "addr_list_header list"
  magic :: u64


definition addr_map_index :: "ioa_addr \<Rightarrow> nat" where
  "addr_map_index key = unat (addr_hash (Some key) AND (of_nat ADDR_MAP_SIZE - 1))"

definition ur_addr_map_valid :: "ur_addr_map \<Rightarrow> bool" where
  "ur_addr_map_valid m \<longleftrightarrow> magic m = MAGIC_HASH"

definition ur_addr_map_zero :: ur_addr_map where
  "ur_addr_map_zero = \<lparr>lists = replicate ADDR_MAP_SIZE addr_list_zero, magic = 0\<rparr>"

definition ur_addr_map_init :: ur_addr_map where
  "ur_addr_map_init = ur_addr_map_zero\<lparr>magic := MAGIC_HASH\<rparr>"

definition ur_addr_map_clean :: "ur_addr_map \<Rightarrow> ur_addr_map" where
  "ur_addr_map_clean m = (if ur_addr_map_valid m then ur_addr_map_zero else m)"

definition ur_addr_map_put :: "ur_addr_map \<Rightarrow> ioa_addr \<Rightarrow> u64 \<Rightarrow> int \<times> ur_addr_map" where
  "ur_addr_map_put m key val =
     (if \<not> ur_addr_map_valid m then (- 1, m)
      else
        let i = addr_map_index key; slh = lists m ! i;
            slh' = (case addr_list_get slh (Some key) of
                      Some e \<Rightarrow> elem_store slh e (fst (elem_load slh e), val)
                    | None \<Rightarrow> addr_list_add slh (Some key) val)
        in (0, m\<lparr>lists := (lists m)[i := slh']\<rparr>))"

text \<open>\<open>Some v\<close> is the result 1 with \<^verbatim>\<open>*value = v\<close>, \<open>None\<close> the result 0.\<close>

definition ur_addr_map_get :: "ur_addr_map \<Rightarrow> ioa_addr \<Rightarrow> u64 option" where
  "ur_addr_map_get m key =
     (if \<not> ur_addr_map_valid m then None
      else map_option snd (addr_list_get_const (lists m ! addr_map_index key) (Some key)))"

definition ur_addr_map_del :: "ur_addr_map \<Rightarrow> ioa_addr \<Rightarrow> int \<times> ur_addr_map \<times> u64 list" where
  "ur_addr_map_del m key =
     (if \<not> ur_addr_map_valid m then (0, m, [])
      else
        let i = addr_map_index key; (slh, dels, counter) = addr_list_remove (lists m ! i) (Some key)
        in (c_bool (counter > 0), m\<lparr>lists := (lists m)[i := slh]\<rparr>, dels))"

definition ur_addr_map_foreach :: "ur_addr_map \<Rightarrow> u64 list" where
  "ur_addr_map_foreach m = (if ur_addr_map_valid m then concat (map addr_list_foreach (lists m)) else [])"

definition ur_addr_map_num_elements :: "ur_addr_map \<Rightarrow> nat" where
  "ur_addr_map_num_elements m =
     (if ur_addr_map_valid m then fold (\<lambda>slh ret. ret + addr_list_num_elements slh) (lists m) 0 else 0)"

definition ur_addr_map_size :: "ur_addr_map \<Rightarrow> nat" where
  "ur_addr_map_size m =
     (if ur_addr_map_valid m then fold (\<lambda>slh ret. ret + addr_list_size slh) (lists m) 0 else 0)"

section \<open>Elements of one bucket\<close>

lemma first_idx_Some: "first_idx P xs = Some i \<Longrightarrow> i < length xs \<and> P (xs ! i)"
  by (induction xs arbitrary: i) (auto split: if_splits)

lemma first_idx_None: "first_idx P xs = None \<longleftrightarrow> (\<forall>x \<in> set xs. \<not> P x)"
  by (induction xs) auto

lemma first_idx_append:
  "first_idx P (xs @ ys) =
     (case first_idx P xs of Some i \<Rightarrow> Some i | None \<Rightarrow> map_option (\<lambda>i. length xs + i) (first_idx P ys))"
  by (induction xs; cases "first_idx P ys") (auto split: option.splits)

fun ref_idx :: "addr_list_header \<Rightarrow> elem_ref \<Rightarrow> nat" where
  "ref_idx slh (Main i) = i"
| "ref_idx slh (Extra i) = length (main_list slh) + i"

lemma elem_find_idx:
  assumes "elem_find P slh = Some e"
  shows "first_idx P (elems slh) = Some (ref_idx slh e)" "elem_load slh e = elems slh ! ref_idx slh e"
    "elems (elem_store slh e x) = (elems slh)[ref_idx slh e := x]"
    "length (main_list (elem_store slh e x)) = length (main_list slh)"
  using assms first_idx_Some [of P "main_list slh"]
  by (auto simp: elem_find_def elems_def first_idx_append nth_append list_update_append split: option.splits)

lemma elem_find_None: "elem_find P slh = None \<longleftrightarrow> first_idx P (elems slh) = None"
  by (auto simp: elem_find_def elems_def first_idx_append split: option.splits)

text \<open>
  A bucket is well formed when its live keys are IP addresses that belong to the bucket and no two live elements
  have equal keys. Then a search finds the only element that matches.
\<close>

definition live_at :: "addr_elem list \<Rightarrow> ioa_addr \<Rightarrow> nat \<Rightarrow> bool" where
  "live_at es key i \<longleftrightarrow> i < length es \<and> snd (es ! i) \<noteq> 0 \<and> addr_eq (Some (fst (es ! i))) (Some key)"

definition elems_ok :: "nat \<Rightarrow> addr_elem list \<Rightarrow> bool" where
  "elems_ok b es \<longleftrightarrow> (\<forall>(k, v) \<in> set es. v \<noteq> 0 \<longrightarrow> ip_addr k \<and> addr_map_index k = b) \<and>
     (\<forall>i < length es. \<forall>j < length es. snd (es ! i) \<noteq> 0 \<and> live_at es (fst (es ! i)) j \<longrightarrow> i = j)"

definition elems_get :: "addr_elem list \<Rightarrow> ioa_addr \<Rightarrow> u64 option" where
  "elems_get es key =
     map_option (\<lambda>i. snd (es ! i)) (first_idx (\<lambda>(k, v). v \<noteq> 0 \<and> addr_eq (Some k) (Some key)) es)"

lemma live_at_eq: "addr_eq (Some k) (Some key) \<Longrightarrow> live_at es k i = live_at es key i"
  unfolding live_at_def by (blast intro: addr_eq_trans addr_eq_symD)

lemma live_at_unique:
  assumes "elems_ok b es" "live_at es key i" "live_at es key j"
  shows "i = j"
proof -
  have "addr_eq (Some (fst (es ! i))) (Some key)" "snd (es ! i) \<noteq> 0" "i < length es" "j < length es"
    using assms(2,3) by (simp_all add: live_at_def)
  then have "live_at es (fst (es ! i)) j" using assms(3) live_at_eq by blast
  then show ?thesis using assms(1) \<open>snd (es ! i) \<noteq> 0\<close> \<open>i < length es\<close> \<open>j < length es\<close>
    unfolding elems_ok_def by blast
qed

lemma elems_get_Some:
  assumes "elems_ok b es"
  shows "elems_get es key = Some v \<longleftrightarrow> (\<exists>i. live_at es key i \<and> snd (es ! i) = v)"
proof
  assume "elems_get es key = Some v"
  then obtain i where "first_idx (\<lambda>(k, v). v \<noteq> 0 \<and> addr_eq (Some k) (Some key)) es = Some i" "snd (es ! i) = v"
    by (auto simp: elems_get_def)
  then show "\<exists>i. live_at es key i \<and> snd (es ! i) = v"
    using first_idx_Some by (fastforce simp: live_at_def split: prod.splits)
next
  assume "\<exists>i. live_at es key i \<and> snd (es ! i) = v"
  then obtain i where i: "live_at es key i" "snd (es ! i) = v" by blast
  let ?P = "\<lambda>(k, v). v \<noteq> 0 \<and> addr_eq (Some k) (Some key)"
  have "first_idx ?P es \<noteq> None" using i by (auto simp: first_idx_None live_at_def intro!: bexI [of _ "es ! i"])
  then obtain j where j: "first_idx ?P es = Some j" by blast
  then have "live_at es key j" using first_idx_Some [OF j] by (auto simp: live_at_def split: prod.splits)
  then have "i = j" using live_at_unique [OF assms i(1)] by simp
  then show "elems_get es key = Some v" using i j by (simp add: elems_get_def)
qed

lemma elems_get_None: "elems_get es key = None \<longleftrightarrow> (\<forall>i. \<not> live_at es key i)"
proof -
  have "elems_get es key = None \<longleftrightarrow> (\<forall>x \<in> set es. \<not> (case x of (k, v) \<Rightarrow> v \<noteq> 0 \<and> addr_eq (Some k) (Some key)))"
    by (simp only: elems_get_def option.map_disc_iff first_idx_None)
  also have "\<dots> \<longleftrightarrow> (\<forall>i. \<not> live_at es key i)"
    by (fastforce simp: live_at_def in_set_conv_nth split: prod.splits)
  finally show ?thesis .
qed

lemma elems_get_eqI:
  assumes "elems_ok b es" "elems_ok c fs"
    "\<And>i. live_at es key i \<Longrightarrow> \<exists>j. live_at fs key' j \<and> snd (fs ! j) = snd (es ! i)"
    "\<And>j. live_at fs key' j \<Longrightarrow> \<exists>i. live_at es key i \<and> snd (fs ! j) = snd (es ! i)"
  shows "elems_get es key = elems_get fs key'"
  using elems_get_Some [OF assms(1), of key] elems_get_Some [OF assms(2), of key'] assms(3,4)
  by (metis not_None_eq)

text \<open>Writing a key that is absent into a free element, giving the element of a key another value, and freeing it.\<close>

lemma live_at_update:
  "i < length es \<Longrightarrow> live_at (es[i := (k, v)]) key j \<longleftrightarrow>
     (if j = i then v \<noteq> 0 \<and> addr_eq (Some k) (Some key) else live_at es key j)"
  by (auto simp: live_at_def)

lemma elems_store:
  assumes "elems_ok b es" "i < length es" "ip_addr k" "addr_map_index k = b" "\<And>j. live_at es k j \<Longrightarrow> j = i"
  shows "elems_ok b (es[i := (k, v)])"
proof -
  have s: "\<forall>(k, v) \<in> set (es[i := (k, v)]). v \<noteq> 0 \<longrightarrow> ip_addr k \<and> addr_map_index k = b"
    using assms(1,3,4) set_update_subset_insert [of es i "(k, v)"] by (auto simp: elems_ok_def)
  have "a = c" if "a < length es" "c < length es" "snd (es[i := (k, v)] ! a) \<noteq> 0"
    "live_at (es[i := (k, v)]) (fst (es[i := (k, v)] ! a)) c" for a c
  proof (cases "a = i")
    case True
    then have "c = i \<or> live_at es k c" using that(4) assms(2) live_at_update [of i es k v k c] by (simp split: if_splits)
    then show ?thesis using True assms(5) by blast
  next
    case a: False
    show ?thesis
    proof (cases "c = i")
      case True
      then have "addr_eq (Some k) (Some (fst (es ! a)))"
        using that(4) assms(2) a live_at_update [of i es k v "fst (es ! a)" c] by simp
      then have "live_at es k a" using that(1,3) a addr_eq_symD by (simp add: live_at_def)
      then show ?thesis using True assms(5) by blast
    next
      case False
      then have "snd (es ! a) \<noteq> 0" "live_at es (fst (es ! a)) c"
        using that(3,4) assms(2) a live_at_update [of i es k v "fst (es ! a)" c] by simp_all
      then show ?thesis using assms(1) that(1,2) unfolding elems_ok_def by blast
    qed
  qed
  then show ?thesis using s by (simp add: elems_ok_def)
qed

lemma elems_get_store:
  assumes "elems_ok b es" "i < length es" "ip_addr k" "addr_map_index k = b" "\<And>j. live_at es k j \<Longrightarrow> j = i"
    "live_at es k i \<or> snd (es ! i) = 0"
  shows "elems_get (es[i := (k, v)]) key =
    (if addr_eq (Some k) (Some key) then if v = 0 then None else Some v else elems_get es key)"
proof -
  have ok: "elems_ok b (es[i := (k, v)])" by (rule elems_store [OF assms(1-5)])
  have o: "\<not> live_at es key i" if "\<not> addr_eq (Some k) (Some key)"
    using that assms(6) addr_eq_trans [OF addr_eq_symD, of "fst (es ! i)" k key] by (auto simp: live_at_def)
  have n: "\<not> live_at es key j" if "addr_eq (Some k) (Some key)" "j \<noteq> i" for j
    using that assms(5) [of j] live_at_eq by blast
  show ?thesis
  proof (cases "addr_eq (Some k) (Some key)")
    case True
    then have u: "live_at (es[i := (k, v)]) key j \<longleftrightarrow> j = i \<and> v \<noteq> 0" for j
      using n assms(2) by (auto simp: live_at_update)
    show ?thesis
      using True assms(2) elems_get_Some [OF ok, of key v] elems_get_None [of "es[i := (k, v)]" key] by (auto simp: u)
  next
    case False
    have "elems_get (es[i := (k, v)]) key = elems_get es key"
      using o [OF False] False assms(2)
      by (intro elems_get_eqI [OF ok assms(1)]) (auto simp: live_at_update nth_list_update split: if_splits)
    then show ?thesis using False by simp
  qed
qed

lemma elems_ok_free:
  "elems_ok b es \<Longrightarrow> elems_ok b (es @ [(k, 0)]) \<and> elems_get (es @ [(k, 0)]) key = elems_get es key"
proof -
  assume ok: "elems_ok b es"
  have l: "live_at (es @ [(k, 0)]) j i = live_at es j i" for j i
    by (auto simp: live_at_def nth_append less_Suc_eq)
  have "elems_ok b (es @ [(k, 0)])" using ok unfolding elems_ok_def l
    by (auto simp: nth_append less_Suc_eq live_at_def)
  moreover have "elems_get (es @ [(k, 0)]) key = elems_get es key"
    by (auto simp: elems_get_def first_idx_append nth_append split: option.splits dest: first_idx_Some)
  ultimately show ?thesis by blast
qed

lemma addr_elems_remove_map:
  "fst (addr_elems_remove es key) = map (\<lambda>(k, v). if v \<noteq> 0 \<and> addr_eq (Some k) key then (k, 0) else (k, v)) es"
  "snd (addr_elems_remove es key) = map snd (filter (\<lambda>(k, v). v \<noteq> 0 \<and> addr_eq (Some k) key) es)"
  by (induction es key rule: addr_elems_remove.induct) (auto split: prod.splits)

lemma live_at_remove:
  "live_at (fst (addr_elems_remove es (Some k))) key i \<longleftrightarrow> live_at es key i \<and> \<not> addr_eq (Some k) (Some key)"
proof -
  have "live_at es key i \<Longrightarrow> addr_eq (Some (fst (es ! i))) (Some k) \<longleftrightarrow> addr_eq (Some k) (Some key)"
    unfolding live_at_def by (blast intro: addr_eq_trans addr_eq_symD)
  then show ?thesis
    by (auto simp: live_at_def addr_elems_remove_map split: prod.splits if_splits)
qed

lemma nth_remove:
  "live_at (fst (addr_elems_remove es (Some k))) key i \<Longrightarrow> fst (addr_elems_remove es (Some k)) ! i = es ! i"
  by (auto simp: live_at_def addr_elems_remove_map split: prod.splits if_splits)

lemma elems_remove:
  assumes "elems_ok b es"
  shows "elems_ok b (fst (addr_elems_remove es (Some k)))"
    "elems_get (fst (addr_elems_remove es (Some k))) key =
       (if addr_eq (Some k) (Some key) then None else elems_get es key)"
proof -
  let ?r = "fst (addr_elems_remove es (Some k))"
  have len: "length ?r = length es" by (simp add: addr_elems_remove_map)
  have f: "fst (?r ! i) = fst (es ! i)" "snd (?r ! i) \<noteq> 0 \<Longrightarrow> snd (es ! i) \<noteq> 0" if "i < length es" for i
    using that by (auto simp: addr_elems_remove_map split: prod.splits if_splits)
  have m: "\<forall>(k, v) \<in> set ?r. v \<noteq> 0 \<longrightarrow> ip_addr k \<and> addr_map_index k = b"
    using assms by (fastforce simp: elems_ok_def addr_elems_remove_map split: if_splits)
  show ok: "elems_ok b ?r"
    using assms m f unfolding elems_ok_def len live_at_remove by (metis (no_types, lifting))
  show "elems_get ?r key = (if addr_eq (Some k) (Some key) then None else elems_get es key)"
  proof (cases "addr_eq (Some k) (Some key)")
    case True
    then show ?thesis by (simp add: elems_get_None live_at_remove)
  next
    case False
    then show ?thesis using nth_remove [of es k key]
      by (auto simp: live_at_remove intro!: elems_get_eqI [OF ok assms])
  qed
qed

lemma filter_unique:
  "first_idx P xs = Some i \<Longrightarrow> (\<And>j. j < length xs \<Longrightarrow> P (xs ! j) \<Longrightarrow> j = i) \<Longrightarrow> filter P xs = [xs ! i]"
proof (induction xs arbitrary: i)
  case (Cons x xs)
  show ?case
  proof (cases "P x")
    case True
    have "\<not> P y" if y: "y \<in> set xs" for y
    proof -
      obtain n where n: "n < length xs" "xs ! n = y" using y by (auto simp: in_set_conv_nth)
      then show ?thesis using Cons.prems(2) [of "Suc n"] Cons.prems(1) True by auto
    qed
    moreover have "i = 0" using True Cons.prems(1) by simp
    ultimately show ?thesis using True by (auto simp: filter_empty_conv)
  next
    case False
    then obtain j where j: "first_idx P xs = Some j" "i = Suc j" using Cons.prems by auto
    have "filter P xs = [xs ! j]" using Cons.IH [OF j(1)] Cons.prems(2) [of "Suc _"] j(2) by fastforce
    then show ?thesis using False j by simp
  qed
qed simp

lemma elems_remove_values:
  assumes "elems_ok b es"
  shows "snd (addr_elems_remove es (Some k)) = (case elems_get es k of Some v \<Rightarrow> [v] | None \<Rightarrow> [])"
proof (cases "first_idx (\<lambda>(k', v). v \<noteq> 0 \<and> addr_eq (Some k') (Some k)) es")
  case None
  then have "elems_get es k = None" by (simp add: elems_get_def)
  moreover have "filter (\<lambda>(k', v). v \<noteq> 0 \<and> addr_eq (Some k') (Some k)) es = []"
    using None by (simp only: first_idx_None filter_empty_conv)
  ultimately show ?thesis by (simp add: addr_elems_remove_map)
next
  case (Some i)
  have l: "live_at es k j \<longleftrightarrow> j < length es \<and> (case es ! j of (k', v) \<Rightarrow> v \<noteq> 0 \<and> addr_eq (Some k') (Some k))" for j
    by (auto simp: live_at_def split: prod.splits)
  have "filter (\<lambda>(k', v). v \<noteq> 0 \<and> addr_eq (Some k') (Some k)) es = [es ! i]"
    using filter_unique [OF Some] live_at_unique [OF assms, of k] first_idx_Some [OF Some] by (simp add: l)
  then show ?thesis using Some by (simp add: addr_elems_remove_map elems_get_def)
qed

section \<open>The invariant and the laws of the map\<close>

definition addr_map_ok :: "ur_addr_map \<Rightarrow> bool" where
  "addr_map_ok m \<longleftrightarrow> ur_addr_map_valid m \<and> length (lists m) = ADDR_MAP_SIZE \<and>
     (\<forall>i < ADDR_MAP_SIZE. length (main_list (lists m ! i)) = ADDR_ARRAY_SIZE \<and> elems_ok i (elems (lists m ! i)))"

lemma addr_map_index_less: "addr_map_index k < ADDR_MAP_SIZE"
proof -
  have "x AND 1023 = take_bit 10 x" for x :: u32 by (simp add: take_bit_eq_mask mask_eq_exp_minus_1)
  then have "unat (x AND 1023) = take_bit 10 (unat x)" for x :: u32 by (simp add: unsigned_take_bit_eq)
  then show ?thesis using take_bit_nat_less_exp [of 10 "unat (addr_hash (Some k))"]
    by (simp add: addr_map_index_def ADDR_MAP_SIZE_def)
qed

lemma addr_map_index_eq: "addr_eq (Some a) (Some b) \<Longrightarrow> addr_map_index a = addr_map_index b"
  by (simp add: addr_map_index_def addr_eq_hash)

lemma addr_map_ok_init: "addr_map_ok ur_addr_map_init"
  by (auto simp: addr_map_ok_def ur_addr_map_init_def ur_addr_map_zero_def ur_addr_map_valid_def addr_list_zero_def
      elems_def elems_ok_def live_at_def)

abbreviation bucket :: "ur_addr_map \<Rightarrow> ioa_addr \<Rightarrow> addr_list_header" where
  "bucket m k \<equiv> lists m ! addr_map_index k"

lemma bucket_ok:
  "addr_map_ok m \<Longrightarrow> length (main_list (bucket m k)) = ADDR_ARRAY_SIZE \<and> elems_ok (addr_map_index k) (elems (bucket m k))"
  using addr_map_index_less by (simp add: addr_map_ok_def)

lemma addr_list_get_const_elems: "map_option snd (addr_list_get_const slh (Some k)) = elems_get (elems slh) k"
  using elem_find_idx(1,2) [of _ slh] elem_find_None [of _ slh]
  by (cases "elem_find (\<lambda>(k', v). v \<noteq> 0 \<and> addr_eq (Some k') (Some k)) slh")
    (auto simp: addr_list_get_const_def addr_list_get_def elems_get_def)

lemma ur_addr_map_get_elems: "addr_map_ok m \<Longrightarrow> ur_addr_map_get m k = elems_get (elems (bucket m k)) k"
  by (simp add: ur_addr_map_get_def addr_map_ok_def addr_list_get_const_elems)

lemma addr_map_update:
  assumes "addr_map_ok m" "length (main_list slh) = ADDR_ARRAY_SIZE" "elems_ok (addr_map_index k) (elems slh)"
    "\<And>j. addr_map_index j = addr_map_index k \<Longrightarrow> ip_addr j \<Longrightarrow>
      elems_get (elems slh) j = (if addr_eq (Some k) (Some j) then r else elems_get (elems (bucket m k)) j)"
  shows "addr_map_ok (m\<lparr>lists := (lists m)[addr_map_index k := slh]\<rparr>)"
    "ip_addr j \<Longrightarrow> ur_addr_map_get (m\<lparr>lists := (lists m)[addr_map_index k := slh]\<rparr>) j =
      (if addr_eq (Some k) (Some j) then r else ur_addr_map_get m j)"
proof -
  have l: "addr_map_index k < length (lists m)" "ur_addr_map_valid m"
    using assms(1) addr_map_index_less by (simp_all add: addr_map_ok_def)
  show ok: "addr_map_ok (m\<lparr>lists := (lists m)[addr_map_index k := slh]\<rparr>)"
    using assms(1-3) addr_map_index_less [of k] by (auto simp: addr_map_ok_def ur_addr_map_valid_def nth_list_update)
  assume j: "ip_addr j"
  show "ur_addr_map_get (m\<lparr>lists := (lists m)[addr_map_index k := slh]\<rparr>) j =
      (if addr_eq (Some k) (Some j) then r else ur_addr_map_get m j)"
  proof (cases "addr_map_index j = addr_map_index k")
    case True
    then show ?thesis using assms(4) [OF True j] l
      by (simp add: ur_addr_map_get_elems [OF ok] ur_addr_map_get_elems [OF assms(1)])
  next
    case False
    then have "\<not> addr_eq (Some k) (Some j)" using addr_map_index_eq by metis
    then show ?thesis using False l
      by (simp add: ur_addr_map_get_elems [OF ok] ur_addr_map_get_elems [OF assms(1)])
  qed
qed

lemma addr_list_add_laws:
  assumes "elems_ok b (elems slh)" "ip_addr k" "addr_map_index k = b" "elems_get (elems slh) k = None"
  shows "elems_ok b (elems (addr_list_add slh (Some k) v))"
    "elems_get (elems (addr_list_add slh (Some k) v)) j =
      (if addr_eq (Some k) (Some j) then if v = 0 then None else Some v else elems_get (elems slh) j)"
    "length (main_list (addr_list_add slh (Some k) v)) = length (main_list slh)"
proof -
  have n: "\<not> live_at (elems slh) k i" for i using assms(4) by (simp add: elems_get_None)
  have "elems_ok b (elems (addr_list_add slh (Some k) v)) \<and> elems_get (elems (addr_list_add slh (Some k) v)) j =
      (if addr_eq (Some k) (Some j) then if v = 0 then None else Some v else elems_get (elems slh) j) \<and>
      length (main_list (addr_list_add slh (Some k) v)) = length (main_list slh)"
  proof (cases "v = 0")
    case True
    then have "addr_eq (Some k) (Some j) \<Longrightarrow> elems_get (elems slh) j = None"
      using n live_at_eq by (simp add: elems_get_None)
    then show ?thesis using True assms(1) by (simp add: addr_list_add_def)
  next
    case v: False
    show ?thesis
    proof (cases "elem_find (\<lambda>(k, v). v = 0) slh")
      case None
      let ?es = "elems slh @ [(addr_set_any, 0)]"
      have e: "elems (addr_list_add slh (Some k) v) = ?es[length (elems slh) := (k, v)]"
        "length (main_list (addr_list_add slh (Some k) v)) = length (main_list slh)"
        using None v by (simp_all add: addr_list_add_def addr_cpy_def elems_def list_update_append)
      have o: "elems_ok b ?es" "elems_get ?es j = elems_get (elems slh) j" "elems_get ?es k = None" for j
        using elems_ok_free [OF assms(1)] assms(4) by simp_all
      have "\<not> live_at ?es k i" for i using elems_get_None [of ?es k] o(3) by blast
      then show ?thesis
        using elems_store [OF o(1), of "length (elems slh)" k v] elems_get_store [OF o(1), of "length (elems slh)" k v]
          assms(2,3) e o v by simp
    next
      case (Some e)
      note i = elem_find_idx [OF Some]
      have d: "ref_idx slh e < length (elems slh)" "snd (elems slh ! ref_idx slh e) = 0"
        using first_idx_Some [OF i(1)] by (auto split: prod.splits)
      have e: "elems (addr_list_add slh (Some k) v) = (elems slh)[ref_idx slh e := (k, v)]"
        "length (main_list (addr_list_add slh (Some k) v)) = length (main_list slh)"
        using Some v i(3,4) by (simp_all add: addr_list_add_def addr_cpy_def)
      show ?thesis
        using elems_store [OF assms(1) d(1) assms(2,3), of v] elems_get_store [OF assms(1) d(1) assms(2,3), of v] n e d v
        by simp
    qed
  qed
  then show "elems_ok b (elems (addr_list_add slh (Some k) v))"
    "elems_get (elems (addr_list_add slh (Some k) v)) j =
      (if addr_eq (Some k) (Some j) then if v = 0 then None else Some v else elems_get (elems slh) j)"
    "length (main_list (addr_list_add slh (Some k) v)) = length (main_list slh)" by simp_all
qed

lemma addr_list_set_laws:
  assumes "elems_ok b (elems slh)" "addr_list_get slh (Some k) = Some e"
    and s: "slh' = elem_store slh e (fst (elem_load slh e), v)"
  shows "elems_ok b (elems slh')" "length (main_list slh') = length (main_list slh)"
    "elems_get (elems slh') j =
      (if addr_eq (Some k) (Some j) then if v = 0 then None else Some v else elems_get (elems slh) j)"
proof -
  let ?i = "ref_idx slh e" and ?es = "elems slh"
  have f: "elem_find (\<lambda>(k', v). v \<noteq> 0 \<and> addr_eq (Some k') (Some k)) slh = Some e"
    using assms(2) by (simp add: addr_list_get_def)
  note i = elem_find_idx [OF f]
  have l: "live_at ?es k ?i" using first_idx_Some [OF i(1)] by (auto simp: live_at_def split: prod.splits)
  let ?k = "fst (?es ! ?i)"
  have q: "addr_eq (Some ?k) (Some k)" "?i < length ?es" "snd (?es ! ?i) \<noteq> 0" using l by (auto simp: live_at_def)
  have k: "ip_addr ?k" "addr_map_index ?k = b"
    using assms(1) q(2,3) nth_mem [OF q(2)] unfolding elems_ok_def by (cases "?es ! ?i"; force)+
  have u: "j = ?i" if "live_at ?es ?k j" for j
    using live_at_eq [OF q(1)] live_at_unique [OF assms(1) l] that by auto
  have l': "live_at ?es ?k ?i" using l live_at_eq [OF q(1)] by simp
  have c: "addr_eq (Some ?k) (Some j) = addr_eq (Some k) (Some j)" for j
    using q(1) addr_eq_trans addr_eq_symD by blast
  have e: "elems slh' = ?es[?i := (?k, v)]" "length (main_list slh') = length (main_list slh)"
    by (simp_all add: s i)
  show "elems_ok b (elems slh')" using elems_store [OF assms(1) q(2) k u] e by simp
  show "length (main_list slh') = length (main_list slh)" by (rule e(2))
  show "elems_get (elems slh') j =
      (if addr_eq (Some k) (Some j) then if v = 0 then None else Some v else elems_get (elems slh) j)"
    using elems_get_store [OF assms(1) q(2) k u, of v j] e l' c by simp
qed

lemma ur_addr_map_put_laws:
  assumes "addr_map_ok m" "ip_addr k"
  shows "fst (ur_addr_map_put m k v) = 0" "addr_map_ok (snd (ur_addr_map_put m k v))"
    "ip_addr j \<Longrightarrow> ur_addr_map_get (snd (ur_addr_map_put m k v)) j =
      (if addr_eq (Some k) (Some j) then if v = 0 then None else Some v else ur_addr_map_get m j)"
proof -
  let ?b = "bucket m k"
  define slh where "slh = (case addr_list_get ?b (Some k) of
      Some e \<Rightarrow> elem_store ?b e (fst (elem_load ?b e), v) | None \<Rightarrow> addr_list_add ?b (Some k) v)"
  have p: "ur_addr_map_put m k v = (0, m\<lparr>lists := (lists m)[addr_map_index k := slh]\<rparr>)"
    using assms(1) by (simp add: ur_addr_map_put_def addr_map_ok_def slh_def Let_def)
  have b: "length (main_list ?b) = ADDR_ARRAY_SIZE" "elems_ok (addr_map_index k) (elems ?b)"
    using bucket_ok [OF assms(1)] by simp_all
  have g: "addr_list_get ?b (Some k) = None \<Longrightarrow> elems_get (elems ?b) k = None"
    using addr_list_get_const_elems [of ?b k] by (simp add: addr_list_get_const_def)
  have s: "length (main_list slh) = ADDR_ARRAY_SIZE" "elems_ok (addr_map_index k) (elems slh)"
    "elems_get (elems slh) j =
      (if addr_eq (Some k) (Some j) then if v = 0 then None else Some v else elems_get (elems ?b) j)" for j
    using addr_list_add_laws [OF b(2) assms(2) refl g, of v] addr_list_set_laws [OF b(2) _ refl, of k _ v] b(1)
    by (auto simp: slh_def split: option.split)
  note u = addr_map_update [OF assms(1) s(1,2), of "if v = 0 then None else Some v"]
  show "fst (ur_addr_map_put m k v) = 0" by (simp add: p)
  show "addr_map_ok (snd (ur_addr_map_put m k v))" using u(1) s(3) by (simp add: p)
  show "ip_addr j \<Longrightarrow> ur_addr_map_get (snd (ur_addr_map_put m k v)) j =
      (if addr_eq (Some k) (Some j) then if v = 0 then None else Some v else ur_addr_map_get m j)"
    using u(2) [of j] s(3) by (simp add: p)
qed

lemma addr_list_remove_elems:
  "addr_list_remove slh (Some k) = (slh', dels, counter) \<Longrightarrow>
     elems slh' = fst (addr_elems_remove (elems slh) (Some k)) \<and>
     dels = snd (addr_elems_remove (elems slh) (Some k)) \<and> counter = int (length dels) \<and>
     length (main_list slh') = length (main_list slh)"
  by (auto simp: addr_list_remove_def elems_def addr_elems_remove_map split_beta)

lemma ur_addr_map_del_laws:
  assumes "addr_map_ok m" "ur_addr_map_del m k = (r, m', dels)"
  shows "addr_map_ok m'" "dels = (case ur_addr_map_get m k of Some v \<Rightarrow> [v] | None \<Rightarrow> [])"
    "r = c_bool (ur_addr_map_get m k \<noteq> None)"
    "ip_addr j \<Longrightarrow> ur_addr_map_get m' j = (if addr_eq (Some k) (Some j) then None else ur_addr_map_get m j)"
proof -
  obtain slh dl counter where l: "addr_list_remove (bucket m k) (Some k) = (slh, dl, counter)"
    using prod_cases3 by blast
  have m': "m' = m\<lparr>lists := (lists m)[addr_map_index k := slh]\<rparr>" "r = c_bool (counter > 0)" "dels = dl"
    using assms l by (auto simp: ur_addr_map_del_def addr_map_ok_def)
  have b: "length (main_list (bucket m k)) = ADDR_ARRAY_SIZE" "elems_ok (addr_map_index k) (elems (bucket m k))"
    using bucket_ok [OF assms(1)] by simp_all
  note s = addr_list_remove_elems [OF l]
  note u = addr_map_update [OF assms(1), of slh k None]
  show "addr_map_ok m'" using u(1) b s elems_remove [OF b(2), of k] by (simp add: m')
  show d: "dels = (case ur_addr_map_get m k of Some v \<Rightarrow> [v] | None \<Rightarrow> [])"
    using s elems_remove_values [OF b(2), of k] by (simp add: m' ur_addr_map_get_elems [OF assms(1)])
  show "r = c_bool (ur_addr_map_get m k \<noteq> None)" using s d by (auto simp: m' split: option.splits)
  show "ip_addr j \<Longrightarrow> ur_addr_map_get m' j = (if addr_eq (Some k) (Some j) then None else ur_addr_map_get m j)"
    using u(2) [of j] b s elems_remove [OF b(2), of k] by (simp add: m')
qed

lemma ur_addr_map_del_laws_sel:
  assumes "addr_map_ok m"
  shows "addr_map_ok (fst (snd (ur_addr_map_del m k)))"
    "ip_addr j \<Longrightarrow> ur_addr_map_get (fst (snd (ur_addr_map_del m k))) j =
      (if addr_eq (Some k) (Some j) then None else ur_addr_map_get m j)"
  using ur_addr_map_del_laws [OF assms, of k] by (metis prod.collapse)+

lemma ur_addr_map_get_eq:
  assumes "addr_map_ok m" "addr_eq (Some k) (Some j)"
  shows "ur_addr_map_get m k = ur_addr_map_get m j"
proof -
  have "live_at es k i = live_at es j i" for es i by (rule live_at_eq [OF assms(2)])
  then have "elems_get (elems (bucket m j)) k = elems_get (elems (bucket m j)) j"
    using elems_get_eqI bucket_ok [OF assms(1), of j] by blast
  then show ?thesis using addr_map_index_eq [OF assms(2)] by (simp add: ur_addr_map_get_elems [OF assms(1)])
qed

interpretation am: update_map ur_addr_map_get "\<lambda>m k v. snd (ur_addr_map_put m k v)"
  "\<lambda>m k. fst (snd (ur_addr_map_del m k))" addr_map_ok "\<lambda>a b. addr_eq (Some a) (Some b)" ip_addr "\<lambda>v. v \<noteq> 0"
  by unfold_locales
    (auto simp: ur_addr_map_put_laws ur_addr_map_del_laws_sel dest: addr_eq_symD addr_eq_trans ur_addr_map_get_eq)

section \<open>Properties\<close>

text \<open>\<^bold>\<open>C12\<close>: on well-formed maps and IP addresses, put and delete implement the update of a map whose keys are
  addresses up to equality: a put succeeds and replaces the value of an equal address (a zero value removes it),
  a delete removes the address, reports whether it was there and hands its value, once, to the callback.\<close>

theorem addr_map_refines:
  assumes "addr_map_ok m" "ip_addr k" "ip_addr j" "ur_addr_map_put m k v = (r, m')" "ur_addr_map_del m k = (d, n, dels)"
  shows "r = 0 \<and> addr_map_ok m' \<and>
      ur_addr_map_get m' j = (if addr_eq (Some k) (Some j) then if v = 0 then None else Some v else ur_addr_map_get m j) \<and>
      addr_map_ok n \<and> d = c_bool (ur_addr_map_get m k \<noteq> None) \<and>
      dels = (case ur_addr_map_get m k of Some w \<Rightarrow> [w] | None \<Rightarrow> []) \<and>
      ur_addr_map_get n j = (if addr_eq (Some k) (Some j) then None else ur_addr_map_get m j)"
  using ur_addr_map_put_laws(1,2) [OF assms(1,2), of v] ur_addr_map_put_laws(3) [OF assms(1,2), of j v] assms(3,4) ur_addr_map_del_laws [OF assms(1,5)]
  by simp

theorem addr_map_refines_witness:
  "addr_map_ok ur_addr_map_init \<and> ip_addr (v4 1 2) \<and>
   ur_addr_map_get (snd (ur_addr_map_put ur_addr_map_init (v4 1 2) 7)) (v4 1 2) = Some 7"
proof -
  have i: "ip_addr (v4 1 2)" by (simp add: ip_addr_def v4_def)
  show ?thesis
    using addr_map_refines [OF addr_map_ok_init i i, of 7 "fst (ur_addr_map_put ur_addr_map_init (v4 1 2) 7)"
        "snd (ur_addr_map_put ur_addr_map_init (v4 1 2) 7)" "fst (ur_addr_map_del ur_addr_map_init (v4 1 2))"
        "fst (snd (ur_addr_map_del ur_addr_map_init (v4 1 2)))" "snd (snd (ur_addr_map_del ur_addr_map_init (v4 1 2)))"]
      addr_map_ok_init i by simp
qed

end
