(* ===== verification/Turn_Ports.thy ===== *)
theory Turn_Ports
  imports Addr_Map
begin

text \<open>
  The pool of relay ports of one backend address, \<^verbatim>\<open>src/coturn/src/apps/relay/turn_ports.c\<close>. The free ports form a
  queue: positions \<open>low\<close> to \<open>high - 1\<close> (32-bit counters that only grow) name slots of the array \<open>ports\<close> (modulo
  65536), and \<open>status\<close> holds the position of a free port or a marker. A port that is reserved together with its even
  neighbour is taken out of the middle of the queue, which leaves a stale slot behind.

  The arrays have 65536 entries and are functions on 16-bit words. \<^verbatim>\<open>random()\<close> is a parameter: the stream of values
  it returns. The mutexes serialise the operations and are not part of the state.
\<close>

section \<open>The pool\<close>

definition TPS_OUT_OF_RANGE :: u32 where "TPS_OUT_OF_RANGE = - 1"
definition TPS_TAKEN_SINGLE :: u32 where "TPS_TAKEN_SINGLE = - 2"
definition TPS_TAKEN_EVEN :: u32 where "TPS_TAKEN_EVEN = - 3"
definition TPS_TAKEN_ODD :: u32 where "TPS_TAKEN_ODD = - 4"

lemmas tps_defs = TPS_OUT_OF_RANGE_def TPS_TAKEN_SINGLE_def TPS_TAKEN_EVEN_def TPS_TAKEN_ODD_def

record turnports =
  status :: "u16 \<Rightarrow> u32"
  low :: u32
  high :: u32
  range_start :: u16
  range_stop :: u16
  ports :: "u16 \<Rightarrow> u16"

definition is_taken :: "u32 \<Rightarrow> bool" where
  "is_taken s \<longleftrightarrow> s = TPS_TAKEN_SINGLE \<or> s = TPS_TAKEN_EVEN \<or> s = TPS_TAKEN_ODD"

definition turnports_swap :: "turnports \<Rightarrow> u64 \<Rightarrow> u64 \<Rightarrow> turnports" where
  "turnports_swap tp r1 r2 =
     (let size = high tp - low tp;
          port1 = ucast (low tp + ucast (ucast (r1 mod ucast size) :: u16)) :: u16;
          port2 = ucast (low tp + ucast (ucast (r2 mod ucast size) :: u16)) :: u16
      in if port1 \<noteq> port2 then
           let pos1 = ucast (status tp port1) :: u16; pos2 = ucast (status tp port2) :: u16
           in tp\<lparr>status := (status tp)(port1 := status tp port2, port2 := status tp port1),
                 ports := (ports tp)(pos1 := ports tp pos2, pos2 := ports tp pos1)\<rparr>
         else tp)"

definition turnports_randomize :: "(nat \<Rightarrow> u64) \<Rightarrow> turnports \<Rightarrow> turnports" where
  "turnports_randomize random tp =
     fold (\<lambda>i tp. turnports_swap tp (random (2 * i)) (random (2 * i + 1)))
       [0..<unat ((high tp - low tp) * 10)] tp"

definition turnports_init :: "(nat \<Rightarrow> u64) \<Rightarrow> u16 \<Rightarrow> u16 \<Rightarrow> turnports" where
  "turnports_init random start stop =
     turnports_randomize random
       \<lparr>status = (\<lambda>i. if i < start then TPS_OUT_OF_RANGE else if i \<le> stop then ucast i else TPS_OUT_OF_RANGE),
        low = ucast start, high = ucast stop + 1, range_start = start, range_stop = stop, ports = (\<lambda>i. i)\<rparr>"

definition turnports_create :: "(nat \<Rightarrow> u64) \<Rightarrow> u16 \<Rightarrow> u16 \<Rightarrow> turnports option" where
  "turnports_create random start stop = (if start > stop then None else Some (turnports_init random start stop))"

definition turnports_size :: "turnports \<Rightarrow> u16" where
  "turnports_size tp = ucast (high tp - low tp)"

function turnports_allocate :: "turnports \<Rightarrow> int \<times> turnports" where
  "turnports_allocate tp =
     (if high tp \<le> low tp then (- 1, tp)
      else
        let position = ucast (low tp AND 0x0000FFFF) :: u16; port = ports tp position in
        if port < range_start tp \<or> port > range_stop tp then (- 1, tp)
        else if is_taken (status tp port) then turnports_allocate (tp\<lparr>low := low tp + 1\<rparr>)
        else if status tp port \<noteq> low tp then turnports_allocate (tp\<lparr>low := low tp + 1\<rparr>)
        else (uint port, tp\<lparr>status := (status tp)(port := TPS_TAKEN_SINGLE), low := low tp + 1\<rparr>))"
  by pat_completeness auto

lemma unat_inc32: "a < b \<Longrightarrow> unat (a + 1) = Suc (unat a)" for a b :: u32
  using unat_32_less [of b] by (simp add: unat_word_ariths word_less_nat_alt)

termination turnports_allocate
  by (relation "measure (\<lambda>tp. unat (high tp) - unat (low tp))")
    (auto simp: unat_inc32 word_less_nat_alt not_le intro!: diff_less_mono2)

declare turnports_allocate.simps [simp del]

definition turnports_release :: "turnports \<Rightarrow> u16 \<Rightarrow> turnports" where
  "turnports_release tp port =
     (if port \<ge> range_start tp \<and> port \<le> range_stop tp then
        let position = ucast (high tp AND 0x0000FFFF) in
        if is_taken (status tp port)
        then tp\<lparr>status := (status tp)(port := high tp), ports := (ports tp)(position := port), high := high tp + 1\<rparr>
        else tp
      else tp)"

definition turnports_is_allocated :: "turnports \<Rightarrow> u16 \<Rightarrow> bool" where
  "turnports_is_allocated tp port = is_taken (status tp port)"

definition turnports_is_available :: "turnports \<Rightarrow> u16 \<Rightarrow> bool" where
  "turnports_is_available tp port =
     (let s = status tp port in
      s \<noteq> TPS_OUT_OF_RANGE \<and> \<not> is_taken s \<and> ports tp (ucast (s AND 0x0000FFFF)) = port)"

text \<open>
  The loop of \<^verbatim>\<open>turnports_allocate_even\<close>, by the number of iterations left. The token is built from the values of
  \<open>ports\<close> at both ends of the queue and from \<^verbatim>\<open>turn_random()\<close>.
\<close>

fun allocate_even_loop :: "nat \<Rightarrow> turnports \<Rightarrow> bool \<Rightarrow> u32 \<Rightarrow> int \<times> turnports \<times> u64 option" where
  "allocate_even_loop 0 tp allocate_rtcp rnd = (- 1, tp, None)"
| "allocate_even_loop (Suc n) tp allocate_rtcp rnd =
     (case turnports_allocate tp of
        (port, tp) \<Rightarrow>
          if port AND 0x00000001 \<noteq> 0 then allocate_even_loop n (turnports_release tp (of_int port)) allocate_rtcp rnd
          else if \<not> allocate_rtcp then (port, tp, None)
          else
            let rtcp_port = port + 1 in
            if rtcp_port > uint (range_stop tp)
            then allocate_even_loop n (turnports_release tp (of_int port)) allocate_rtcp rnd
            else if \<not> turnports_is_available tp (of_int rtcp_port)
            then allocate_even_loop n (turnports_release tp (of_int port)) allocate_rtcp rnd
            else
              let tp = tp\<lparr>status := (status tp)(of_int port := TPS_TAKEN_EVEN, of_int rtcp_port := TPS_TAKEN_ODD)\<rparr>
              in (port, tp,
                  Some (ucast (ports tp (ucast (low tp AND 0x0000FFFF))) OR
                    push_bit 16 (ucast (ports tp (ucast (high tp AND 0x0000FFFF)))) OR push_bit 32 (ucast rnd))))"

definition turnports_allocate_even :: "turnports \<Rightarrow> bool \<Rightarrow> u32 \<Rightarrow> int \<times> turnports \<times> u64 option" where
  "turnports_allocate_even tp allocate_rtcp rnd =
     (let size = turnports_size tp in
      if size > 1 then allocate_even_loop (unat size) tp allocate_rtcp rnd else (- 1, tp, None))"

section \<open>Positions\<close>

text \<open>Positions as natural numbers; \<open>slot p\<close> is the index of position \<open>p\<close> in the array \<open>ports\<close>.\<close>

abbreviation lo :: "turnports \<Rightarrow> nat" where "lo tp \<equiv> unat (low tp)"
abbreviation hi :: "turnports \<Rightarrow> nat" where "hi tp \<equiv> unat (high tp)"

definition in_range :: "turnports \<Rightarrow> u16 \<Rightarrow> bool" where
  "in_range tp port \<longleftrightarrow> range_start tp \<le> port \<and> port \<le> range_stop tp"

definition slot :: "turnports \<Rightarrow> nat \<Rightarrow> u16" where
  "slot tp p = ports tp (of_nat p)"

definition taken :: "turnports \<Rightarrow> u16 \<Rightarrow> bool" where
  "taken tp port \<longleftrightarrow> is_taken (status tp port)"

definition free_at :: "turnports \<Rightarrow> u16 \<Rightarrow> nat \<Rightarrow> bool" where
  "free_at tp port p \<longleftrightarrow> lo tp \<le> p \<and> p < hi tp \<and> slot tp p = port \<and> status tp port = of_nat p"

definition stale :: "turnports \<Rightarrow> nat \<Rightarrow> bool" where
  "stale tp p \<longleftrightarrow> lo tp \<le> p \<and> p < hi tp \<and> status tp (slot tp p) \<noteq> of_nat p"

text \<open>The positions stay clear of the four markers at the top of the 32-bit range.\<close>

definition pos_max :: nat where "pos_max = 2 ^ 32 - 4"

lemma ucast_slot: "ucast (w AND 0x0000FFFF) = (of_nat (unat w) :: u16)" for w :: u32
proof -
  have "w AND 0xFFFF = take_bit 16 w" by (simp add: take_bit_eq_mask mask_eq_exp_minus_1)
  then show ?thesis by (simp add: unsigned_take_bit_eq take_bit_word_eq_self)
qed

lemma mod16_eq:
  assumes "(p :: nat) mod 65536 = q mod 65536" "p \<le> q" "q < p + 65536"
  shows "p = q"
proof -
  obtain k where "q = p + 65536 * k" using mod_eq_nat2E [OF assms(1,2)] by blast
  with assms(3) show ?thesis by simp
qed

lemma of_nat16_eq: "p < q + 65536 \<Longrightarrow> q < p + 65536 \<Longrightarrow> (of_nat p :: u16) = of_nat q \<longleftrightarrow> p = q"
  using mod16_eq [of p q] mod16_eq [of q p] le_cases [of p q]
  by (auto simp: word_of_nat_eq_iff take_bit_eq_mod dest: sym)

lemma of_nat32_eq: "p < 2 ^ 32 \<Longrightarrow> q < 2 ^ 32 \<Longrightarrow> (of_nat p :: u32) = of_nat q \<longleftrightarrow> p = q"
  by (simp add: word_of_nat_eq_iff take_bit_nat_eq_self)

lemma pos_not_marker: "p < pos_max \<Longrightarrow> \<not> is_taken (of_nat p) \<and> of_nat p \<noteq> TPS_OUT_OF_RANGE"
proof -
  assume p: "p < pos_max"
  then have u: "unat (of_nat p :: u32) = p" by (simp add: pos_max_def unat_of_nat take_bit_nat_eq_self)
  have "unat TPS_TAKEN_SINGLE \<ge> pos_max" "unat TPS_TAKEN_EVEN \<ge> pos_max" "unat TPS_TAKEN_ODD \<ge> pos_max"
    "unat TPS_OUT_OF_RANGE \<ge> pos_max"
    by (simp_all add: tps_defs pos_max_def unsigned_minus_1_eq_mask mask_eq_exp_minus_1)
  then show ?thesis using p u by (metis is_taken_def leD)
qed

section \<open>The invariant\<close>

text \<open>
  A port of the range is taken or free at one position of the queue; ports outside the range keep their marker; every
  slot of the queue holds a port of the range. A stale slot belongs to an odd port, there is one at most per port, and
  the even neighbour is taken or queued behind it.
\<close>

definition tp_inv :: "turnports \<Rightarrow> bool" where
  "tp_inv tp \<longleftrightarrow> lo tp \<le> hi tp \<and> hi tp \<le> pos_max \<and>
     (\<forall>port. in_range tp port \<longrightarrow> taken tp port \<or> (\<exists>p. free_at tp port p)) \<and>
     (\<forall>port. \<not> in_range tp port \<longrightarrow> status tp port = TPS_OUT_OF_RANGE) \<and>
     (\<forall>p. lo tp \<le> p \<and> p < hi tp \<longrightarrow> in_range tp (slot tp p)) \<and>
     (\<forall>p q. stale tp p \<and> stale tp q \<and> slot tp p = slot tp q \<longrightarrow> p = q) \<and>
     (\<forall>p. stale tp p \<longrightarrow> odd (uint (slot tp p)) \<and>
        (\<forall>q. free_at tp (slot tp p - 1) q \<longrightarrow> p < q))"

lemma tp_invD:
  assumes "tp_inv tp"
  shows "lo tp \<le> hi tp" "hi tp \<le> pos_max"
    "in_range tp port \<Longrightarrow> \<not> taken tp port \<Longrightarrow> \<exists>p. free_at tp port p"
    "\<not> in_range tp port \<Longrightarrow> status tp port = TPS_OUT_OF_RANGE"
    "lo tp \<le> p \<Longrightarrow> p < hi tp \<Longrightarrow> in_range tp (slot tp p)"
    "stale tp p \<Longrightarrow> stale tp q \<Longrightarrow> slot tp p = slot tp q \<Longrightarrow> p = q"
    "stale tp p \<Longrightarrow> odd (uint (slot tp p))"
    "stale tp p \<Longrightarrow> free_at tp (slot tp p - 1) q \<Longrightarrow> p < q"
  using assms unfolding tp_inv_def by blast+

lemma tp_invI:
  assumes "lo tp \<le> hi tp" "hi tp \<le> pos_max"
    "\<And>port. in_range tp port \<Longrightarrow> \<not> taken tp port \<Longrightarrow> \<exists>p. free_at tp port p"
    "\<And>port. \<not> in_range tp port \<Longrightarrow> status tp port = TPS_OUT_OF_RANGE"
    "\<And>p. lo tp \<le> p \<Longrightarrow> p < hi tp \<Longrightarrow> in_range tp (slot tp p)"
    "\<And>p q. stale tp p \<Longrightarrow> stale tp q \<Longrightarrow> slot tp p = slot tp q \<Longrightarrow> p = q"
    "\<And>p. stale tp p \<Longrightarrow> odd (uint (slot tp p))"
    "\<And>p q. stale tp p \<Longrightarrow> free_at tp (slot tp p - 1) q \<Longrightarrow> p < q"
  shows "tp_inv tp"
  using assms unfolding tp_inv_def by blast

lemma free_at_unique:
  assumes "tp_inv tp" "free_at tp port p" "free_at tp port q"
  shows "p = q"
proof -
  have "p < 2 ^ 32" "q < 2 ^ 32"
    using assms tp_invD(2) [OF assms(1)] by (auto simp: free_at_def pos_max_def)
  then show ?thesis using assms(2,3) by (simp add: free_at_def flip: of_nat32_eq)
qed

lemma free_not_taken: "tp_inv tp \<Longrightarrow> free_at tp port p \<Longrightarrow> \<not> taken tp port"
  using pos_not_marker [of p] tp_invD(2) [of tp] by (auto simp: free_at_def taken_def)

lemma free_in_range: "tp_inv tp \<Longrightarrow> free_at tp port p \<Longrightarrow> in_range tp port"
  using tp_invD(5) [of tp p] by (auto simp: free_at_def)

text \<open>
  The ring never overflows while a port is taken: the slots of the queue are at most one per free port and one stale
  one per odd port, so that a range of \<open>n\<close> ports with \<open>m\<close> odd ones needs \<open>n + m\<close> slots.
\<close>

definition range_ports :: "turnports \<Rightarrow> u16 set" where
  "range_ports tp = {port. in_range tp port}"

definition ring_fits :: "turnports \<Rightarrow> bool" where
  "ring_fits tp \<longleftrightarrow> card (range_ports tp) + card {port \<in> range_ports tp. odd (uint port)} < 65536"

lemma queue_bound:
  assumes "tp_inv tp"
  shows "hi tp - lo tp \<le> card {port \<in> range_ports tp. \<not> taken tp port} + card {port \<in> range_ports tp. odd (uint port)}"
proof -
  let ?A = "{port \<in> range_ports tp. \<not> taken tp port} \<times> {True}"
  let ?B = "{port \<in> range_ports tp. odd (uint port)} \<times> {False}"
  let ?f = "\<lambda>p. (slot tp p, \<not> stale tp p)"
  have fr: "free_at tp (slot tp p) p" if "p \<in> {lo tp..<hi tp}" "\<not> stale tp p" for p
    using that by (auto simp: stale_def free_at_def)
  have "inj_on ?f {lo tp..<hi tp}"
  proof (rule inj_onI)
    fix p q assume pq: "p \<in> {lo tp..<hi tp}" "q \<in> {lo tp..<hi tp}" "?f p = ?f q"
    show "p = q"
    proof (cases "stale tp p")
      case True
      then show ?thesis using pq tp_invD(6) [OF assms] by auto
    next
      case False
      then show ?thesis using fr [OF pq(1)] fr [OF pq(2)] pq free_at_unique [OF assms] by auto
    qed
  qed
  then have "card {lo tp..<hi tp} = card (?f ` {lo tp..<hi tp})" by (simp add: card_image)
  also have "\<dots> \<le> card (?A \<union> ?B)"
  proof (rule card_mono)
    show "finite (?A \<union> ?B)" by simp
    show "?f ` {lo tp..<hi tp} \<subseteq> ?A \<union> ?B"
    proof (rule image_subsetI)
      fix p assume p: "p \<in> {lo tp..<hi tp}"
      then have r: "in_range tp (slot tp p)" using tp_invD(5) [OF assms] by auto
      show "?f p \<in> ?A \<union> ?B"
      proof (cases "stale tp p")
        case True
        then show ?thesis using r tp_invD(7) [OF assms True] by (simp add: range_ports_def)
      next
        case False
        then show ?thesis using r free_not_taken [OF assms fr [OF p False]] by (simp add: range_ports_def)
      qed
    qed
  qed
  also have "\<dots> \<le> card ?A + card ?B" by (rule card_Un_le)
  finally show ?thesis by (simp add: card_cartesian_product)
qed

lemma ring_room:
  assumes "tp_inv tp" "ring_fits tp" "in_range tp port" "taken tp port"
  shows "hi tp - lo tp < 65536"
proof -
  have "{p \<in> range_ports tp. \<not> taken tp p} \<subset> range_ports tp" using assms(3,4) by (auto simp: range_ports_def)
  then have "card {p \<in> range_ports tp. \<not> taken tp p} < card (range_ports tp)" by (intro psubset_card_mono) auto
  then show ?thesis using queue_bound [OF assms(1)] assms(2) by (simp add: ring_fits_def)
qed

section \<open>Effect of the operations on the queue\<close>

definition taken_ports :: "turnports \<Rightarrow> u16 set" where
  "taken_ports tp = {port. taken tp port}"

lemma is_taken_markers [simp]:
  "is_taken TPS_TAKEN_SINGLE" "is_taken TPS_TAKEN_EVEN" "is_taken TPS_TAKEN_ODD" "\<not> is_taken TPS_OUT_OF_RANGE"
  by (simp_all add: is_taken_def tps_defs)

lemma taken_in_range: "tp_inv tp \<Longrightarrow> taken tp port \<Longrightarrow> in_range tp port"
  using tp_invD(4) [of tp port] by (cases "in_range tp port") (auto simp: taken_def)

lemma status_free: "tp_inv tp \<Longrightarrow> free_at tp port p \<Longrightarrow> unat (status tp port) = p"
  using tp_invD(2) [of tp] by (auto simp: free_at_def pos_max_def unat_of_nat take_bit_nat_eq_self)

lemma is_available_iff:
  assumes "tp_inv tp"
  shows "turnports_is_available tp port \<longleftrightarrow> in_range tp port \<and> \<not> taken tp port"
proof (cases "in_range tp port \<and> \<not> taken tp port")
  case True
  then obtain p where p: "free_at tp port p" using tp_invD(3) [OF assms] by blast
  then have "status tp port \<noteq> TPS_OUT_OF_RANGE"
    using pos_not_marker [of p] tp_invD(2) [OF assms] by (auto simp: free_at_def)
  moreover have "ports tp (ucast (status tp port AND 0x0000FFFF)) = port"
    unfolding ucast_slot status_free [OF assms p] using p by (simp add: free_at_def slot_def)
  ultimately show ?thesis using True by (simp add: turnports_is_available_def Let_def taken_def)
next
  case False
  then show ?thesis using tp_invD(4) [OF assms, of port]
    by (auto simp: turnports_is_available_def Let_def taken_def)
qed

text \<open>Leaving a stale slot behind.\<close>

lemma skip_stale:
  assumes "tp_inv tp" "stale tp (lo tp)"
  defines "t \<equiv> tp\<lparr>low := low tp + 1\<rparr>"
  shows "tp_inv t" "taken t = taken tp" "in_range t = in_range tp" "lo t = Suc (lo tp)" "hi t = hi tp"
    "free_at t port p \<longleftrightarrow> free_at tp port p"
proof -
  have l: "lo tp < hi tp" using assms(2) by (simp add: stale_def)
  have lo: "lo t = Suc (lo tp)" using l unat_inc32 [of "low tp" "high tp"] by (simp add: t_def word_less_nat_alt)
  have f: "free_at t q p \<longleftrightarrow> free_at tp q p" for q p
    using assms(2) lo by (auto simp: free_at_def stale_def t_def slot_def Suc_le_eq le_less)
  have st: "stale t p \<longleftrightarrow> stale tp p \<and> p \<noteq> lo tp" for p
    using lo by (auto simp: stale_def t_def slot_def)
  have s: "slot t = slot tp" "taken t = taken tp" "in_range t = in_range tp" "status t = status tp" "hi t = hi tp"
    by (auto simp: t_def slot_def taken_def in_range_def fun_eq_iff)
  show "tp_inv t" unfolding tp_inv_def f st s lo
    using tp_invD [OF assms(1)] l by (auto simp: Suc_le_eq)
  show "taken t = taken tp" "in_range t = in_range tp" "hi t = hi tp" by (fact s)+
  show "lo t = Suc (lo tp)" by (fact lo)
  show "free_at t port p \<longleftrightarrow> free_at tp port p" by (fact f)
qed

text \<open>Taking the port at the head of the queue.\<close>

lemma take_head:
  assumes "tp_inv tp" "free_at tp port (lo tp)" "is_taken m"
  defines "t \<equiv> tp\<lparr>status := (status tp)(port := m), low := low tp + 1\<rparr>"
  shows "tp_inv t" "taken t = (taken tp)(port := True)" "in_range t = in_range tp" "lo t = Suc (lo tp)" "hi t = hi tp"
    "free_at t q p \<longleftrightarrow> q \<noteq> port \<and> free_at tp q p"
proof -
  have l: "lo tp < hi tp" "hi tp \<le> pos_max" and h: "slot tp (lo tp) = port" "status tp port = of_nat (lo tp)"
    using assms(1,2) tp_invD(2) by (simp_all add: free_at_def)
  have lo: "lo t = Suc (lo tp)" using l unat_inc32 [of "low tp" "high tp"] by (simp add: t_def word_less_nat_alt)
  have m: "m \<noteq> of_nat p" if "p < hi tp" for p using assms(3) pos_not_marker [of p] l that by auto
  have f: "free_at t q p \<longleftrightarrow> q \<noteq> port \<and> free_at tp q p" for q p
    using lo h m by (auto simp: free_at_def t_def slot_def Suc_le_eq le_less)
  have u: "of_nat (lo tp) \<noteq> (of_nat p :: u32)" if "p < hi tp" "lo tp < p" for p
    using that l of_nat32_eq [of "lo tp" p] by (simp add: pos_max_def)
  have st: "stale t p \<longleftrightarrow> stale tp p" for p
  proof (cases "lo tp < p \<and> p < hi tp")
    case True
    then have "m \<noteq> of_nat p" "status tp port \<noteq> of_nat p" using m u h by auto
    then show ?thesis unfolding stale_def lo using True by (auto simp: t_def slot_def)
  next
    case False
    then show ?thesis unfolding stale_def lo using h by (auto simp: t_def le_less)
  qed
  have s: "slot t = slot tp" "taken t = (taken tp)(port := True)" "in_range t = in_range tp" "hi t = hi tp"
    using assms(3) by (auto simp: t_def slot_def taken_def in_range_def fun_eq_iff)
  have r: "in_range tp port" using assms(1,2) by (rule free_in_range)
  have o: "\<not> in_range tp q \<longrightarrow> status t q = TPS_OUT_OF_RANGE" for q
    using r tp_invD(4) [OF assms(1)] by (auto simp: t_def)
  show "tp_inv t" unfolding tp_inv_def f st s(1,3,4) lo
    using tp_invD [OF assms(1)] l o by (auto simp: Suc_le_eq s(2))
  show "taken t = (taken tp)(port := True)" "in_range t = in_range tp" "hi t = hi tp" by (fact s)+
  show "lo t = Suc (lo tp)" by (fact lo)
  show "free_at t q p \<longleftrightarrow> q \<noteq> port \<and> free_at tp q p" by (fact f)
qed

text \<open>Reserving the free odd neighbour of the even port that was just taken from the head.\<close>

lemma reserve_odd:
  assumes "tp_inv tp" "free_at tp e (lo tp)" "even (uint e)" "free_at tp (e + 1) r"
  defines "t \<equiv> tp\<lparr>status := (status tp)(e := TPS_TAKEN_EVEN, e + 1 := TPS_TAKEN_ODD), low := low tp + 1\<rparr>"
  shows "tp_inv t" "taken t = (taken tp)(e := True, e + 1 := True)" "in_range t = in_range tp" "hi t = hi tp"
proof -
  let ?o = "e + 1"
  let ?t1 = "tp\<lparr>status := (status tp)(e := TPS_TAKEN_EVEN), low := low tp + 1\<rparr>"
  have n: "?o \<noteq> e" by simp
  note t1 = take_head [OF assms(1,2) is_taken_markers(2)]
  have t: "t = ?t1\<lparr>status := (status ?t1)(?o := TPS_TAKEN_ODD)\<rparr>" by (simp add: t_def)
  have fo: "free_at ?t1 ?o r" using assms(4) t1(6) by simp
  have no: "\<not> stale ?t1 q" if "slot ?t1 q = ?o" for q
  proof
    assume st: "stale ?t1 q"
    have l: "lo tp < q" "q < hi tp" using st t1(4,5) by (simp_all add: stale_def)
    have "slot tp q = ?o" using that by (simp add: slot_def)
    moreover have "status tp ?o \<noteq> of_nat q" using st that n by (simp add: stale_def)
    ultimately have "stale tp q" using l by (simp add: stale_def)
    then show False using tp_invD(8) [OF assms(1), of q "lo tp"] assms(2) \<open>slot tp q = ?o\<close> l by simp
  qed
  have f: "free_at t q p \<longleftrightarrow> q \<noteq> ?o \<and> free_at ?t1 q p" for q p
    using pos_not_marker [of p] tp_invD(2) [OF t1(1)] unfolding t by (auto simp: free_at_def slot_def)
  have st: "stale t p \<longleftrightarrow> stale ?t1 p \<or> p = r" for p
  proof (cases "lo ?t1 \<le> p \<and> p < hi ?t1")
    case True
    then have "TPS_TAKEN_ODD \<noteq> of_nat p"
      using pos_not_marker [of p] tp_invD(2) [OF t1(1)] is_taken_markers(3) by auto
    moreover have "slot ?t1 p = ?o \<Longrightarrow> p = r"
      using no [of p] True fo free_at_unique [OF t1(1)] by (auto simp: stale_def free_at_def)
    moreover have "slot ?t1 r = ?o" using fo by (simp add: free_at_def)
    ultimately show ?thesis unfolding t stale_def using True by (auto simp: slot_def)
  next
    case False
    then have "p \<noteq> r" using fo by (auto simp: free_at_def)
    with False show ?thesis unfolding t by (auto simp: stale_def)
  qed
  have s: "slot t = slot ?t1" "taken t = (taken ?t1)(?o := True)" "in_range t = in_range ?t1" "hi t = hi ?t1" "lo t = lo ?t1"
    unfolding t by (auto simp: slot_def taken_def in_range_def fun_eq_iff)
  have ro: "in_range ?t1 ?o" "slot ?t1 r = ?o" using free_in_range [OF t1(1) fo] fo by (simp_all add: free_at_def)
  have o: "\<not> in_range ?t1 q \<longrightarrow> status t q = TPS_OUT_OF_RANGE" for q
    using ro tp_invD(4) [OF t1(1), of q] unfolding t by auto
  have odd: "odd (uint ?o)"
    using assms(3) by (simp add: uint_word_ariths dvd_mod_iff)
  have e: "\<not> free_at ?t1 e q" for q using t1(6) by simp
  note i = tp_invD [OF t1(1)]
  show "tp_inv t"
  proof (rule tp_invI; unfold f st s(1,3,4,5))
    show "lo ?t1 \<le> hi ?t1" "hi ?t1 \<le> pos_max" by (fact i)+
    show "\<exists>p. q \<noteq> ?o \<and> free_at ?t1 q p" if "in_range ?t1 q" "\<not> taken t q" for q
      using i(3) [of q] that(1) that(2) [unfolded s(2)] by (auto split: if_splits)
    show "status t q = TPS_OUT_OF_RANGE" if "\<not> in_range ?t1 q" for q using o that by blast
    show "in_range ?t1 (slot ?t1 p)" if "lo ?t1 \<le> p" "p < hi ?t1" for p using i(5) that .
    show "p = q" if "stale ?t1 p \<or> p = r" "stale ?t1 q \<or> q = r" "slot ?t1 p = slot ?t1 q" for p q
      using that i(6) [of p q] no [of p] no [of q] ro(2) by metis
    show "odd (uint (slot ?t1 p))" if "stale ?t1 p \<or> p = r" for p using that i(7) odd ro(2) by metis
    show "p < q" if "stale ?t1 p \<or> p = r" "slot ?t1 p - 1 \<noteq> ?o \<and> free_at ?t1 (slot ?t1 p - 1) q" for p q
      using that i(8) [of p q] e [of q] ro(2) by auto
  qed
  show "taken t = (taken tp)(e := True, e + 1 := True)" "in_range t = in_range tp" "hi t = hi tp"
    using s t1(2,3,5) by simp_all
qed

text \<open>Releasing a taken port puts it at the end of the queue.\<close>

lemma release_taken:
  assumes "tp_inv tp" "ring_fits tp" "in_range tp port" "taken tp port" "hi tp < pos_max"
  defines "t \<equiv> turnports_release tp port"
  shows "tp_inv t" "taken t = (taken tp)(port := False)" "in_range t = in_range tp" "lo t = lo tp" "hi t = Suc (hi tp)"
    "free_at t q p \<longleftrightarrow> (if q = port then p = hi tp else free_at tp q p)"
proof -
  have w: "hi tp - lo tp < 65536" by (rule ring_room [OF assms(1-4)])
  note i = tp_invD [OF assms(1)]
  have t: "t = tp\<lparr>status := (status tp)(port := high tp), ports := (ports tp)(of_nat (hi tp) := port), high := high tp + 1\<rparr>"
    using assms(3,4) unfolding t_def turnports_release_def Let_def ucast_slot in_range_def taken_def by simp
  have hi: "hi t = Suc (hi tp)"
    using assms(5) unat_inc32 [of "high tp" "- 1"] unfolding t
    by (simp add: unat_word_ariths pos_max_def)
  have lo: "lo t = lo tp" unfolding t by simp
  have sl: "slot t p = (if p = hi tp then port else slot tp p)" if "lo tp \<le> p" "p \<le> hi tp" for p
    using that w of_nat16_eq [of p "hi tp"] unfolding t slot_def by auto
  have sh: "status t q = (if q = port then of_nat (hi tp) else status tp q)" for q unfolding t by simp
  have nm: "status tp port \<noteq> of_nat p" if "p < hi tp" for p
    using that pos_not_marker [of p] assms(4,5) by (auto simp: taken_def)
  have hn: "(of_nat (hi tp) :: u32) \<noteq> of_nat p" if "p < hi tp" for p
    using that assms(5) of_nat32_eq [of "hi tp" p] unfolding pos_max_def by linarith
  have f: "free_at t q p \<longleftrightarrow> (if q = port then p = hi tp else free_at tp q p)" for q p
  proof (cases "lo tp \<le> p \<and> p \<le> hi tp")
    case True
    then show ?thesis
      using sl [of p] sh [of q] hn [of p] i(1) unfolding free_at_def lo hi by (auto simp: le_less)
  next
    case False
    then show ?thesis using i(1) unfolding free_at_def lo hi by auto
  qed
  have st: "stale t p \<longleftrightarrow> stale tp p" for p
  proof (cases "lo tp \<le> p \<and> p < hi tp")
    case True
    then show ?thesis using sl [of p] sh [of "slot tp p"] hn [of p] nm [of p] unfolding stale_def lo hi by auto
  next
    case False
    then show ?thesis using sl [of p] sh [of port] unfolding stale_def lo hi by (auto simp: less_Suc_eq)
  qed
  have s: "in_range t = in_range tp" unfolding t by (auto simp: in_range_def fun_eq_iff)
  have tk: "taken t = (taken tp)(port := False)"
    using pos_not_marker [OF assms(5)] unfolding t by (auto simp: taken_def fun_eq_iff)
  have ss: "stale tp p \<Longrightarrow> slot t p = slot tp p \<and> p < hi tp" for p using sl [of p] by (auto simp: stale_def)
  show "tp_inv t"
  proof (rule tp_invI; unfold f st s lo hi)
    show "lo tp \<le> Suc (hi tp)" "Suc (hi tp) \<le> pos_max" using i(1) assms(5) by auto
    show "\<exists>p. if q = port then p = hi tp else free_at tp q p" if "in_range tp q" "\<not> taken t q" for q
      using i(3) [of q] that(1) that(2) [unfolded tk] by (auto split: if_splits)
    show "status t q = TPS_OUT_OF_RANGE" if "\<not> in_range tp q" for q using i(4) that assms(3) sh by auto
    show "in_range tp (slot t p)" if "lo tp \<le> p" "p < Suc (hi tp)" for p
      using i(5) [of p] sl [of p] that assms(3) by (auto simp: less_Suc_eq)
    show "p = q" if "stale tp p" "stale tp q" "slot t p = slot t q" for p q
      using that i(6) ss by metis
    show "odd (uint (slot t p))" if "stale tp p" for p using that i(7) ss by metis
    show "p < q" if "stale tp p" "if slot t p - 1 = port then q = hi tp else free_at tp (slot t p - 1) q" for p q
      using that i(8) [of p q] ss [of p] by (auto split: if_splits)
  qed
  show "taken t = (taken tp)(port := False)" "in_range t = in_range tp" "lo t = lo tp" "hi t = Suc (hi tp)"
    "free_at t q p \<longleftrightarrow> (if q = port then p = hi tp else free_at tp q p)"
    by (fact tk s lo hi f)+
qed

lemma release_noop: "tp_inv tp \<Longrightarrow> \<not> taken tp port \<Longrightarrow> turnports_release tp port = tp"
  by (simp add: turnports_release_def Let_def taken_def)

lemma ring_fits_cong: "in_range t = in_range tp \<Longrightarrow> ring_fits t = ring_fits tp"
  by (simp add: ring_fits_def range_ports_def)

text \<open>
  One call of \<^verbatim>\<open>turnports_allocate\<close>: it skips the stale slots at the head; either the queue holds no free port, or the
  first free one is taken.
\<close>

lemma allocate_spec:
  "tp_inv tp \<Longrightarrow>
    (\<exists>t. turnports_allocate tp = (- 1, t) \<and> tp_inv t \<and> taken t = taken tp \<and> in_range t = in_range tp \<and> hi t = hi tp \<and>
       (\<forall>port. in_range tp port \<longrightarrow> taken tp port)) \<or>
    (\<exists>s port. tp_inv s \<and> taken s = taken tp \<and> in_range s = in_range tp \<and> range_stop s = range_stop tp \<and> hi s = hi tp \<and>
       lo tp \<le> lo s \<and> (\<forall>q p. free_at s q p \<longleftrightarrow> free_at tp q p) \<and> free_at s port (lo s) \<and>
       turnports_allocate tp = (uint port, s\<lparr>status := (status s)(port := TPS_TAKEN_SINGLE), low := low s + 1\<rparr>))"
proof (induction tp rule: turnports_allocate.induct)
  case (1 tp)
  note inv = 1(3)
  let ?port = "ports tp (ucast (low tp AND 0x0000FFFF))"
  let ?t = "tp\<lparr>low := low tp + 1\<rparr>"
  have sl: "?port = slot tp (lo tp)" unfolding ucast_slot slot_def by (rule refl)
  show ?case
  proof (cases "high tp \<le> low tp")
    case True
    then have e: "lo tp = hi tp" using tp_invD(1) [OF inv] by (simp add: word_le_nat_alt)
    have "\<not> free_at tp port p" for port p using e by (simp add: free_at_def)
    then have "\<forall>port. in_range tp port \<longrightarrow> taken tp port" using tp_invD(3) [OF inv] by blast
    then show ?thesis using True inv by (simp add: turnports_allocate.simps [of tp])
  next
    case F: False
    then have l: "lo tp < hi tp" by (simp add: word_le_nat_alt)
    then have r: "in_range tp ?port" unfolding sl using tp_invD(5) [OF inv] by simp
    then have nr: "\<not> (?port < range_start tp \<or> range_stop tp < ?port)" by (auto simp: in_range_def)
    show ?thesis
    proof (cases "status tp ?port = low tp")
      case True
      then have fr: "free_at tp ?port (lo tp)" using l by (simp add: free_at_def sl)
      then have "\<not> is_taken (status tp ?port)" using free_not_taken [OF inv] by (simp add: taken_def)
      then have "turnports_allocate tp = (uint ?port, tp\<lparr>status := (status tp)(?port := TPS_TAKEN_SINGLE), low := low tp + 1\<rparr>)"
        using F nr True by (subst turnports_allocate.simps) (simp add: Let_def)
      then show ?thesis using inv fr by blast
    next
      case False
      then have st: "stale tp (lo tp)" using l sl by (simp add: stale_def)
      note sk = skip_stale [OF inv st]
      have step: "turnports_allocate tp = turnports_allocate ?t"
        using F nr False by (subst turnports_allocate.simps) (simp add: Let_def)
      have IH: "tp_inv ?t \<Longrightarrow>
        (\<exists>t. turnports_allocate ?t = (- 1, t) \<and> tp_inv t \<and> taken t = taken ?t \<and> in_range t = in_range ?t \<and> hi t = hi ?t \<and>
           (\<forall>port. in_range ?t port \<longrightarrow> taken ?t port)) \<or>
        (\<exists>s port. tp_inv s \<and> taken s = taken ?t \<and> in_range s = in_range ?t \<and> range_stop s = range_stop ?t \<and> hi s = hi ?t \<and>
           lo ?t \<le> lo s \<and> (\<forall>q p. free_at s q p \<longleftrightarrow> free_at ?t q p) \<and> free_at s port (lo s) \<and>
           turnports_allocate ?t = (uint port, s\<lparr>status := (status s)(port := TPS_TAKEN_SINGLE), low := low s + 1\<rparr>))"
        using 1(1,2) [OF F refl refl nr] False by blast
      have rs: "range_stop ?t = range_stop tp" by simp
      show ?thesis using IH [OF sk(1)] unfolding step sk(2-6) rs by (elim disjE) (blast dest: Suc_leD)+
    qed
  qed
qed

lemma allocate_cases:
  assumes "tp_inv tp"
  obtains
    (full) t where "turnports_allocate tp = (- 1, t)" "tp_inv t" "taken t = taken tp" "in_range t = in_range tp"
      "hi t = hi tp" "\<And>port. in_range tp port \<Longrightarrow> taken tp port"
  | (found) s port where "tp_inv s" "taken s = taken tp" "in_range s = in_range tp" "range_stop s = range_stop tp"
      "hi s = hi tp" "lo tp \<le> lo s" "\<And>q p. free_at s q p \<longleftrightarrow> free_at tp q p" "free_at s port (lo s)"
      "turnports_allocate tp =
        (uint port, s\<lparr>status := (status s)(port := TPS_TAKEN_SINGLE), low := low s + 1\<rparr>)"
  using allocate_spec [OF assms] by blast

text \<open>An iteration that gives its port back only moves it to the end of the queue.\<close>

lemma take_release:
  assumes "tp_inv s" "ring_fits s" "hi s < pos_max" "free_at s port (lo s)"
  defines "t \<equiv> turnports_release (s\<lparr>status := (status s)(port := TPS_TAKEN_SINGLE), low := low s + 1\<rparr>) port"
  shows "tp_inv t" "taken t = taken s" "in_range t = in_range s" "hi t = Suc (hi s)" "lo t = Suc (lo s)"
    "free_at t q p \<longleftrightarrow> (if q = port then p = hi s else free_at s q p)"
proof -
  let ?t1 = "s\<lparr>status := (status s)(port := TPS_TAKEN_SINGLE), low := low s + 1\<rparr>"
  note t1 = take_head [OF assms(1,4) is_taken_markers(1)]
  have r: "in_range ?t1 port" "taken ?t1 port" "ring_fits ?t1" "hi ?t1 < pos_max"
    using free_in_range [OF assms(1,4)] t1(2,3,5) ring_fits_cong [OF t1(3)] assms(2,3) by simp_all
  note t2 = release_taken [OF t1(1) r(3,1,2,4)]
  have "\<not> taken s port" using free_not_taken [OF assms(1,4)] .
  then show "taken t = taken s" unfolding t_def t2(2) t1(2) by (simp add: fun_upd_idem_iff)
  show "tp_inv t" unfolding t_def by (fact t2)
  show "in_range t = in_range s" "hi t = Suc (hi s)" "lo t = Suc (lo s)" unfolding t_def t2 t1 by (rule refl)+
  show "free_at t q p \<longleftrightarrow> (if q = port then p = hi s else free_at s q p)" unfolding t_def t2 t1 by simp
qed

lemma uint_and_1: "uint (w :: u16) AND 1 \<noteq> 0 \<longleftrightarrow> odd (uint w)"
  by (simp add: and_one_eq odd_iff_mod_2_eq_one)

lemma of_int_uint_Suc: "(of_int (uint w + 1) :: u16) = w + 1"
  by simp

lemma uint_m1: "uint (- 1 :: u16) = 65535"
  by code_simp

lemma odd_m1: "odd (uint (- 1 :: u16))"
  unfolding uint_m1 by simp

lemma uint_neq_m1: "- 1 \<noteq> uint (w :: u16)"
  using uint_ge_0 [of w] by linarith

text \<open>
  What an even allocation may return: \<open>-1\<close>, and then no port changes hands unless the pool is exhausted, when port
  65535 is released, or a free even port.
\<close>

definition even_result :: "turnports \<Rightarrow> bool \<Rightarrow> int \<Rightarrow> turnports \<Rightarrow> bool" where
  "even_result tp rtcp port t \<longleftrightarrow>
     (port = - 1 \<and> (taken t = taken tp \<or> (\<forall>q. in_range tp q \<longrightarrow> taken tp q) \<and> taken t = (taken tp)(- 1 := False))) \<or>
     (\<exists>e. port = uint e \<and> even (uint e) \<and> in_range tp e \<and> \<not> taken tp e \<and>
        (if rtcp then in_range tp (e + 1) \<and> \<not> taken tp (e + 1) \<and> taken t = (taken tp)(e := True, e + 1 := True)
         else taken t = (taken tp)(e := True)))"

lemma even_result_cong:
  "taken s = taken tp \<Longrightarrow> in_range s = in_range tp \<Longrightarrow> even_result s rtcp port t = even_result tp rtcp port t"
  by (simp add: even_result_def)

text \<open>An iteration on an exhausted pool: the failure value \<open>-1\<close> is odd and is released as port 65535.\<close>

lemma release_failed:
  assumes "tp_inv u" "ring_fits u" "hi u < pos_max"
  defines "v \<equiv> turnports_release u (- 1)"
  shows "tp_inv v" "in_range v = in_range u" "hi v \<le> Suc (hi u)" "taken v = (taken u)(- 1 := False)"
proof -
  have "tp_inv v \<and> in_range v = in_range u \<and> hi v \<le> Suc (hi u) \<and> taken v = (taken u)(- 1 := False)"
  proof (cases "taken u (- 1)")
    case True
    note r = release_taken(1,2,3,5) [OF assms(1,2) taken_in_range [OF assms(1) True] True assms(3)]
    show ?thesis using r(1) unfolding v_def r(2-4) by simp
  next
    case False
    then show ?thesis using assms(1) unfolding v_def release_noop [OF assms(1) False] by (simp add: fun_upd_idem)
  qed
  then show "tp_inv v" "in_range v = in_range u" "hi v \<le> Suc (hi u)" "taken v = (taken u)(- 1 := False)" by simp_all
qed

lemma even_result_exhausted:
  assumes "even_result v rtcp port t" "in_range v = in_range tp" "taken v = (taken tp)(- 1 := False)"
    "\<And>q. in_range tp q \<Longrightarrow> taken tp q"
  shows "port = - 1" "taken t = (taken tp)(- 1 := False)"
proof -
  have ne: "\<not> (in_range v e \<and> \<not> taken v e \<and> even (uint e))" for e
    using assms(2-4) odd_m1 by (auto split: if_splits)
  then have "port = - 1 \<and> (taken t = taken v \<or> taken t = (taken v)(- 1 := False))"
    using assms(1) unfolding even_result_def by blast
  then show "port = - 1" "taken t = (taken tp)(- 1 := False)" using assms(3) by auto
qed

lemma even_loop_spec:
  "tp_inv tp \<Longrightarrow> ring_fits tp \<Longrightarrow> hi tp + n \<le> pos_max \<Longrightarrow> allocate_even_loop n tp rtcp rnd = (port, t, tok) \<Longrightarrow>
    tp_inv t \<and> in_range t = in_range tp \<and> hi t \<le> hi tp + n \<and> even_result tp rtcp port t"
proof (induction n arbitrary: tp)
  case 0
  then show ?case by (auto simp: even_result_def)
next
  case (Suc n)
  from Suc.prems(1) show ?case
  proof (cases rule: allocate_cases)
    case (full u)
    let ?v = "turnports_release u (- 1)"
    have loop: "allocate_even_loop n ?v rtcp rnd = (port, t, tok)" using Suc.prems(4) full(1) by simp
    have f: "ring_fits u" "hi u < pos_max"
      using ring_fits_cong [OF full(4)] Suc.prems(2,3) full(5) by simp_all
    note v = release_failed [OF full(2) f, unfolded full(3-5)]
    have fv: "ring_fits ?v" "hi ?v + n \<le> pos_max"
      using v(2,3) ring_fits_cong [of ?v tp] Suc.prems(2,3) by auto
    note IH = Suc.IH [OF v(1) fv loop]
    have er: "port = - 1 \<and> taken t = (taken tp)(- 1 := False)"
      using even_result_exhausted [OF _ v(2,4) full(6)] IH by blast
    then have "even_result tp rtcp port t" using full(6) by (simp add: even_result_def)
    then show ?thesis using IH v(2,3) by simp
  next
    case (found s p)
    let ?u = "s\<lparr>status := (status s)(p := TPS_TAKEN_SINGLE), low := low s + 1\<rparr>"
    have fit: "ring_fits s" "hi s < pos_max"
      using ring_fits_cong [OF found(3)] found(5) Suc.prems(2,3) by simp_all
    note tr = take_release [OF found(1) fit found(8)]
    have b: ?thesis if "allocate_even_loop n (turnports_release ?u p) rtcp rnd = (port, t, tok)"
    proof -
      have "ring_fits (turnports_release ?u p)" using fit(1) ring_fits_cong [OF tr(3)] by simp
      from Suc.IH [OF tr(1) this _ that] show ?thesis
        using Suc.prems(3) found(5) even_result_cong [OF tr(2,3)] even_result_cong [OF found(2,3)] tr(3,4) found(3) by auto
    qed
    have pr: "in_range tp p" "\<not> taken tp p"
      using free_in_range [OF found(1,8)] free_not_taken [OF found(1,8)] found by simp_all
    note th = take_head [OF found(1,8) is_taken_markers(1)]
    have loop: "(port, t, tok) = (if odd (uint p) then allocate_even_loop n (turnports_release ?u p) rtcp rnd
        else if \<not> rtcp then (uint p, ?u, None)
        else if uint p + 1 > uint (range_stop s) then allocate_even_loop n (turnports_release ?u p) rtcp rnd
        else if \<not> turnports_is_available ?u (p + 1) then allocate_even_loop n (turnports_release ?u p) rtcp rnd
        else (uint p, s\<lparr>status := (status s)(p := TPS_TAKEN_EVEN, p + 1 := TPS_TAKEN_ODD), low := low s + 1\<rparr>, tok))"
      using Suc.prems(4) found(9) unfolding allocate_even_loop.simps found(9) prod.case uint_and_1 of_int_uint_Suc Let_def
      by (auto split: if_splits)
    consider (again) "allocate_even_loop n (turnports_release ?u p) rtcp rnd = (port, t, tok)"
      | (single) "even (uint p)" "\<not> rtcp" "port = uint p" "t = ?u"
      | (pair) "even (uint p)" "rtcp" "turnports_is_available ?u (p + 1)" "port = uint p"
          "t = s\<lparr>status := (status s)(p := TPS_TAKEN_EVEN, p + 1 := TPS_TAKEN_ODD), low := low s + 1\<rparr>"
      using loop by (auto split: if_splits)
    then show ?thesis
    proof cases
      case again
      then show ?thesis by (rule b)
    next
      case single
      then show ?thesis using th(1-3,5) pr found by (auto simp: even_result_def)
    next
      case pair
      have av: "in_range s (p + 1)" "\<not> taken s (p + 1)"
        using pair(3) th(2,3) by (auto simp: is_available_iff [OF th(1)] split: if_splits)
      then obtain r where r: "free_at s (p + 1) r" using tp_invD(3) [OF found(1)] by blast
      note ro = reserve_odd [OF found(1,8) pair(1) r]
      show ?thesis unfolding pair(4,5) using ro pr av found pair(1,2) by (auto simp: even_result_def)
    qed
  qed
qed

text \<open>The loop on an exhausted pool releases port 65535 in its first iteration.\<close>

lemma even_loop_exhausted:
  assumes "tp_inv tp" "ring_fits tp" "hi tp + Suc n \<le> pos_max" "\<And>q. in_range tp q \<Longrightarrow> taken tp q"
    "allocate_even_loop (Suc n) tp rtcp rnd = (port, t, tok)"
  shows "port = - 1" "taken t = (taken tp)(- 1 := False)"
proof -
  obtain u where u: "turnports_allocate tp = (- 1, u)" "tp_inv u" "taken u = taken tp" "in_range u = in_range tp" "hi u = hi tp"
    using assms(1)
  proof (cases rule: allocate_cases)
    case (full t)
    then show ?thesis using that by blast
  next
    case (found s p)
    then show ?thesis using free_in_range [OF found(1,8)] free_not_taken [OF found(1,8)] assms(4) by simp
  qed
  let ?v = "turnports_release u (- 1)"
  have f: "ring_fits u" "hi u < pos_max" using ring_fits_cong [OF u(4)] assms(2,3) u(5) by simp_all
  note v = release_failed [OF u(2) f, unfolded u(3-5)]
  have fv: "ring_fits ?v" "hi ?v + n \<le> pos_max" using v(2,3) ring_fits_cong [of ?v tp] assms(2,3) by auto
  have loop: "allocate_even_loop n ?v rtcp rnd = (port, t, tok)" using assms(5) u(1) by simp
  have "even_result ?v rtcp port t" using even_loop_spec [OF v(1) fv loop] by blast
  then show "port = - 1" "taken t = (taken tp)(- 1 := False)"
    using even_result_exhausted [OF _ v(2,4) assms(4)] by blast+
qed

text \<open>
  Progress: when an even port is free (and, for a reservation, its odd neighbour too), an iteration takes a port or
  comes closer to its position in the queue.
\<close>

lemma even_loop_progress:
  assumes "tp_inv tp" "ring_fits tp" "hi tp + n \<le> pos_max" "free_at tp e p" "even (uint e)" "p < lo tp + n"
    "rtcp \<Longrightarrow> in_range tp (e + 1) \<and> \<not> taken tp (e + 1)"
  shows "fst (allocate_even_loop n tp rtcp rnd) \<noteq> - 1"
  using assms
proof (induction n arbitrary: tp)
  case 0
  then show ?case by (simp add: free_at_def)
next
  case (Suc n)
  from Suc.prems(1) show ?case
  proof (cases rule: allocate_cases)
    case (full u)
    then show ?thesis
      using free_in_range [OF Suc.prems(1,4)] free_not_taken [OF Suc.prems(1,4)] by blast
  next
    case (found s q)
    let ?u = "s\<lparr>status := (status s)(q := TPS_TAKEN_SINGLE), low := low s + 1\<rparr>"
    have fit: "ring_fits s" "hi s < pos_max"
      using ring_fits_cong [OF found(3)] found(5) Suc.prems(2,3) by simp_all
    note tr = take_release [OF found(1) fit found(8)]
    have fe: "free_at s e p" using Suc.prems(4) found(7) by simp
    have b: "fst (allocate_even_loop n (turnports_release ?u q) rtcp rnd) \<noteq> - 1" if "q \<noteq> e"
    proof (rule Suc.IH)
      show "tp_inv (turnports_release ?u q)" by (fact tr)
      show "ring_fits (turnports_release ?u q)" using fit(1) ring_fits_cong [OF tr(3)] by simp
      show "hi (turnports_release ?u q) + n \<le> pos_max" using tr(4) found(5) Suc.prems(3) by simp
      show "free_at (turnports_release ?u q) e p" using tr(6) fe that by simp
      show "p < lo (turnports_release ?u q) + n" using tr(5) found(6) Suc.prems(6) by simp
      show "in_range (turnports_release ?u q) (e + 1) \<and> \<not> taken (turnports_release ?u q) (e + 1)" if rtcp
        using Suc.prems(7) [OF that] unfolding tr(2,3) found(2,3) .
    qed (rule Suc.prems(5))
    note th = take_head [OF found(1,8) is_taken_markers(1)]
    have av: "turnports_is_available ?u (e + 1)" "uint e + 1 \<le> uint (range_stop s)" if "q = e" "rtcp"
    proof -
      have r: "in_range tp (e + 1)" "\<not> taken tp (e + 1)" using Suc.prems(7) [OF that(2)] by blast+
      then show "turnports_is_available ?u (e + 1)" 
        unfolding is_available_iff [OF th(1)] th(2,3) found(2,3) using that(1) by simp
      have "uint (e + 1) = uint e + 1"
      proof -
        have "uint e \<noteq> 65535" using Suc.prems(5) by auto
        then show ?thesis using uint_lt2p [of e] by (simp add: uint_word_ariths)
      qed
      then show "uint e + 1 \<le> uint (range_stop s)" using r(1) found(4) by (simp add: in_range_def Word.word_le_def)
    qed
    show ?thesis
      using b av Suc.prems(5) uint_neq_m1 [of q]
      unfolding allocate_even_loop.simps found(9) prod.case uint_and_1 of_int_uint_Suc Let_def
      by (cases "q = e") auto
  qed
qed

end
