(* ===== verification/Port_Pool.thy ===== *)
theory Port_Pool
  imports Turn_Ports
begin

text \<open>
  The pool of relay ports as its clients see it: a set of taken ports inside a range, \<^verbatim>\<open>src/coturn/src/apps/relay/turn_ports.c\<close>.
  The initial pool satisfies the invariant of the queue, every operation refines an operation on the set, and the pools
  of all backend addresses are kept in the two address maps of \<^verbatim>\<open>turnipports\<close>.
\<close>

section \<open>The initial pool\<close>

text \<open>While no port is taken, positions and ports of the range are in bijection; the random swaps keep this.\<close>

definition tp_fresh :: "turnports \<Rightarrow> bool" where
  "tp_fresh tp \<longleftrightarrow> lo tp = unat (range_start tp) \<and> hi tp = Suc (unat (range_stop tp)) \<and> range_start tp \<le> range_stop tp \<and>
     (\<forall>port. in_range tp port \<longrightarrow> lo tp \<le> unat (status tp port) \<and> unat (status tp port) < hi tp \<and>
        ports tp (ucast (status tp port)) = port) \<and>
     (\<forall>port. \<not> in_range tp port \<longrightarrow> status tp port = TPS_OUT_OF_RANGE) \<and>
     (\<forall>i. in_range tp i \<longrightarrow> in_range tp (ports tp i) \<and> status tp (ports tp i) = ucast i)"

lemma unat_port:
  "unat l + unat x < 65536 \<Longrightarrow> unat (ucast (l + ucast x) :: u16) = unat l + unat x" for x :: u16 and l :: u32
  by (simp add: unsigned_ucast_eq take_bit_nat_eq_self unat_word_ariths)

lemma tp_freshD:
  assumes "tp_fresh tp"
  shows "lo tp = unat (range_start tp)" "hi tp = Suc (unat (range_stop tp))" "unat (range_start tp) \<le> unat (range_stop tp)"
    "in_range tp q \<Longrightarrow> lo tp \<le> unat (status tp q) \<and> unat (status tp q) < hi tp"
    "in_range tp q \<Longrightarrow> ports tp (ucast (status tp q)) = q"
    "\<not> in_range tp q \<Longrightarrow> status tp q = TPS_OUT_OF_RANGE"
    "in_range tp i \<Longrightarrow> in_range tp (ports tp i)" "in_range tp i \<Longrightarrow> status tp (ports tp i) = ucast i"
  using assms by (auto simp: tp_fresh_def word_le_nat_alt)

lemma fresh_status:
  assumes "tp_fresh tp" "in_range tp q"
  shows "in_range tp (ucast (status tp q))" "ucast (ucast (status tp q) :: u16) = status tp q"
proof -
  note u = tp_freshD(1-3) [OF assms(1)] tp_freshD(4) [OF assms]
  then have e: "unat (ucast (status tp q) :: u16) = unat (status tp q)"
    using unat_16_less [of "range_stop tp"] by (simp add: unsigned_ucast_eq take_bit_nat_eq_self)
  show "in_range tp (ucast (status tp q))" using u e by (simp add: in_range_def word_le_nat_alt)
  show "ucast (ucast (status tp q) :: u16) = status tp q"
    using u unat_16_less [of "range_stop tp"]
    by (simp add: word_unat_eq_iff unsigned_ucast_eq unsigned_take_bit_eq take_bit_nat_eq_self)
qed

lemma fresh_exchange:
  assumes "tp_fresh tp" "in_range tp p1" "in_range tp p2" "p1 \<noteq> p2"
  defines "i1 \<equiv> ucast (status tp p1) :: u16" and "i2 \<equiv> ucast (status tp p2) :: u16"
  shows "tp_fresh (tp\<lparr>status := (status tp)(p1 := status tp p2, p2 := status tp p1), ports := (ports tp)(i1 := p2, i2 := p1)\<rparr>)"
    (is "tp_fresh ?t")
proof -
  note fr = tp_freshD [OF assms(1)]
  have pi: "ports tp i1 = p1" "ports tp i2 = p2" using fr(5) assms(2,3) by (simp_all add: i1_def i2_def)
  then have i: "i1 \<noteq> i2" using assms(4) by auto
  have u: "ucast i1 = status tp p1" "ucast i2 = status tp p2"
    using fresh_status(2) [OF assms(1)] assms(2,3) by (simp_all add: i1_def i2_def)
  have b: "ports ?t (ucast (status ?t q)) = q" if q: "in_range tp q" for q
  proof -
    have "ports tp (ucast (status tp q)) = q" by (rule fr(5) [OF q])
    then show ?thesis using pi i assms(4) by (auto simp: i1_def [symmetric] i2_def [symmetric])
  qed
  have c: "status ?t (ports ?t j) = ucast j" if j: "in_range tp j" for j
  proof (cases "j = i1 \<or> j = i2")
    case True
    then show ?thesis using u i assms(4) by auto
  next
    case False
    have "ucast (ucast j :: u32) = j" by (rule bit_word_eqI) (simp add: bit_simps)
    then have "ports tp j \<noteq> p1" "ports tp j \<noteq> p2" using False fr(8) [OF j] i1_def i2_def by auto
    then show ?thesis using False fr(8) [OF j] by simp
  qed
  have r: "in_range ?t = in_range tp" by (simp add: in_range_def fun_eq_iff)
  have d: "in_range tp (ports ?t j)" if "in_range tp j" for j using fr(7) [OF that] assms(2,3) by simp
  have o: "status ?t q = TPS_OUT_OF_RANGE" if "\<not> in_range tp q" for q using that fr(6) assms(2,3) by auto
  have a: "lo tp \<le> unat (status ?t q) \<and> unat (status ?t q) < hi tp" if "in_range tp q" for q
    using fr(4) [OF that] fr(4) [OF assms(2)] fr(4) [OF assms(3)] by simp
  have l: "lo ?t = lo tp" "hi ?t = hi tp" "range_start ?t = range_start tp" "range_stop ?t = range_stop tp" by simp_all
  show ?thesis unfolding tp_fresh_def r l using fr(1-3) a b c d o by (simp add: word_le_nat_alt)
qed

lemma random_port_in_range:
  assumes "tp_fresh tp"
  shows "in_range tp (ucast (low tp + ucast (ucast (r mod ucast (high tp - low tp) :: u64) :: u16)))"
proof -
  note l = tp_freshD(1-3) [OF assms]
  let ?m = "r mod ucast (high tp - low tp) :: u64"
  have d: "unat (high tp - low tp) = hi tp - lo tp" using l by (intro unat_sub) (simp add: word_le_nat_alt)
  then have "unat (ucast (high tp - low tp) :: u64) = hi tp - lo tp"
    using unat_32_less [of "high tp"] by (simp add: unsigned_ucast_eq take_bit_nat_eq_self)
  then have m: "unat ?m < hi tp - lo tp" using l by (simp add: unat_mod_distrib)
  then have "unat (ucast ?m :: u16) = unat ?m"
    using l unat_16_less [of "range_stop tp"] by (simp add: unsigned_ucast_eq take_bit_nat_eq_self)
  then have "unat (ucast (low tp + ucast (ucast ?m :: u16)) :: u16) = lo tp + unat ?m"
    using m l unat_16_less [of "range_stop tp"] unat_port [of "low tp" "ucast ?m"] by linarith
  then show ?thesis using m l by (simp add: in_range_def word_le_nat_alt)
qed

lemma tp_fresh_swap:
  assumes "tp_fresh tp"
  shows "tp_fresh (turnports_swap tp r1 r2)"
  using assms fresh_exchange [OF assms random_port_in_range [OF assms] random_port_in_range [OF assms], of r1 r2]
    tp_freshD(5) [OF assms random_port_in_range [OF assms]]
  by (simp add: turnports_swap_def Let_def)

lemma swap_range:
  "range_start (turnports_swap tp r1 r2) = range_start tp" "range_stop (turnports_swap tp r1 r2) = range_stop tp"
  by (simp_all add: turnports_swap_def Let_def)

lemma tp_fresh_randomize:
  assumes "tp_fresh tp"
  shows "tp_fresh (turnports_randomize random tp)"
    "range_start (turnports_randomize random tp) = range_start tp" "range_stop (turnports_randomize random tp) = range_stop tp"
proof -
  have "tp_fresh (fold (\<lambda>i tp. turnports_swap tp (random (2 * i)) (random (2 * i + 1))) is tp) \<and>
    range_start (fold (\<lambda>i tp. turnports_swap tp (random (2 * i)) (random (2 * i + 1))) is tp) = range_start tp \<and>
    range_stop (fold (\<lambda>i tp. turnports_swap tp (random (2 * i)) (random (2 * i + 1))) is tp) = range_stop tp" for "is"
    using assms by (induction "is" arbitrary: tp) (simp_all add: tp_fresh_swap swap_range)
  then show "tp_fresh (turnports_randomize random tp)"
    "range_start (turnports_randomize random tp) = range_start tp" "range_stop (turnports_randomize random tp) = range_stop tp"
    by (simp_all add: turnports_randomize_def)
qed

lemma tp_inv_fresh:
  assumes "tp_fresh tp"
  shows "tp_inv tp" "\<not> taken tp q"
proof -
  note fr = tp_freshD [OF assms]
  have h: "hi tp \<le> 65536" using fr(2) unat_16_less [of "range_stop tp"] by simp
  have f: "free_at tp q (unat (status tp q))" if "in_range tp q" for q
    using fr(4) [OF that] fr(5) [OF that] by (simp add: free_at_def slot_def)
  have s: "in_range tp (slot tp p) \<and> status tp (slot tp p) = of_nat p" if "lo tp \<le> p" "p < hi tp" for p
  proof -
    have u: "unat (of_nat p :: u16) = p" using that h by (simp add: unat_of_nat_16)
    then have "in_range tp (of_nat p)" using that fr(1,2) by (simp add: in_range_def word_le_nat_alt)
    moreover have "(ucast (of_nat p :: u16) :: u32) = of_nat p"
      using that h by (simp add: word_unat_eq_iff unsigned_ucast_eq unsigned_of_nat take_bit_nat_eq_self)
    ultimately show ?thesis using fr(7,8) by (simp add: slot_def)
  qed
  then have ns: "\<not> stale tp p" for p by (auto simp: stale_def)
  show "tp_inv tp"
    using fr(1-3,6) f s ns h by (intro tp_invI) (auto simp: pos_max_def)
  show "\<not> taken tp q"
  proof (cases "in_range tp q")
    case True
    then show ?thesis using free_not_taken [OF \<open>tp_inv tp\<close> f] by blast
  next
    case False
    then show ?thesis using fr(6) by (simp add: taken_def)
  qed
qed

lemma tp_fresh_init:
  assumes "start \<le> stop"
  shows "tp_fresh (turnports_init random start stop)" "range_start (turnports_init random start stop) = start"
    "range_stop (turnports_init random start stop) = stop"
proof -
  let ?t = "\<lparr>status = (\<lambda>i. if i < start then TPS_OUT_OF_RANGE else if i \<le> stop then ucast i else TPS_OUT_OF_RANGE),
        low = ucast start, high = ucast stop + 1, range_start = start, range_stop = stop, ports = (\<lambda>i. i)\<rparr>"
  have u: "unat (ucast w :: u32) = unat w" for w :: u16
    using unat_16_less [of w] by (simp add: unsigned_ucast_eq take_bit_nat_eq_self)
  have "unat (ucast stop + 1 :: u32) = Suc (unat stop)"
    using unat_16_less [of stop] by (simp add: unat_word_ariths u)
  moreover have "ucast (ucast q :: u32) = q" for q :: u16 by (rule bit_word_eqI) (simp add: bit_simps)
  ultimately have "tp_fresh ?t"
    using assms by (auto simp: tp_fresh_def in_range_def u word_le_nat_alt word_less_nat_alt)
  then show "tp_fresh (turnports_init random start stop)" "range_start (turnports_init random start stop) = start"
    "range_stop (turnports_init random start stop) = stop"
    unfolding turnports_init_def by (simp_all add: tp_fresh_randomize)
qed

text \<open>A range of up to 43689 ports never overflows the ring (the default range has 16384).\<close>

lemma ring_fits_size:
  assumes "range_start tp \<le> range_stop tp" "unat (range_stop tp) - unat (range_start tp) < 43689"
  shows "ring_fits tp"
proof -
  let ?a = "unat (range_start tp)" and ?b = "unat (range_stop tp)"
  let ?O = "{q \<in> range_ports tp. odd (uint q)}"
  have "inj_on unat (range_ports tp)" by (rule inj_onI) (simp add: word_unat_eq_iff)
  then have "card (range_ports tp) \<le> card (unat ` range_ports tp)" by (simp add: card_image)
  also have "\<dots> \<le> card {?a..?b}"
    by (rule card_mono) (auto simp: range_ports_def in_range_def word_le_nat_alt)
  finally have c: "card (range_ports tp) \<le> 43689" using assms(2) by simp
  have un: "odd (uint q) \<longleftrightarrow> odd (unat q)" for q :: u16 unfolding uint_nat even_of_nat by (rule refl)
  have "inj_on (\<lambda>q. unat q div 2) ?O"
  proof (rule inj_onI)
    fix p q assume pq: "p \<in> ?O" "q \<in> ?O" "unat p div 2 = unat q div 2"
    have "odd (unat p)" "odd (unat q)" using pq(1,2) unfolding un mem_Collect_eq by blast+
    then have "unat p = unat q" using pq(3) by (metis odd_two_times_div_two_succ)
    then show "p = q" by (simp add: word_unat_eq_iff)
  qed
  then have "card ?O = card ((\<lambda>q. unat q div 2) ` ?O)" by (simp add: card_image)
  also have "\<dots> \<le> card {?a div 2..?b div 2}"
    by (rule card_mono) (auto simp: range_ports_def in_range_def word_le_nat_alt intro: div_le_mono)
  finally have "card ?O \<le> Suc (?b div 2) - ?a div 2" by simp
  also have "\<dots> \<le> 21846" using assms(2) by linarith
  finally show ?thesis using c by (simp add: ring_fits_def)
qed

lemma allocate_range:
  "range_start (snd (turnports_allocate tp)) = range_start tp \<and> range_stop (snd (turnports_allocate tp)) = range_stop tp"
proof (induction tp rule: turnports_allocate.induct)
  case (1 tp)
  let ?port = "ports tp (ucast (low tp AND 0x0000FFFF))"
  show ?case
  proof (cases "high tp \<le> low tp \<or> ?port < range_start tp \<or> range_stop tp < ?port \<or>
      \<not> is_taken (status tp ?port) \<and> status tp ?port = low tp")
    case True
    then show ?thesis by (subst (1 2) turnports_allocate.simps) (auto simp: Let_def)
  next
    case False
    then have "turnports_allocate tp = turnports_allocate (tp\<lparr>low := low tp + 1\<rparr>)"
      by (subst turnports_allocate.simps) (auto simp: Let_def)
    then show ?thesis using 1 False by (cases "is_taken (status tp ?port)") auto
  qed
qed

section \<open>Refinement to a set of taken ports\<close>

datatype pool_op = Allocate | Allocate_even bool u32 | Release u16

fun pool_do :: "pool_op \<Rightarrow> turnports \<Rightarrow> int \<times> turnports" where
  "pool_do Allocate tp = turnports_allocate tp"
| "pool_do (Allocate_even rtcp rnd) tp = (case turnports_allocate_even tp rtcp rnd of (r, t, tok) \<Rightarrow> (r, t))"
| "pool_do (Release port) tp = (0, turnports_release tp port)"

text \<open>
  The specification, over the ports \<open>R\<close> of the range and the set \<open>T\<close> of taken ports. A port is suitable for an even
  allocation if it is even and free, and for a reservation if its odd neighbour is free as well. An even allocation
  fails when no port is suitable, and it may also fail when the suitable port is the only free port at all; a failure
  leaves the set alone, except that it may release port 65535 of an exhausted pool.
\<close>

definition suitable :: "u16 set \<Rightarrow> u16 set \<Rightarrow> bool \<Rightarrow> u16 set" where
  "suitable R T rtcp = {e \<in> R - T. even (uint e) \<and> (rtcp \<longrightarrow> e + 1 \<in> R - T)}"

fun pool_spec :: "u16 set \<Rightarrow> pool_op \<Rightarrow> u16 set \<Rightarrow> int \<Rightarrow> u16 set \<Rightarrow> bool" where
  "pool_spec R Allocate T r T' \<longleftrightarrow>
     (r = - 1 \<and> T = R \<and> T' = T) \<or> (\<exists>port \<in> R - T. r = uint port \<and> T' = insert port T)"
| "pool_spec R (Allocate_even rtcp rnd) T r T' \<longleftrightarrow>
     (r = - 1 \<and> (suitable R T rtcp = {} \<or> \<not> rtcp \<and> card (R - T) = 1) \<and> (T' = T \<or> T = R \<and> T' = T - {- 1})) \<or>
     (\<exists>port \<in> suitable R T rtcp. r = uint port \<and> T' = (if rtcp then {port, port + 1} else {port}) \<union> T)"
| "pool_spec R (Release port) T r T' \<longleftrightarrow> r = 0 \<and> T' = T - {port}"

text \<open>
  The number of positions an operation may use up: the length of the queue for an even allocation, which may move every
  port of the queue to its end.
\<close>

fun pool_need :: "pool_op \<Rightarrow> turnports \<Rightarrow> nat" where
  "pool_need Allocate tp = 0"
| "pool_need (Allocate_even rtcp rnd) tp = unat (turnports_size tp)"
| "pool_need (Release port) tp = 1"

definition pool_ok :: "turnports \<Rightarrow> bool" where
  "pool_ok tp \<longleftrightarrow> tp_inv tp \<and> ring_fits tp"

lemma range_ports_cong: "in_range t = in_range tp \<Longrightarrow> range_ports t = range_ports tp"
  by (simp add: range_ports_def)

lemma pool_size:
  assumes "pool_ok tp"
  shows "unat (turnports_size tp) = hi tp - lo tp"
proof -
  have inv: "tp_inv tp" "ring_fits tp" using assms by (simp_all add: pool_ok_def)
  have "card {port \<in> range_ports tp. \<not> taken tp port} \<le> card (range_ports tp)" by (rule card_mono) auto
  then have w: "hi tp - lo tp < 65536" using queue_bound [OF inv(1)] inv(2) by (simp add: ring_fits_def)
  have "unat (high tp - low tp) = hi tp - lo tp"
    using tp_invD(1) [OF inv(1)] by (intro unat_sub) (simp add: word_le_nat_alt)
  then show ?thesis using w by (simp add: turnports_size_def unsigned_ucast_eq take_bit_eq_mod)
qed

lemma suitable_taken:
  "e \<in> suitable (range_ports tp) (taken_ports tp) rtcp \<longleftrightarrow>
     in_range tp e \<and> \<not> taken tp e \<and> even (uint e) \<and> (rtcp \<longrightarrow> in_range tp (e + 1) \<and> \<not> taken tp (e + 1))"
  by (auto simp: suitable_def range_ports_def taken_ports_def)

text \<open>A queue of at most one slot holds at most one free port.\<close>

lemma short_queue:
  assumes "pool_ok tp" "turnports_size tp \<le> 1" "e \<in> suitable (range_ports tp) (taken_ports tp) rtcp"
  shows "\<not> rtcp" "card (range_ports tp - taken_ports tp) = 1"
proof -
  have inv: "tp_inv tp" using assms(1) by (simp add: pool_ok_def)
  have len: "hi tp - lo tp \<le> 1" using assms(2) pool_size [OF assms(1)] by (simp add: word_le_nat_alt)
  have e: "in_range tp e" "\<not> taken tp e" using assms(3) by (simp_all add: suitable_taken)
  have one: "f = e" if f: "in_range tp f" "\<not> taken tp f" for f
  proof -
    obtain p where p: "free_at tp e p" using tp_invD(3) [OF inv e] by blast
    obtain q where q: "free_at tp f q" using tp_invD(3) [OF inv f] by blast
    have "p = q" using p q len unfolding free_at_def by linarith
    then show ?thesis using p q by (simp add: free_at_def)
  qed
  show "\<not> rtcp"
  proof
    assume rtcp
    then have "e + 1 = e" using assms(3) one [of "e + 1"] unfolding suitable_taken by blast
    then show False by simp
  qed
  have "range_ports tp - taken_ports tp = {e}" unfolding range_ports_def taken_ports_def using one e by blast
  then show "card (range_ports tp - taken_ports tp) = 1" by simp
qed

text \<open>The even allocation, with the reason of a failure.\<close>

lemma allocate_even_result:
  assumes "pool_ok tp" "hi tp + unat (turnports_size tp) \<le> pos_max" "turnports_allocate_even tp rtcp rnd = (r, t, tok)"
  shows "pool_ok t \<and> in_range t = in_range tp \<and> hi t \<le> hi tp + unat (turnports_size tp) \<and> even_result tp rtcp r t"
proof (cases "turnports_size tp > 1")
  case True
  have inv: "tp_inv tp" "ring_fits tp" using assms(1) by (simp_all add: pool_ok_def)
  have l: "allocate_even_loop (unat (turnports_size tp)) tp rtcp rnd = (r, t, tok)"
    using assms(3) True by (simp add: turnports_allocate_even_def Let_def)
  show ?thesis using even_loop_spec [OF inv assms(2) l] ring_fits_cong [of t tp] inv(2) by (simp add: pool_ok_def)
next
  case False
  then show ?thesis using assms by (simp add: turnports_allocate_even_def Let_def even_result_def)
qed

lemma allocate_even_progress:
  assumes "pool_ok tp" "hi tp + unat (turnports_size tp) \<le> pos_max" "turnports_size tp > 1"
    "e \<in> suitable (range_ports tp) (taken_ports tp) rtcp"
  shows "fst (turnports_allocate_even tp rtcp rnd) \<noteq> - 1"
proof -
  have inv: "tp_inv tp" "ring_fits tp" using assms(1) by (simp_all add: pool_ok_def)
  have e: "in_range tp e" "\<not> taken tp e" "even (uint e)" "rtcp \<Longrightarrow> in_range tp (e + 1) \<and> \<not> taken tp (e + 1)"
    using assms(4) by (simp_all add: suitable_taken)
  obtain p where p: "free_at tp e p" using e(1,2) tp_invD(3) [OF inv(1)] by blast
  have "p < lo tp + unat (turnports_size tp)" using p pool_size [OF assms(1)] by (auto simp: free_at_def)
  then show ?thesis
    using even_loop_progress [OF inv assms(2) p e(3) _ e(4)] assms(3) by (simp add: turnports_allocate_even_def Let_def)
qed

lemma even_result_spec:
  assumes "even_result tp rtcp r t"
    "r = - 1 \<Longrightarrow> suitable (range_ports tp) (taken_ports tp) rtcp = {} \<or> \<not> rtcp \<and> card (range_ports tp - taken_ports tp) = 1"
    "taken_ports tp \<subseteq> range_ports tp"
  shows "pool_spec (range_ports tp) (Allocate_even rtcp rnd) (taken_ports tp) r (taken_ports t)"
proof (cases "r = - 1")
  case True
  then have "taken t = taken tp \<or> (\<forall>q. in_range tp q \<longrightarrow> taken tp q) \<and> taken t = (taken tp)(- 1 := False)"
    using assms(1) uint_neq_m1 unfolding even_result_def by blast
  moreover have "taken_ports tp = range_ports tp" if "\<forall>q. in_range tp q \<longrightarrow> taken tp q"
    using that assms(3) by (auto simp: range_ports_def taken_ports_def)
  moreover have "taken_ports t = taken_ports tp - {- 1}" if "taken t = (taken tp)(- 1 := False)"
    unfolding taken_ports_def that by (auto split: if_splits)
  moreover have "taken_ports t = taken_ports tp" if "taken t = taken tp" using that by (simp add: taken_ports_def)
  ultimately have "taken_ports t = taken_ports tp \<or> taken_ports tp = range_ports tp \<and> taken_ports t = taken_ports tp - {- 1}"
    by blast
  then show ?thesis using True assms(2) unfolding pool_spec.simps by blast
next
  case False
  then obtain e where e: "r = uint e" "e \<in> suitable (range_ports tp) (taken_ports tp) rtcp"
    "taken t = (if rtcp then (taken tp)(e := True, e + 1 := True) else (taken tp)(e := True))"
    using assms(1) unfolding even_result_def suitable_taken by (auto split: if_splits)
  then have "taken_ports t = (if rtcp then {e, e + 1} else {e}) \<union> taken_ports tp" by (auto simp: taken_ports_def)
  then show ?thesis using e(1,2) unfolding pool_spec.simps by blast
qed

lemma pool_step:
  assumes "pool_ok tp" "hi tp + pool_need oper tp \<le> pos_max" "pool_do oper tp = (r, t)"
  shows "pool_ok t \<and> in_range t = in_range tp \<and> hi t \<le> hi tp + pool_need oper tp \<and>
    pool_spec (range_ports tp) oper (taken_ports tp) r (taken_ports t)"
proof (cases oper)
  case Allocate
  have inv: "tp_inv tp" "ring_fits tp" using assms(1) by (simp_all add: pool_ok_def)
  from inv(1) show ?thesis
  proof (cases rule: allocate_cases)
    case (full u)
    have "taken_ports tp = range_ports tp"
      using full(6) taken_in_range [OF inv(1)] by (auto simp: taken_ports_def range_ports_def)
    then show ?thesis using full(1-5) Allocate assms(3) inv(2) ring_fits_cong [OF full(4)]
      by (simp add: pool_ok_def taken_ports_def)
  next
    case (found s port)
    let ?u = "s\<lparr>status := (status s)(port := TPS_TAKEN_SINGLE), low := low s + 1\<rparr>"
    note th = take_head [OF found(1,8) is_taken_markers(1)]
    have t: "t = ?u" "r = uint port" using Allocate assms(3) found(9) by simp_all
    have fits: "ring_fits ?u" "in_range ?u = in_range tp" "hi ?u = hi tp"
      using ring_fits_cong [of ?u tp] th(3,5) found(3,5) inv(2) by simp_all
    have pr: "port \<in> range_ports tp - taken_ports tp"
      using free_in_range [OF found(1,8)] free_not_taken [OF found(1,8)] found(2,3) by (simp add: range_ports_def taken_ports_def)
    have tk: "taken_ports ?u = insert port (taken_ports tp)" unfolding taken_ports_def th(2) found(2) by auto
    show ?thesis
      unfolding Allocate pool_ok_def t pool_spec.simps pool_need.simps tk fits add_0_right
      using th(1) fits(1) pr order_refl [of "hi tp"] by blast
  qed
next
  case (Allocate_even rtcp rnd)
  obtain tok where al: "turnports_allocate_even tp rtcp rnd = (r, t, tok)"
    using assms(3) Allocate_even by (auto split: prod.splits)
  have room: "hi tp + unat (turnports_size tp) \<le> pos_max" using assms(2) Allocate_even by simp
  note res = allocate_even_result [OF assms(1) room al]
  have why: "suitable (range_ports tp) (taken_ports tp) rtcp = {} \<or> \<not> rtcp \<and> card (range_ports tp - taken_ports tp) = 1"
    if "r = - 1"
    using that al allocate_even_progress [OF assms(1) room, of _ rtcp rnd] short_queue [OF assms(1), of _ rtcp]
    by (metis all_not_in_conv fst_conv not_less)
  have "taken_ports tp \<subseteq> range_ports tp"
    using assms(1) taken_in_range by (auto simp: pool_ok_def taken_ports_def range_ports_def)
  then show ?thesis using res even_result_spec [of tp rtcp r t rnd] why Allocate_even by simp
next
  case (Release port)
  have inv: "tp_inv tp" "ring_fits tp" "hi tp < pos_max" using assms(1,2) Release by (simp_all add: pool_ok_def)
  show ?thesis
  proof (cases "taken tp port")
    case True
    note rl = release_taken [OF inv(1,2) taken_in_range [OF inv(1) True] True inv(3)]
    have "taken_ports (turnports_release tp port) = taken_ports tp - {port}" unfolding taken_ports_def rl(2) by (auto split: if_splits)
    then show ?thesis using Release assms(3) rl(1,3,5) ring_fits_cong [OF rl(3)] inv(2) by (auto simp: pool_ok_def)
  next
    case False
    then have "taken_ports tp - {port} = taken_ports tp" by (auto simp: taken_ports_def)
    then show ?thesis using Release assms(1,3) release_noop [OF inv(1) False] by auto
  qed
qed

fun pool_run :: "pool_op list \<Rightarrow> turnports \<Rightarrow> int list \<times> turnports" where
  "pool_run [] tp = ([], tp)"
| "pool_run (oper # ops) tp =
     (case pool_do oper tp of (r, t) \<Rightarrow> (case pool_run ops t of (rs, u) \<Rightarrow> (r # rs, u)))"

inductive pool_spec_run :: "u16 set \<Rightarrow> pool_op list \<Rightarrow> u16 set \<Rightarrow> int list \<Rightarrow> u16 set \<Rightarrow> bool" for R where
  nil: "pool_spec_run R [] T [] T"
| cons: "pool_spec R oper T r T' \<Longrightarrow> pool_spec_run R ops T' rs U \<Longrightarrow> pool_spec_run R (oper # ops) T (r # rs) U"

text \<open>
  The positions are 32-bit counters that only grow. A run has room if before every operation the counter is further
  from its end than the operation may move it.
\<close>

fun pool_room :: "pool_op list \<Rightarrow> turnports \<Rightarrow> bool" where
  "pool_room [] tp = True"
| "pool_room (oper # ops) tp = (hi tp + pool_need oper tp \<le> pos_max \<and> pool_room ops (snd (pool_do oper tp)))"

lemma pool_run_refines:
  "pool_ok tp \<Longrightarrow> pool_room ops tp \<Longrightarrow> pool_run ops tp = (rs, t) \<Longrightarrow>
     pool_ok t \<and> pool_spec_run (range_ports tp) ops (taken_ports tp) rs (taken_ports t)"
proof (induction ops arbitrary: tp rs)
  case Nil
  then show ?case by (auto intro: pool_spec_run.nil)
next
  case (Cons oper ops)
  obtain r u where u: "pool_do oper tp = (r, u)" by fastforce
  obtain rs' where rs: "pool_run ops u = (rs', t)" "rs = r # rs'" using Cons.prems(3) u by (auto split: prod.splits)
  have c: "hi tp + pool_need oper tp \<le> pos_max" "pool_room ops u" using Cons.prems(2) u by simp_all
  note s = pool_step [OF Cons.prems(1) c(1) u]
  then have "pool_ok t \<and> pool_spec_run (range_ports u) ops (taken_ports u) rs' (taken_ports t)"
    using Cons.IH [OF _ c(2) rs(1)] by blast
  then show ?case using s range_ports_cong [of u tp] rs(2) by (auto intro: pool_spec_run.cons)
qed

text \<open>
  A run has room whatever the pool does in it if its releases and its even allocations, each counted as the largest
  possible queue, stay below the end of the counter.
\<close>

definition queue_max :: "turnports \<Rightarrow> nat" where
  "queue_max tp = card (range_ports tp) + card {port \<in> range_ports tp. odd (uint port)}"

fun pool_cost :: "nat \<Rightarrow> pool_op \<Rightarrow> nat" where
  "pool_cost n Allocate = 0"
| "pool_cost n (Allocate_even rtcp rnd) = n"
| "pool_cost n (Release port) = 1"

lemma pool_need_cost: "pool_ok tp \<Longrightarrow> pool_need oper tp \<le> pool_cost (queue_max tp) oper"
proof (cases oper)
  case (Allocate_even rtcp rnd)
  assume ok: "pool_ok tp"
  have "card {port \<in> range_ports tp. \<not> taken tp port} \<le> card (range_ports tp)" by (rule card_mono) auto
  then show ?thesis using Allocate_even ok pool_size [OF ok] queue_bound [of tp] by (simp add: pool_ok_def queue_max_def)
qed simp_all

lemma pool_room_cost:
  "pool_ok tp \<Longrightarrow> hi tp + sum_list (map (pool_cost (queue_max tp)) ops) \<le> pos_max \<Longrightarrow> pool_room ops tp"
proof (induction ops arbitrary: tp)
  case (Cons oper ops)
  obtain r u where u: "pool_do oper tp = (r, u)" by fastforce
  note n = pool_need_cost [OF Cons.prems(1), of oper]
  then have c: "hi tp + pool_need oper tp \<le> pos_max" using Cons.prems(2) by simp
  note s = pool_step [OF Cons.prems(1) c u]
  then have "queue_max u = queue_max tp" using range_ports_cong [of u tp] by (simp add: queue_max_def)
  then show ?case using Cons.IH [of u] Cons.prems(2) s c n u by simp
qed simp

lemma pool_ok_init:
  assumes "start \<le> stop" "unat stop - unat start < 43689"
  shows "pool_ok (turnports_init random start stop)" "taken_ports (turnports_init random start stop) = {}"
    "range_ports (turnports_init random start stop) = {start..stop}"
    "hi (turnports_init random start stop) \<le> 65536"
proof -
  let ?t = "turnports_init random start stop"
  note f = tp_fresh_init [OF assms(1), of random]
  show "pool_ok ?t"
    using tp_inv_fresh(1) [OF f(1)] ring_fits_size [of ?t] assms f(2,3) by (simp add: pool_ok_def)
  show "taken_ports ?t = {}" using tp_inv_fresh(2) [OF f(1)] by (simp add: taken_ports_def)
  show "range_ports ?t = {start..stop}" using f(2,3) by (auto simp: range_ports_def in_range_def)
  show "hi ?t \<le> 65536" using tp_freshD(2) [OF f(1)] f(3) unat_16_less [of stop] by simp
qed

text \<open>A constant random stream swaps nothing.\<close>

lemma turnports_init_const:
  "turnports_init (\<lambda>n. c) start stop =
     \<lparr>status = (\<lambda>i. if i < start then TPS_OUT_OF_RANGE else if i \<le> stop then ucast i else TPS_OUT_OF_RANGE),
      low = ucast start, high = ucast stop + 1, range_start = start, range_stop = stop, ports = (\<lambda>i. i)\<rparr>"
proof -
  have "fold (\<lambda>i tp. turnports_swap tp c c) is tp = tp" for "is" :: "nat list" and tp
    by (induction "is") (simp_all add: turnports_swap_def Let_def)
  then show ?thesis by (simp add: turnports_init_def turnports_randomize_def)
qed

text \<open>A pool of four ports whose first swap exchanges the two middle ones.\<close>

definition one_swap :: "nat \<Rightarrow> u64" where
  "one_swap n = (if n = 0 then 1 else if n = 1 then 2 else 0)"

definition four_ports :: turnports where
  "four_ports = turnports_swap
     \<lparr>status = (\<lambda>i. if i < 65532 then TPS_OUT_OF_RANGE else if i \<le> 65535 then ucast i else TPS_OUT_OF_RANGE),
      low = 65532, high = 65536, range_start = 65532, range_stop = 65535, ports = (\<lambda>i. i)\<rparr> 1 2"

lemma four_ports_init: "turnports_init one_swap 65532 65535 = four_ports"
proof -
  have "fold (\<lambda>i tp. turnports_swap tp (one_swap (2 * i)) (one_swap (2 * i + 1))) (map Suc is) tp = tp" for "is" tp
    by (induction "is") (simp_all add: turnports_swap_def Let_def one_swap_def)
  moreover have "[0..<40] = 0 # map Suc [0..<39]" by (simp add: map_Suc_upt upt_conv_Cons)
  ultimately show ?thesis
    by (simp add: turnports_init_def turnports_randomize_def four_ports_def one_swap_def [of 0] one_swap_def [of "Suc 0"])
qed

text \<open>The same pool after two reservations: exhausted, with the slots of the two odd ports left in the queue.\<close>

definition four_reserved :: turnports where
  "four_reserved = snd (pool_run [Allocate_even True 0, Allocate_even True 0] four_ports)"

lemma four_reserved_state:
  "pool_ok four_reserved" "range_ports four_reserved = {65532..65535}" "hi four_reserved = 65536"
  "turnports_size four_reserved = 2" "taken_ports four_reserved = {65532..65535}"
proof -
  let ?ops = "[Allocate_even True 0, Allocate_even True 0]"
  note i = pool_ok_init [of 65532 65535 one_swap, unfolded four_ports_init, simplified]
  have "queue_max four_ports < 65536" using i(1) by (simp add: pool_ok_def ring_fits_def queue_max_def)
  then have "pool_room ?ops four_ports" using pool_room_cost [OF i(1), of ?ops] i(4) by (simp add: pos_max_def)
  moreover have "pool_run ?ops four_ports = (fst (pool_run ?ops four_ports), four_reserved)"
    unfolding four_reserved_def by (rule prod.collapse [symmetric])
  ultimately show ok: "pool_ok four_reserved" using pool_run_refines [OF i(1)] by blast
  have "range_start four_reserved = 65532 \<and> range_stop four_reserved = 65535" by code_simp
  then show r: "range_ports four_reserved = {65532..65535}" by (auto simp: range_ports_def in_range_def)
  have "high four_reserved = 65536" by code_simp
  then show "hi four_reserved = 65536" by simp
  show "turnports_size four_reserved = 2" by code_simp
  have "taken four_reserved 65532" "taken four_reserved 65533" "taken four_reserved 65534" "taken four_reserved 65535"
    unfolding taken_def by code_simp+
  moreover have "q = 65532 \<or> q = 65533 \<or> q = 65534 \<or> q = 65535" if "q \<in> {65532..65535}" for q :: u16
  proof -
    have "unat q = 65532 \<or> unat q = 65533 \<or> unat q = 65534 \<or> unat q = 65535"
      using that unat_16_less [of q] by (simp add: word_le_nat_alt) linarith
    then show ?thesis by (auto simp: word_unat_eq_iff)
  qed
  ultimately have "{65532..65535} \<subseteq> taken_ports four_reserved" unfolding taken_ports_def by blast
  moreover have "taken_ports four_reserved \<subseteq> range_ports four_reserved"
    using ok taken_in_range by (auto simp: pool_ok_def taken_ports_def range_ports_def)
  ultimately show "taken_ports four_reserved = {65532..65535}" using r by blast
qed

section \<open>Properties\<close>

text \<open>\<^bold>\<open>C2\<close>: a run of pool operations from a new pool behaves like a set of taken ports inside the range. An allocation
  returns a port that is not taken and fails only when the whole range is taken. An even allocation returns a free even
  port and, when asked to, also takes its free odd neighbour; it fails only when no port is suitable or when, without a
  reservation, a single port is free, and a failure changes nothing but that it may release port 65535 of an exhausted
  pool. A release frees the port. The range has at most 43689 ports, and the run ends before the 32-bit position counter
  does: every release uses up one position and an even allocation at most the length of the queue.\<close>

theorem pool_refines:
  assumes "turnports_create random start stop = Some tp" "unat stop - unat start < 43689"
    "pool_room ops tp" "pool_run ops tp = (rs, t)"
  shows "pool_spec_run {start..stop} ops {} rs (taken_ports t)"
proof -
  have i: "start \<le> stop" "tp = turnports_init random start stop"
    using assms(1) by (auto simp: turnports_create_def split: if_splits)
  note p = pool_ok_init [OF i(1) assms(2), of random]
  show ?thesis using pool_run_refines [of tp ops rs t] p assms(3,4) i(2) by auto
qed

theorem pool_refines_witness:
  "\<exists>rs t. pool_run [Allocate, Allocate_even True 0, Release 65533, Allocate_even True 0] four_ports = (rs, t) \<and>
     pool_spec_run {65532..65535} [Allocate, Allocate_even True 0, Release 65533, Allocate_even True 0] {} rs (taken_ports t)"
proof -
  let ?ops = "[Allocate, Allocate_even True 0, Release 65533, Allocate_even True 0]"
  obtain rs t where run: "pool_run ?ops four_ports = (rs, t)" by fastforce
  have c: "turnports_create one_swap 65532 65535 = Some four_ports" by (simp add: turnports_create_def four_ports_init)
  note i = pool_ok_init [of 65532 65535 one_swap, unfolded four_ports_init, simplified]
  have "queue_max four_ports < 65536" using i(1) by (simp add: pool_ok_def ring_fits_def queue_max_def)
  then have "pool_room ?ops four_ports" using pool_room_cost [OF i(1), of ?ops] i(4) by (simp add: pos_max_def)
  from pool_refines [OF c _ this run] run show ?thesis by auto
qed



text \<open>\<^bold>\<open>C37\<close>: an even allocation on an exhausted pool whose queue still has two or more (stale) slots fails and frees port
  65535 although it is in use: the failure value \<open>-1\<close> of the inner allocation counts as an odd port and is released as
  port 65535. No other port changes hands.\<close>

theorem allocate_even_frees_last_port:
  assumes "pool_ok tp" "hi tp + unat (turnports_size tp) \<le> pos_max" "turnports_size tp > 1"
    "taken_ports tp = range_ports tp" "turnports_allocate_even tp rtcp rnd = (r, t, tok)"
  shows "r = - 1 \<and> taken_ports t = taken_ports tp - {65535}"
proof -
  have inv: "tp_inv tp" "ring_fits tp" using assms(1) by (simp_all add: pool_ok_def)
  obtain n where n: "unat (turnports_size tp) = Suc n" using assms(3) by (cases "unat (turnports_size tp)") (auto simp: word_less_nat_alt)
  have full: "taken tp q" if "in_range tp q" for q using that assms(4) by (auto simp: taken_ports_def range_ports_def)
  have l: "allocate_even_loop (Suc n) tp rtcp rnd = (r, t, tok)"
    using assms(3,5) n by (simp add: turnports_allocate_even_def Let_def)
  have room: "hi tp + Suc n \<le> pos_max" using assms(2) n by simp
  have e: "r = - 1" "taken t = (taken tp)(- 1 := False)" using even_loop_exhausted [OF inv room _ l] full by blast+
  have "taken_ports t = taken_ports tp - {- 1}" unfolding taken_ports_def e(2) by (auto split: if_splits)
  moreover have "(- 1 :: u16) = 65535" by simp
  ultimately show ?thesis using e(1) by simp
qed

theorem allocate_even_frees_last_port_witness:
  "65535 \<in> taken_ports four_reserved \<and>
   taken_ports (fst (snd (turnports_allocate_even four_reserved True 0))) = {65532..65535} - {65535}"
proof -
  obtain r t tok where al: "turnports_allocate_even four_reserved True 0 = (r, t, tok)" using prod_cases3 by metis
  have "hi four_reserved + unat (turnports_size four_reserved) \<le> pos_max" "turnports_size four_reserved > 1"
    "taken_ports four_reserved = range_ports four_reserved"
    using four_reserved_state by (simp_all add: pos_max_def)
  from allocate_even_frees_last_port [OF four_reserved_state(1) this al] al four_reserved_state(5)
  show ?thesis by simp
qed

end
