(* ===== verification/Ip_Ports.thy ===== *)
theory Ip_Ports
  imports Port_Pool
begin

text \<open>
  The relay ports of all backend addresses, the second half of \<^verbatim>\<open>src/coturn/src/apps/relay/turn_ports.c\<close>: one address
  map per transport leads from a backend IP to its port pool. The pools live in memory regions that are never freed;
  the model keeps them in a list, and the pointer to the pool at index \<open>i\<close> is \<open>i + 1\<close>. Zero is the NULL pointer that
  a failed creation (a range that ends before it starts) leaves. On a NULL pool \<^verbatim>\<open>turnports_allocate\<close> locks the mutex of
  the pool before it tests the pointer, which C leaves undefined; the model returns \<open>-1\<close> there, and the properties below
  are about ranges that are not empty, where no pool is NULL.
\<close>

section \<open>The operations\<close>

record turnipports =
  ipp_start :: u16
  ipp_end :: u16
  ip_to_turnports_udp :: ur_addr_map
  ip_to_turnports_tcp :: ur_addr_map
  pools :: "turnports list"

definition STUN_ATTRIBUTE_TRANSPORT_TCP_VALUE :: u8 where "STUN_ATTRIBUTE_TRANSPORT_TCP_VALUE = 6"
definition STUN_ATTRIBUTE_TRANSPORT_UDP_VALUE :: u8 where "STUN_ATTRIBUTE_TRANSPORT_UDP_VALUE = 17"

definition is_tcp :: "u8 \<Rightarrow> bool" where
  "is_tcp transport \<longleftrightarrow> transport = STUN_ATTRIBUTE_TRANSPORT_TCP_VALUE"

definition get_map :: "turnipports \<Rightarrow> u8 \<Rightarrow> ur_addr_map" where
  "get_map tp transport = (if is_tcp transport then ip_to_turnports_tcp tp else ip_to_turnports_udp tp)"

definition set_map :: "turnipports \<Rightarrow> u8 \<Rightarrow> ur_addr_map \<Rightarrow> turnipports" where
  "set_map tp transport m =
     (if is_tcp transport then tp\<lparr>ip_to_turnports_tcp := m\<rparr> else tp\<lparr>ip_to_turnports_udp := m\<rparr>)"

definition pool_ref :: "turnipports \<Rightarrow> u64 \<Rightarrow> turnports" where
  "pool_ref tp t = pools tp ! (unat t - 1)"

definition pool_store :: "turnipports \<Rightarrow> u64 \<Rightarrow> turnports \<Rightarrow> turnipports" where
  "pool_store tp t p = tp\<lparr>pools := (pools tp)[unat t - 1 := p]\<rparr>"

definition turnipports_create :: "u16 \<Rightarrow> u16 \<Rightarrow> turnipports" where
  "turnipports_create start stop =
     \<lparr>ipp_start = start, ipp_end = stop, ip_to_turnports_udp = ur_addr_map_init,
      ip_to_turnports_tcp = ur_addr_map_init, pools = []\<rparr>"

definition turnipports_add :: "(nat \<Rightarrow> u64) \<Rightarrow> turnipports \<Rightarrow> u8 \<Rightarrow> ioa_addr option \<Rightarrow> u64 \<times> turnipports" where
  "turnipports_add random tp transport backend_addr =
     (case backend_addr of
        None \<Rightarrow> (0, tp)
      | Some b \<Rightarrow>
          let ba = addr_set_port b 0 in
          (case ur_addr_map_get (get_map tp transport) ba of
             Some t \<Rightarrow> (t, tp)
           | None \<Rightarrow>
               (case turnports_create random (ipp_start tp) (ipp_end tp) of
                  Some p \<Rightarrow>
                    let t = of_nat (Suc (length (pools tp)))
                    in (t, set_map (tp\<lparr>pools := pools tp @ [p]\<rparr>) transport
                             (snd (ur_addr_map_put (get_map tp transport) ba t)))
                | None \<Rightarrow> (0, set_map tp transport (snd (ur_addr_map_put (get_map tp transport) ba 0))))))"

text \<open>\<^verbatim>\<open>turnipports_add_ip\<close> works on the only \<^verbatim>\<open>turnipports\<close> object of the process.\<close>

definition turnipports_add_ip :: "(nat \<Rightarrow> u64) \<Rightarrow> turnipports \<Rightarrow> u8 \<Rightarrow> ioa_addr option \<Rightarrow> turnipports" where
  "turnipports_add_ip random singleton transport backend_addr =
     snd (turnipports_add random singleton transport backend_addr)"

definition turnipports_allocate :: "(nat \<Rightarrow> u64) \<Rightarrow> turnipports \<Rightarrow> u8 \<Rightarrow> ioa_addr option \<Rightarrow> int \<times> turnipports" where
  "turnipports_allocate random tp transport backend_addr =
     (if backend_addr = None then (- 1, tp)
      else
        (case turnipports_add random tp transport backend_addr of
           (t, tp) \<Rightarrow>
             if t = 0 then (- 1, tp)
             else (case turnports_allocate (pool_ref tp t) of (r, p) \<Rightarrow> (r, pool_store tp t p))))"

definition turnipports_allocate_even ::
  "(nat \<Rightarrow> u64) \<Rightarrow> turnipports \<Rightarrow> ioa_addr option \<Rightarrow> bool \<Rightarrow> u32 \<Rightarrow> int \<times> turnipports \<times> u64 option" where
  "turnipports_allocate_even random tp backend_addr allocate_rtcp rnd =
     (if backend_addr = None then (- 1, tp, None)
      else
        (case turnipports_add random tp STUN_ATTRIBUTE_TRANSPORT_UDP_VALUE backend_addr of
           (t, tp) \<Rightarrow>
             if t = 0 then (- 1, tp, None)
             else (case turnports_allocate_even (pool_ref tp t) allocate_rtcp rnd of
                     (r, p, tok) \<Rightarrow> (r, pool_store tp t p, tok))))"

definition turnipports_release :: "turnipports \<Rightarrow> u8 \<Rightarrow> ioa_addr option \<Rightarrow> turnipports" where
  "turnipports_release tp transport socket_addr =
     (case socket_addr of
        None \<Rightarrow> tp
      | Some s \<Rightarrow>
          (case ur_addr_map_get (get_map tp transport) (addr_set_port s 0) of
             Some t \<Rightarrow> pool_store tp t (turnports_release (pool_ref tp t) (of_int (addr_get_port (Some s))))
           | None \<Rightarrow> tp))"

definition turnipports_is_allocated :: "turnipports \<Rightarrow> u8 \<Rightarrow> ioa_addr option \<Rightarrow> u16 \<Rightarrow> bool" where
  "turnipports_is_allocated tp transport backend_addr port =
     (case backend_addr of
        None \<Rightarrow> False
      | Some b \<Rightarrow>
          (case ur_addr_map_get (get_map tp transport) (addr_set_port b 0) of
             Some t \<Rightarrow> turnports_is_allocated (pool_ref tp t) port
           | None \<Rightarrow> False))"

definition turnipports_is_available :: "turnipports \<Rightarrow> u8 \<Rightarrow> ioa_addr option \<Rightarrow> u16 \<Rightarrow> bool" where
  "turnipports_is_available tp transport backend_addr port =
     (case backend_addr of
        None \<Rightarrow> False
      | Some b \<Rightarrow>
          (case ur_addr_map_get (get_map tp transport) (addr_set_port b 0) of
             Some t \<Rightarrow> turnports_is_available (pool_ref tp t) port
           | None \<Rightarrow> True))"

section \<open>Pools by address\<close>

definition pool_at :: "turnipports \<Rightarrow> u8 \<Rightarrow> ioa_addr \<Rightarrow> turnports option" where
  "pool_at tp tr a = map_option (pool_ref tp) (ur_addr_map_get (get_map tp tr) (addr_set_port a 0))"

definition same_pool :: "u8 \<Rightarrow> ioa_addr \<Rightarrow> u8 \<Rightarrow> ioa_addr \<Rightarrow> bool" where
  "same_pool tr a tr' a' \<longleftrightarrow> is_tcp tr = is_tcp tr' \<and> addr_eq_no_port (Some a) (Some a')"

text \<open>
  Well-formed: both maps are, they lead to pools that exist, different keys lead to different pools, and every pool is a
  well-formed pool of the configured range.
\<close>

definition ipports_ok :: "turnipports \<Rightarrow> bool" where
  "ipports_ok tp \<longleftrightarrow> (\<forall>tr. addr_map_ok (get_map tp tr)) \<and> length (pools tp) < 2 ^ 63 \<and>
     (\<forall>tr k v. ip_addr k \<and> ur_addr_map_get (get_map tp tr) k = Some v \<longrightarrow> 0 < unat v \<and> unat v \<le> length (pools tp)) \<and>
     (\<forall>tr k tr' k' v. ip_addr k \<and> ip_addr k' \<and> ur_addr_map_get (get_map tp tr) k = Some v \<and>
        ur_addr_map_get (get_map tp tr') k' = Some v \<longrightarrow> is_tcp tr = is_tcp tr' \<and> addr_eq (Some k) (Some k')) \<and>
     (\<forall>p \<in> set (pools tp). pool_ok p \<and> range_start p = ipp_start tp \<and> range_stop p = ipp_end tp)"

lemma get_map_set [simp]:
  "get_map (set_map tp tr m) tr' = (if is_tcp tr = is_tcp tr' then m else get_map tp tr')"
  "pools (set_map tp tr m) = pools tp" "ipp_start (set_map tp tr m) = ipp_start tp" "ipp_end (set_map tp tr m) = ipp_end tp"
  "get_map (tp\<lparr>pools := ps\<rparr>) tr = get_map tp tr"
  by (auto simp: get_map_def set_map_def)

lemma get_map_cong: "is_tcp tr = is_tcp tr' \<Longrightarrow> get_map tp tr = get_map tp tr'"
  by (simp add: get_map_def)

lemma addr_eq_zero_port:
  "ip_addr a \<Longrightarrow> ip_addr b \<Longrightarrow> addr_eq (Some (addr_set_port a 0)) (Some (addr_set_port b 0)) = addr_eq_no_port (Some a) (Some b)"
  by (simp add: addr_eq_split_port sin_port_addr_set_port)

lemma ipports_okD:
  assumes "ipports_ok tp"
  shows "addr_map_ok (get_map tp tr)" "length (pools tp) < 2 ^ 63"
    "ip_addr k \<Longrightarrow> ur_addr_map_get (get_map tp tr) k = Some v \<Longrightarrow> 0 < unat v \<and> unat v \<le> length (pools tp)"
    "ip_addr k \<Longrightarrow> ip_addr k' \<Longrightarrow> ur_addr_map_get (get_map tp tr) k = Some v \<Longrightarrow>
        ur_addr_map_get (get_map tp tr') k' = Some v \<Longrightarrow> is_tcp tr = is_tcp tr' \<and> addr_eq (Some k) (Some k')"
    "p \<in> set (pools tp) \<Longrightarrow> pool_ok p \<and> range_start p = ipp_start tp \<and> range_stop p = ipp_end tp"
  using assms unfolding ipports_ok_def by blast+

lemma ipports_okI:
  assumes "\<And>tr. addr_map_ok (get_map tp tr)" "length (pools tp) < 2 ^ 63"
    "\<And>tr k v. ip_addr k \<Longrightarrow> ur_addr_map_get (get_map tp tr) k = Some v \<Longrightarrow> 0 < unat v \<and> unat v \<le> length (pools tp)"
    "\<And>tr k tr' k' v. ip_addr k \<Longrightarrow> ip_addr k' \<Longrightarrow> ur_addr_map_get (get_map tp tr) k = Some v \<Longrightarrow>
        ur_addr_map_get (get_map tp tr') k' = Some v \<Longrightarrow> is_tcp tr = is_tcp tr' \<and> addr_eq (Some k) (Some k')"
    "\<And>p. p \<in> set (pools tp) \<Longrightarrow> pool_ok p \<and> range_start p = ipp_start tp \<and> range_stop p = ipp_end tp"
  shows "ipports_ok tp"
  using assms unfolding ipports_ok_def by blast

lemma pool_at_mem:
  assumes "ipports_ok tp" "ip_addr a" "pool_at tp tr a = Some p"
  shows "p \<in> set (pools tp)"
proof -
  obtain v where v: "ur_addr_map_get (get_map tp tr) (addr_set_port a 0) = Some v" "p = pool_ref tp v"
    using assms(3) by (auto simp: pool_at_def)
  then show ?thesis using ipports_okD(3) [OF assms(1) _ v(1)] assms(2) by (auto simp: pool_ref_def)
qed

lemma is_allocated_pool_at:
  "turnipports_is_allocated tp tr (Some a) q = (case pool_at tp tr a of Some p \<Rightarrow> taken p q | None \<Rightarrow> False)"
  by (auto simp: turnipports_is_allocated_def pool_at_def turnports_is_allocated_def taken_def split: option.splits)

text \<open>Storing a pool changes what is found under its own key only.\<close>

lemma pool_store_laws:
  assumes "ipports_ok tp" "ip_addr b" "ur_addr_map_get (get_map tp tr) (addr_set_port b 0) = Some t"
    "pool_ok p" "range_start p = ipp_start tp" "range_stop p = ipp_end tp"
  shows "ipports_ok (pool_store tp t p)"
    "ip_addr a \<Longrightarrow> pool_at (pool_store tp t p) tr' a = (if same_pool tr b tr' a then Some p else pool_at tp tr' a)"
proof -
  have m: "get_map (pool_store tp t p) tr = get_map tp tr" for tr by (simp add: pool_store_def)
  note i = ipports_okD [OF assms(1)]
  have t: "0 < unat t" "unat t \<le> length (pools tp)" using i(3) [OF _ assms(3)] assms(2) by auto
  have s: "set (pools (pool_store tp t p)) \<subseteq> insert p (set (pools tp))"
    by (simp add: pool_store_def set_update_subset_insert)
  have l: "length (pools (pool_store tp t p)) = length (pools tp)" "ipp_start (pool_store tp t p) = ipp_start tp"
    "ipp_end (pool_store tp t p) = ipp_end tp" by (simp_all add: pool_store_def)
  show "ipports_ok (pool_store tp t p)"
  proof (rule ipports_okI, unfold m l)
    show "pool_ok q \<and> range_start q = ipp_start tp \<and> range_stop q = ipp_end tp"
      if "q \<in> set (pools (pool_store tp t p))" for q using that i(5) [of q] assms(4-6) s by blast
  qed (fact i)+
  assume a: "ip_addr a"
  show "pool_at (pool_store tp t p) tr' a = (if same_pool tr b tr' a then Some p else pool_at tp tr' a)"
  proof (cases "same_pool tr b tr' a")
    case True
    then have "addr_eq (Some (addr_set_port b 0)) (Some (addr_set_port a 0))" "get_map tp tr' = get_map tp tr"
      using addr_eq_zero_port [OF assms(2) a] get_map_cong [of tr' tr] by (simp_all add: same_pool_def)
    then have "ur_addr_map_get (get_map tp tr') (addr_set_port a 0) = Some t"
      using assms(3) ur_addr_map_get_eq [OF i(1), of "addr_set_port b 0" "addr_set_port a 0"] by simp
    then show ?thesis using True t by (simp add: pool_at_def m pool_ref_def pool_store_def)
  next
    case False
    show ?thesis
    proof (cases "ur_addr_map_get (get_map tp tr') (addr_set_port a 0)")
      case None
      then show ?thesis using False by (simp add: pool_at_def m)
    next
      case (Some v)
      then have "v \<noteq> t"
        using False i(4) [OF _ _ assms(3), of "addr_set_port a 0" tr'] assms(2) a addr_eq_zero_port
        by (auto simp: same_pool_def)
      then have "unat v - 1 \<noteq> unat t - 1" using i(3) [OF _ Some] a t by (auto simp: word_unat_eq_iff)
      then show ?thesis using Some False by (simp add: pool_at_def m pool_ref_def pool_store_def)
    qed
  qed
qed

text \<open>Looking a pool up creates it when it is missing; the other addresses keep theirs.\<close>

lemma turnipports_add_laws:
  assumes "ipports_ok tp" "ip_addr b" "ipp_start tp \<le> ipp_end tp" "unat (ipp_end tp) - unat (ipp_start tp) < 43689"
    "Suc (length (pools tp)) < 2 ^ 63" "turnipports_add random tp tr (Some b) = (t, tp')"
  shows "ipports_ok tp'" "ur_addr_map_get (get_map tp' tr) (addr_set_port b 0) = Some t" "t \<noteq> 0"
    "ipp_start tp' = ipp_start tp" "ipp_end tp' = ipp_end tp"
    "ip_addr a \<Longrightarrow> pool_at tp' tr' a =
       (if same_pool tr b tr' a \<and> pool_at tp tr b = None then Some (turnports_init random (ipp_start tp) (ipp_end tp))
        else pool_at tp tr' a)"
proof -
  note i = ipports_okD [OF assms(1)]
  let ?ba = "addr_set_port b 0" and ?new = "turnports_init random (ipp_start tp) (ipp_end tp)"
  have ba: "ip_addr ?ba" using assms(2) by simp
  have "ipports_ok tp' \<and> ur_addr_map_get (get_map tp' tr) ?ba = Some t \<and> t \<noteq> 0 \<and>
    ipp_start tp' = ipp_start tp \<and> ipp_end tp' = ipp_end tp \<and>
    (\<forall>tr' a. ip_addr a \<longrightarrow> pool_at tp' tr' a =
       (if same_pool tr b tr' a \<and> pool_at tp tr b = None then Some ?new else pool_at tp tr' a))"
  proof (cases "ur_addr_map_get (get_map tp tr) ?ba")
    case (Some v)
    then have "t = v" "tp' = tp" "pool_at tp tr b \<noteq> None" using assms(6) by (auto simp: turnipports_add_def pool_at_def)
    then show ?thesis using Some assms(1) i(3) [OF ba Some] by auto
  next
    case None
    define n where "n = length (pools tp)"
    define m where "m = snd (ur_addr_map_put (get_map tp tr) ?ba t)"
    have "turnports_create random (ipp_start tp) (ipp_end tp) = Some ?new"
      using assms(3) by (simp add: turnports_create_def not_less)
    then have t: "t = of_nat (Suc n)" and tp': "tp' = set_map (tp\<lparr>pools := pools tp @ [?new]\<rparr>) tr m"
      using assms(6) None unfolding turnipports_add_def Let_def n_def m_def by auto
    have u: "unat t = Suc n"
      using assms(5) unfolding t n_def by (simp only: unat_of_nat) (simp add: take_bit_nat_eq_self)
    then have t0: "t \<noteq> 0" by auto
    have mo: "addr_map_ok m" and
      ml: "\<And>k. ip_addr k \<Longrightarrow> ur_addr_map_get m k =
        (if addr_eq (Some ?ba) (Some k) then Some t else ur_addr_map_get (get_map tp tr) k)"
      unfolding m_def using am.inv_ins [OF i(1) ba t0] am.look_ins [OF i(1) ba t0] by simp_all
    have g: "get_map tp' tr2 = (if is_tcp tr = is_tcp tr2 then m else get_map tp tr2)" for tr2 by (simp add: tp')
    have ps: "pools tp' = pools tp @ [?new]" "ipp_start tp' = ipp_start tp" "ipp_end tp' = ipp_end tp"
      by (simp_all add: tp')
    have old: "unat v \<le> n" if "ip_addr k" "ur_addr_map_get (get_map tp tr2) k = Some v" for k tr2 v
      using i(3) [OF that] by (simp add: n_def)
    have look: "ur_addr_map_get (get_map tp' tr2) k =
        (if is_tcp tr = is_tcp tr2 \<and> addr_eq (Some ?ba) (Some k) then Some t else ur_addr_map_get (get_map tp tr2) k)"
      if "ip_addr k" for k tr2
      using ml [OF that] get_map_cong [of tr tr2 tp] by (simp add: g)
    have ok: "ipports_ok tp'"
    proof (rule ipports_okI)
      show "addr_map_ok (get_map tp' tr2)" for tr2 using mo i(1) by (simp add: g)
      show "length (pools tp') < 2 ^ 63" using assms(5) by (simp add: ps)
      show "0 < unat v \<and> unat v \<le> length (pools tp')"
        if "ip_addr k" "ur_addr_map_get (get_map tp' tr2) k = Some v" for tr2 k v
        using that(2) i(3) [OF that(1), of tr2 v] u unfolding look [OF that(1)] by (auto simp: ps n_def split: if_splits)
      show "is_tcp tr1 = is_tcp tr2 \<and> addr_eq (Some k) (Some k')"
        if k: "ip_addr k" "ip_addr k'" and l: "ur_addr_map_get (get_map tp' tr1) k = Some v"
          "ur_addr_map_get (get_map tp' tr2) k' = Some v" for tr1 k tr2 k' v
      proof (cases "v = t")
        case True
        then have "is_tcp tr = is_tcp tr1 \<and> addr_eq (Some ?ba) (Some k)" "is_tcp tr = is_tcp tr2 \<and> addr_eq (Some ?ba) (Some k')"
          using l old [OF k(1), of tr1 t] old [OF k(2), of tr2 t] u
          unfolding look [OF k(1)] look [OF k(2)] by (auto split: if_splits)
        then show ?thesis using addr_eq_trans addr_eq_symD by blast
      next
        case False
        then have "ur_addr_map_get (get_map tp tr1) k = Some v" "ur_addr_map_get (get_map tp tr2) k' = Some v"
          using l unfolding look [OF k(1)] look [OF k(2)] by (auto split: if_splits)
        then show ?thesis using i(4) [OF k] by blast
      qed
      show "pool_ok q \<and> range_start q = ipp_start tp' \<and> range_stop q = ipp_end tp'" if "q \<in> set (pools tp')" for q
        using that i(5) pool_ok_init(1) [OF assms(3,4)] tp_fresh_init(2,3) [OF assms(3)] by (auto simp: ps)
    qed
    have pn: "pool_at tp tr b = None" using None by (simp add: pool_at_def)
    have "pool_at tp' tr2 a = (if same_pool tr b tr2 a then Some ?new else pool_at tp tr2 a)" if a: "ip_addr a" for tr2 a
    proof (cases "same_pool tr b tr2 a")
      case True
      then have "ur_addr_map_get (get_map tp' tr2) (addr_set_port a 0) = Some t"
        using addr_eq_zero_port [OF assms(2) a] a by (simp add: look same_pool_def)
      then show ?thesis using True u by (simp add: pool_at_def pool_ref_def ps n_def)
    next
      case False
      then have e: "ur_addr_map_get (get_map tp' tr2) (addr_set_port a 0) = ur_addr_map_get (get_map tp tr2) (addr_set_port a 0)"
        using addr_eq_zero_port [OF assms(2) a] a by (auto simp: look same_pool_def)
      have "pool_ref tp' v = pool_ref tp v" if v: "ur_addr_map_get (get_map tp tr2) (addr_set_port a 0) = Some v" for v
        using i(3) [OF _ v] a by (auto simp: pool_ref_def ps nth_append)
      then show ?thesis using False e
        by (cases "ur_addr_map_get (get_map tp tr2) (addr_set_port a 0)") (simp_all add: pool_at_def)
    qed
    then show ?thesis using ok t0 look [OF ba, of tr] ba ps(2,3) pn by simp
  qed
  then show "ipports_ok tp'" "ur_addr_map_get (get_map tp' tr) (addr_set_port b 0) = Some t" "t \<noteq> 0"
    "ipp_start tp' = ipp_start tp" "ipp_end tp' = ipp_end tp"
    "ip_addr a \<Longrightarrow> pool_at tp' tr' a =
       (if same_pool tr b tr' a \<and> pool_at tp tr b = None then Some ?new else pool_at tp tr' a)" by blast+
qed

lemma uint_eq16: "uint p = uint q \<longleftrightarrow> q = p" for p q :: u16
  by (metis unsigned_word_eqI)

lemma turnipports_add_allocated:
  assumes "ipports_ok tp" "ip_addr b" "ipp_start tp \<le> ipp_end tp" "unat (ipp_end tp) - unat (ipp_start tp) < 43689"
    "Suc (length (pools tp)) < 2 ^ 63" "turnipports_add random tp tr (Some b) = (t, tp')" "ip_addr a"
  shows "turnipports_is_allocated tp' tr' (Some a) q = turnipports_is_allocated tp tr' (Some a) q"
proof -
  note l = turnipports_add_laws(6) [OF assms(1-7), of tr']
  have "\<not> taken (turnports_init random (ipp_start tp) (ipp_end tp)) q"
    using pool_ok_init(2) [OF assms(3,4), of random] by (auto simp: taken_ports_def)
  moreover have "pool_at tp tr' a = None" if "same_pool tr b tr' a" "pool_at tp tr b = None"
  proof -
    have "get_map tp tr' = get_map tp tr" "addr_eq (Some (addr_set_port b 0)) (Some (addr_set_port a 0))"
      using that(1) get_map_cong [of tr' tr] addr_eq_zero_port [OF assms(2,7)] by (simp_all add: same_pool_def)
    then show ?thesis using that(2) ur_addr_map_get_eq [OF ipports_okD(1) [OF assms(1)]] by (simp add: pool_at_def)
  qed
  ultimately show ?thesis by (auto simp: is_allocated_pool_at l)
qed

text \<open>The state before any backend address is known.\<close>

lemma ipports_ok_create: "ipports_ok (turnipports_create start stop)"
proof -
  have "ur_addr_map_get ur_addr_map_init k = None" for k
  proof -
    have "elems (bucket ur_addr_map_init k) = elems addr_list_zero"
      using addr_map_index_less [of k] by (simp add: ur_addr_map_init_def ur_addr_map_zero_def)
    then show ?thesis
      by (auto simp: ur_addr_map_get_elems [OF addr_map_ok_init] elems_get_None live_at_def elems_def addr_list_zero_def)
  qed
  moreover have "get_map (turnipports_create start stop) tr = ur_addr_map_init" for tr
    by (simp add: turnipports_create_def get_map_def)
  moreover have "pools (turnipports_create start stop) = []" by (simp add: turnipports_create_def)
  ultimately show ?thesis using addr_map_ok_init by (intro ipports_okI) simp_all
qed

section \<open>Properties\<close>

text \<open>\<^bold>\<open>C11\<close>: a relay port is never handed out twice on one backend address: an allocation on a well-formed state returns
  a port of the configured range that was not allocated there and is from now on, fails only when the whole range is in
  use, and changes the allocation of no other port, transport or address.\<close>

theorem ipports_allocate_exclusive:
  assumes "ipports_ok tp" "ip_addr b" "ipp_start tp \<le> ipp_end tp" "unat (ipp_end tp) - unat (ipp_start tp) < 43689"
    "Suc (length (pools tp)) < 2 ^ 63" "turnipports_allocate random tp tr (Some b) = (r, tp')" "ip_addr a"
  shows "ipports_ok tp' \<and>
    (if r = - 1 then \<forall>q \<in> {ipp_start tp..ipp_end tp}. turnipports_is_allocated tp tr (Some b) q
     else \<exists>port \<in> {ipp_start tp..ipp_end tp}. r = uint port \<and> \<not> turnipports_is_allocated tp tr (Some b) port) \<and>
    turnipports_is_allocated tp' tr' (Some a) q =
      (turnipports_is_allocated tp tr' (Some a) q \<or> same_pool tr b tr' a \<and> r = uint q)"
proof -
  obtain t tp1 where add: "turnipports_add random tp tr (Some b) = (t, tp1)" by fastforce
  note l = turnipports_add_laws [OF assms(1-5) add]
  note al = turnipports_add_allocated [OF assms(1-5) add]
  have m: "pool_at tp1 tr b = Some (pool_ref tp1 t)" using l(2) by (simp add: pool_at_def)
  let ?p = "pool_ref tp1 t"
  obtain p where p: "turnports_allocate ?p = (r, p)" "tp' = pool_store tp1 t p"
    using assms(6) add l(3) by (auto simp: turnipports_allocate_def split: prod.splits)
  have po: "pool_ok ?p" "range_start ?p = ipp_start tp" "range_stop ?p = ipp_end tp"
    using ipports_okD(5) [OF l(1) pool_at_mem [OF l(1) assms(2) m]] l(4,5) by simp_all
  have hp: "hi ?p + pool_need Allocate ?p \<le> pos_max" using po(1) tp_invD(2) by (simp add: pool_ok_def)
  have "pool_do Allocate ?p = (r, p)" using p(1) by simp
  note st = pool_step [OF po(1) hp this]
  have rg: "range_start p = ipp_start tp1" "range_stop p = ipp_end tp1"
    using allocate_range [of ?p] p(1) po(2,3) l(4,5) by simp_all
  note ps = pool_store_laws [OF l(1) assms(2) l(2) _ rg]
  have R: "range_ports ?p = {ipp_start tp..ipp_end tp}" using po(2,3) by (auto simp: range_ports_def in_range_def)
  have sb: "turnipports_is_allocated tp tr (Some b) q \<longleftrightarrow> q \<in> taken_ports ?p" for q
    using al [OF assms(2), of tr q] m by (simp add: is_allocated_pool_at taken_ports_def)
  have spec: "r = - 1 \<and> taken_ports ?p = {ipp_start tp..ipp_end tp} \<and> taken_ports p = taken_ports ?p \<or>
      (\<exists>port \<in> {ipp_start tp..ipp_end tp} - taken_ports ?p. r = uint port \<and> taken_ports p = insert port (taken_ports ?p))"
    using st by (simp add: R)
  have m1: "uint w \<noteq> - 1" for w :: u16 using uint_neq_m1 [of w] by simp
  have "q \<in> taken_ports p \<longleftrightarrow> q \<in> taken_ports ?p \<or> r = uint q" for q
    using spec
  proof (elim disjE bexE conjE)
    assume "r = - 1" "taken_ports p = taken_ports ?p"
    then show ?thesis using m1 [of q] by simp
  next
    fix port assume e: "r = uint port" "taken_ports p = insert port (taken_ports ?p)"
    show ?thesis unfolding e insert_iff uint_eq16 by (rule disj_commute)
  qed
  then have tk: "taken p q \<longleftrightarrow> taken ?p q \<or> r = uint q" for q by (simp add: taken_ports_def)
  have "turnipports_is_allocated tp' tr' (Some a) q =
      (turnipports_is_allocated tp tr' (Some a) q \<or> same_pool tr b tr' a \<and> r = uint q)"
  proof (cases "same_pool tr b tr' a")
    case True
    have "turnipports_is_allocated tp1 tr' (Some a) q = taken ?p q"
    proof -
      have "get_map tp1 tr' = get_map tp1 tr" "addr_eq (Some (addr_set_port b 0)) (Some (addr_set_port a 0))"
        using True get_map_cong [of tr' tr] addr_eq_zero_port [OF assms(2,7)] by (simp_all add: same_pool_def)
      then have "pool_at tp1 tr' a = pool_at tp1 tr b"
        using ur_addr_map_get_eq [OF ipports_okD(1) [OF l(1)]] by (simp add: pool_at_def)
      then show ?thesis using m by (simp add: is_allocated_pool_at)
    qed
    then show ?thesis using True ps(2) [OF _ assms(7)] st al [OF assms(7)] tk p(2) by (simp add: is_allocated_pool_at)
  next
    case False
    then show ?thesis using ps(2) [OF _ assms(7)] st al [OF assms(7), of tr' q] p(2) by (simp add: is_allocated_pool_at)
  qed
  moreover have "ipports_ok tp'" using ps(1) st p(2) by simp
  moreover have "if r = - 1 then \<forall>q \<in> {ipp_start tp..ipp_end tp}. turnipports_is_allocated tp tr (Some b) q
     else \<exists>port \<in> {ipp_start tp..ipp_end tp}. r = uint port \<and> \<not> turnipports_is_allocated tp tr (Some b) port"
    using spec m1 unfolding sb by auto
  ultimately show ?thesis by blast
qed

theorem ipports_allocate_exclusive_witness:
  "ipports_ok (turnipports_create 49152 49155) \<and>
   ipports_ok (snd (turnipports_allocate (\<lambda>n. 0) (turnipports_create 49152 49155) 17 (Some (v4 1 0))))"
proof -
  let ?tp = "turnipports_create 49152 49155"
  have b: "ip_addr (v4 1 0)" by (simp add: ip_addr_def v4_def)
  have f: "ipp_start ?tp = 49152" "ipp_end ?tp = 49155" "pools ?tp = []" by (simp_all add: turnipports_create_def)
  have h: "ipp_start ?tp \<le> ipp_end ?tp" "unat (ipp_end ?tp) - unat (ipp_start ?tp) < 43689"
    "Suc (length (pools ?tp)) < 2 ^ 63" unfolding f by simp_all
  obtain r tp' where al: "turnipports_allocate (\<lambda>n. 0) ?tp 17 (Some (v4 1 0)) = (r, tp')" by fastforce
  show ?thesis using ipports_allocate_exclusive [OF ipports_ok_create b h al b, of 17 0] ipports_ok_create unfolding al
    by simp
qed

end
