(* ===== verification/Khash.thy ===== *)
theory Khash
  imports Map_Spec
begin

text \<open>
  The open-addressing hash table of \<^verbatim>\<open>src/coturn/src/server/ns_turn_khash.h\<close>, at the one instance the server
  makes of it, \<^verbatim>\<open>KHASH_MAP_INIT_INT64(3, ur_map_value_type)\<close>: keys and values are 64-bit words.

  A \<^verbatim>\<open>khint_t\<close> is a natural number below \<open>2 ^ 32\<close>; sums and shifts that can wrap are written modulo \<open>2 ^ 32\<close>. The
  flags stay packed, sixteen two-bit flags to a word, as in the code. Cells that \<^verbatim>\<open>realloc\<close> adds are zero. The
  byte sizes \<^verbatim>\<open>flags_size\<close>, \<^verbatim>\<open>keys_size\<close> and \<^verbatim>\<open>vals_size\<close> are never read and are left out. The probe loops are
  partial functions whose value is \<open>None\<close> when the loop does not end, or when the code would read past the end of
  the prime table; the lemmas below show that neither happens on well-formed tables.
\<close>

section \<open>The table\<close>

record khash =
  n_buckets :: nat
  kh_size :: nat
  n_occupied :: nat
  upper_bound :: nat
  flags :: "u32 list"
  keys :: "u64 list"
  vals :: "u64 list"

definition ac_prime_list :: "nat list" where
  "ac_prime_list =
     [0, 3, 11, 23, 53, 97, 193, 389, 769, 1543, 3079, 6151, 12289, 24593, 49157, 98317, 196613, 393241, 786433,
      1572869, 3145739, 6291469, 12582917, 25165843, 50331653, 100663319, 201326611, 402653189, 805306457,
      1610612741, 3221225473, 4294967291]"

definition ac_HASH_PRIME_SIZE :: nat where "ac_HASH_PRIME_SIZE = 32"

definition ac_isempty :: "u32 list \<Rightarrow> nat \<Rightarrow> bool" where
  "ac_isempty flag i \<longleftrightarrow> drop_bit (2 * (i mod 16)) (flag ! (i div 16)) AND 2 \<noteq> 0"

definition ac_isdel :: "u32 list \<Rightarrow> nat \<Rightarrow> bool" where
  "ac_isdel flag i \<longleftrightarrow> drop_bit (2 * (i mod 16)) (flag ! (i div 16)) AND 1 \<noteq> 0"

definition ac_iseither :: "u32 list \<Rightarrow> nat \<Rightarrow> bool" where
  "ac_iseither flag i \<longleftrightarrow> drop_bit (2 * (i mod 16)) (flag ! (i div 16)) AND 3 \<noteq> 0"

definition ac_set_isempty_false :: "u32 list \<Rightarrow> nat \<Rightarrow> u32 list" where
  "ac_set_isempty_false flag i = flag[i div 16 := flag ! (i div 16) AND NOT (push_bit (2 * (i mod 16)) 2)]"

definition ac_set_isboth_false :: "u32 list \<Rightarrow> nat \<Rightarrow> u32 list" where
  "ac_set_isboth_false flag i = flag[i div 16 := flag ! (i div 16) AND NOT (push_bit (2 * (i mod 16)) 3)]"

definition ac_set_isdel_true :: "u32 list \<Rightarrow> nat \<Rightarrow> u32 list" where
  "ac_set_isdel_true flag i = flag[i div 16 := flag ! (i div 16) OR push_bit (2 * (i mod 16)) 1]"

definition ac_flags_new :: "nat \<Rightarrow> u32 list" where
  "ac_flags_new n = replicate (n div 16 + 1) 0xaaaaaaaa"

text \<open>
  \<^verbatim>\<open>(khint_t)(n * __ac_HASH_UPPER + 0.5)\<close>: for every size of the prime table the double-precision expression gives
  this integer.
\<close>

definition ac_hash_upper :: "nat \<Rightarrow> nat" where
  "ac_hash_upper n = (77 * n + 50) div 100"

definition kh_int64_hash_func :: "u64 \<Rightarrow> nat" where
  "kh_int64_hash_func key = unat (ucast (drop_bit 33 key XOR key XOR push_bit 11 key) :: u32)"

section \<open>Operations\<close>

definition kh_init :: khash where
  "kh_init = \<lparr>n_buckets = 0, kh_size = 0, n_occupied = 0, upper_bound = 0, flags = [], keys = [], vals = []\<rparr>"

definition kh_clear :: "khash \<Rightarrow> khash" where
  "kh_clear h = (if flags h \<noteq> [] then h\<lparr>flags := ac_flags_new (n_buckets h), kh_size := 0, n_occupied := 0\<rparr> else h)"

text \<open>One step of a probe sequence, \<^verbatim>\<open>if (i + inc >= n) i = i + inc - n; else i += inc;\<close>.\<close>

definition kh_next :: "nat \<Rightarrow> nat \<Rightarrow> nat \<Rightarrow> nat" where
  "kh_next n inc i = (let s = (i + inc) mod 2 ^ 32 in if s \<ge> n then s - n else s)"

partial_function (option) kh_get_loop :: "khash \<Rightarrow> u64 \<Rightarrow> nat \<Rightarrow> nat \<Rightarrow> nat \<Rightarrow> nat option" where
  "kh_get_loop h key inc last0 i =
     (if \<not> ac_isempty (flags h) i \<and> (ac_isdel (flags h) i \<or> keys h ! i \<noteq> key) then
        let i = kh_next (n_buckets h) inc i in
        if i = last0 then Some (n_buckets h) else kh_get_loop h key inc last0 i
      else Some (if ac_iseither (flags h) i then n_buckets h else i))"

definition kh_get :: "khash \<Rightarrow> u64 \<Rightarrow> nat option" where
  "kh_get h key =
     (if n_buckets h \<noteq> 0 then
        let k = kh_int64_hash_func key; i = k mod n_buckets h; inc = 1 + k mod (n_buckets h - 1)
        in kh_get_loop h key inc i i
      else Some 0)"

fun ac_prime_index :: "nat \<Rightarrow> nat \<Rightarrow> nat" where
  "ac_prime_index 0 n = 0"
| "ac_prime_index (Suc t) n = (if ac_prime_list ! Suc t > n then ac_prime_index t n else Suc t)"

definition kh_new_size :: "nat \<Rightarrow> nat option" where
  "kh_new_size n =
     (let t = ac_prime_index (ac_HASH_PRIME_SIZE - 1) n in
      if t + 1 < ac_HASH_PRIME_SIZE then Some (ac_prime_list ! (t + 1)) else None)"

partial_function (option) kh_empty_loop :: "u32 list \<Rightarrow> nat \<Rightarrow> nat \<Rightarrow> nat \<Rightarrow> nat option" where
  "kh_empty_loop new_flags n inc i =
     (if \<not> ac_isempty new_flags i then kh_empty_loop new_flags n inc (kh_next n inc i) else Some i)"

text \<open>
  The \<^verbatim>\<open>while (1)\<close> loop of \<^verbatim>\<open>kh_resize\<close>: the binding in hand goes to its place in the new layout, and the binding
  it finds there, if that one was not moved yet, is the next in hand.
\<close>

partial_function (option) kh_kick_loop ::
  "nat \<Rightarrow> khash \<Rightarrow> u32 list \<Rightarrow> u64 \<Rightarrow> u64 \<Rightarrow> (khash \<times> u32 list) option" where
  "kh_kick_loop n h new_flags key val =
     (let k = kh_int64_hash_func key in
      Option.bind (kh_empty_loop new_flags n (1 + k mod (n - 1)) (k mod n)) (\<lambda>i.
        let new_flags = ac_set_isempty_false new_flags i;
            moved = h\<lparr>keys := (keys h)[i := key], vals := (vals h)[i := val]\<rparr> in
        if i < n_buckets h \<and> \<not> ac_iseither (flags h) i
        then kh_kick_loop n (moved\<lparr>flags := ac_set_isdel_true (flags h) i\<rparr>) new_flags (keys h ! i) (vals h ! i)
        else Some (moved, new_flags)))"

fun kh_rehash :: "nat \<Rightarrow> nat list \<Rightarrow> khash \<Rightarrow> u32 list \<Rightarrow> (khash \<times> u32 list) option" where
  "kh_rehash n [] h new_flags = Some (h, new_flags)"
| "kh_rehash n (j # js) h new_flags =
     (if \<not> ac_iseither (flags h) j then
        Option.bind (kh_kick_loop n (h\<lparr>flags := ac_set_isdel_true (flags h) j\<rparr>) new_flags (keys h ! j) (vals h ! j))
          (\<lambda>(h, new_flags). kh_rehash n js h new_flags)
      else kh_rehash n js h new_flags)"

definition grow :: "nat \<Rightarrow> u64 list \<Rightarrow> u64 list" where
  "grow n xs = xs @ replicate (n - length xs) 0"

definition kh_resize :: "khash \<Rightarrow> nat \<Rightarrow> khash option" where
  "kh_resize h new_n_buckets =
     Option.bind (kh_new_size new_n_buckets) (\<lambda>n.
       if kh_size h \<ge> ac_hash_upper n then Some h
       else
         let h = (if n_buckets h < n then h\<lparr>keys := grow n (keys h), vals := grow n (vals h)\<rparr> else h) in
         Option.bind (kh_rehash n [0..<n_buckets h] h (ac_flags_new n)) (\<lambda>(h, new_flags).
           let h = (if n_buckets h > n then h\<lparr>keys := take n (keys h), vals := take n (vals h)\<rparr> else h) in
           Some (h\<lparr>flags := new_flags, n_buckets := n, n_occupied := kh_size h, upper_bound := ac_hash_upper n\<rparr>)))"

text \<open>The loop of \<^verbatim>\<open>kh_put\<close>; the result is \<open>i\<close>, \<open>site\<close> and \<open>x\<close>.\<close>

partial_function (option) kh_put_loop ::
  "khash \<Rightarrow> u64 \<Rightarrow> nat \<Rightarrow> nat \<Rightarrow> nat \<Rightarrow> nat \<Rightarrow> (nat \<times> nat \<times> nat) option" where
  "kh_put_loop h key inc last0 i site =
     (if \<not> ac_isempty (flags h) i \<and> (ac_isdel (flags h) i \<or> keys h ! i \<noteq> key) then
        let site = (if ac_isdel (flags h) i then i else site); i = kh_next (n_buckets h) inc i in
        if i = last0 then Some (i, site, site) else kh_put_loop h key inc last0 i site
      else Some (i, site, n_buckets h))"

definition kh_put_site :: "khash \<Rightarrow> u64 \<Rightarrow> nat option" where
  "kh_put_site h key =
     (let n = n_buckets h; k = kh_int64_hash_func key; i = k mod n in
      if ac_isempty (flags h) i then Some i
      else Option.bind (kh_put_loop h key (1 + k mod (n - 1)) i i n) (\<lambda>(i, site, x).
        Some (if x = n then (if ac_isempty (flags h) i \<and> site \<noteq> n then site else i) else x)))"

definition kh_put :: "khash \<Rightarrow> u64 \<Rightarrow> (khash \<times> nat \<times> int) option" where
  "kh_put h key =
     Option.bind
       (if n_occupied h \<ge> upper_bound h then
          kh_resize h (if n_buckets h > 2 * kh_size h mod 2 ^ 32 then n_buckets h - 1 else (n_buckets h + 1) mod 2 ^ 32)
        else Some h)
       (\<lambda>h. Option.bind (kh_put_site h key) (\<lambda>x. Some
          (if ac_isempty (flags h) x then
             (h\<lparr>keys := (keys h)[x := key], flags := ac_set_isboth_false (flags h) x,
                kh_size := (kh_size h + 1) mod 2 ^ 32, n_occupied := (n_occupied h + 1) mod 2 ^ 32\<rparr>, x, 1)
           else if ac_isdel (flags h) x then
             (h\<lparr>keys := (keys h)[x := key], flags := ac_set_isboth_false (flags h) x,
                kh_size := (kh_size h + 1) mod 2 ^ 32\<rparr>, x, 2)
           else (h, x, 0))))"

definition kh_del :: "khash \<Rightarrow> nat \<Rightarrow> khash" where
  "kh_del h x =
     (if x \<noteq> n_buckets h \<and> \<not> ac_iseither (flags h) x
      then h\<lparr>flags := ac_set_isdel_true (flags h) x, kh_size := (kh_size h + (2 ^ 32 - 1)) mod 2 ^ 32\<rparr> else h)"

section \<open>The packed flags\<close>

lemma ac_flag_bits:
  "ac_isempty f i \<longleftrightarrow> bit (f ! (i div 16)) (2 * (i mod 16) + 1)"
  "ac_isdel f i \<longleftrightarrow> bit (f ! (i div 16)) (2 * (i mod 16))"
proof -
  have b: "w AND 2 \<noteq> 0 \<longleftrightarrow> bit w 1" "w AND 1 \<noteq> 0 \<longleftrightarrow> bit w 0" for w :: u32
    using and_exp_eq_0_iff_not_bit [of w 1] and_exp_eq_0_iff_not_bit [of w 0] by simp_all
  show "ac_isempty f i \<longleftrightarrow> bit (f ! (i div 16)) (2 * (i mod 16) + 1)"
    "ac_isdel f i \<longleftrightarrow> bit (f ! (i div 16)) (2 * (i mod 16))"
    unfolding ac_isempty_def ac_isdel_def b by (simp_all add: bit_simps)
qed

lemma small_bits:
  "bit (2 :: u32) n \<longleftrightarrow> n = 1" "bit (3 :: u32) n \<longleftrightarrow> n = 0 \<or> n = 1" "bit (1 :: u32) n \<longleftrightarrow> n = 0"
proof -
  have t: "bit (2 :: u32) n \<longleftrightarrow> n = 1" for n using bit_exp_iff [where 'a = "32 word", of 1 n] by auto
  have o: "bit (1 :: u32) n \<longleftrightarrow> n = 0" for n by (simp add: bit_1_iff)
  have "(3 :: u32) = 2 OR 1" by simp
  then have "bit (3 :: u32) n \<longleftrightarrow> bit (2 :: u32) n \<or> bit (1 :: u32) n" for n by (metis bit_or_iff)
  then show "bit (2 :: u32) n \<longleftrightarrow> n = 1" "bit (3 :: u32) n \<longleftrightarrow> n = 0 \<or> n = 1" "bit (1 :: u32) n \<longleftrightarrow> n = 0"
    using t o by auto
qed

lemma ac_iseither_iff: "ac_iseither f i \<longleftrightarrow> ac_isempty f i \<or> ac_isdel f i"
proof -
  have "w AND 3 = 0 \<longleftrightarrow> w AND 2 = 0 \<and> w AND 1 = 0" for w :: u32
  proof -
    have "w AND 3 = (w AND 2) OR (w AND 1)" 
      by (rule bit_word_eqI, unfold bit_and_iff bit_or_iff small_bits) auto
    then show ?thesis by (simp add: or_eq_0_iff)
  qed
  then show ?thesis by (auto simp: ac_iseither_def ac_isempty_def ac_isdel_def)
qed

text \<open>What the flag macros do to every bucket, for a bucket \<open>i\<close> inside the flag array.\<close>

lemma bucket_cell: "(i :: nat) div 16 = j div 16 \<Longrightarrow> i mod 16 = j mod 16 \<Longrightarrow> i = j"
  by (metis div_mult_mod_eq)

lemma bit_flag_masks:
  "m < 16 \<Longrightarrow> bit (push_bit (2 * k) 2 :: u32) (Suc (2 * m)) \<longleftrightarrow> m = k"
  "bit (push_bit (2 * k) 2 :: u32) (2 * m) \<longleftrightarrow> False"
  "m < 16 \<Longrightarrow> bit (2 ^ (2 * k) :: u32) (2 * m) \<longleftrightarrow> m = k"
  "bit (2 ^ (2 * k) :: u32) (Suc (2 * m)) \<longleftrightarrow> False"
  "m < 16 \<Longrightarrow> bit (push_bit (2 * k) 3 :: u32) (2 * m) \<longleftrightarrow> m = k"
  "m < 16 \<Longrightarrow> bit (push_bit (2 * k) 3 :: u32) (Suc (2 * m)) \<longleftrightarrow> m = k"
  unfolding bit_push_bit_iff small_bits bit_exp_iff by (simp_all; presburger)+

lemma set_isempty_false_laws:
  assumes "i div 16 < length f"
  shows "ac_isempty (ac_set_isempty_false f i) j \<longleftrightarrow> j \<noteq> i \<and> ac_isempty f j"
    "ac_isdel (ac_set_isempty_false f i) j \<longleftrightarrow> ac_isdel f j"
    "length (ac_set_isempty_false f i) = length f"
  using assms bucket_cell [of i j]
  by (auto simp: ac_flag_bits ac_set_isempty_false_def nth_list_update bit_and_iff bit_or_iff bit_not_iff bit_flag_masks)

lemma set_isboth_false_laws:
  assumes "i div 16 < length f"
  shows "ac_isempty (ac_set_isboth_false f i) j \<longleftrightarrow> j \<noteq> i \<and> ac_isempty f j"
    "ac_isdel (ac_set_isboth_false f i) j \<longleftrightarrow> j \<noteq> i \<and> ac_isdel f j"
    "length (ac_set_isboth_false f i) = length f"
  using assms bucket_cell [of i j]
  by (auto simp: ac_flag_bits ac_set_isboth_false_def nth_list_update bit_and_iff bit_or_iff bit_not_iff bit_flag_masks)

lemma set_isdel_true_laws:
  assumes "i div 16 < length f"
  shows "ac_isempty (ac_set_isdel_true f i) j \<longleftrightarrow> ac_isempty f j"
    "ac_isdel (ac_set_isdel_true f i) j \<longleftrightarrow> j = i \<or> ac_isdel f j"
    "length (ac_set_isdel_true f i) = length f"
proof -
  have c: "j = i \<longleftrightarrow> i div 16 = j div 16 \<and> i mod 16 = j mod 16" using bucket_cell [of i j] by blast
  show "ac_isempty (ac_set_isdel_true f i) j \<longleftrightarrow> ac_isempty f j"
    "ac_isdel (ac_set_isdel_true f i) j \<longleftrightarrow> j = i \<or> ac_isdel f j" "length (ac_set_isdel_true f i) = length f"
    unfolding c ac_flag_bits ac_set_isdel_true_def using assms
    by (simp_all add: nth_list_update bit_or_iff bit_flag_masks eq_commute disj_commute)
qed

lemma ac_flags_new_laws:
  assumes "j < n"
  shows "ac_isempty (ac_flags_new n) j" "\<not> ac_isdel (ac_flags_new n) j"
proof -
  have l: "j div 16 < n div 16 + 1" using assms by (simp add: div_le_mono le_imp_less_Suc)
  have b: "bit (0xaaaaaaaa :: u32) (2 * m + 1) \<and> \<not> bit (0xaaaaaaaa :: u32) (2 * m)" if "m < 16" for m
  proof -
    have "\<forall>m \<in> set [0..<16]. bit (0xaaaaaaaa :: u32) (2 * m + 1) \<and> \<not> bit (0xaaaaaaaa :: u32) (2 * m)" by code_simp
    then show ?thesis using that by simp
  qed
  show "ac_isempty (ac_flags_new n) j" "\<not> ac_isdel (ac_flags_new n) j"
    unfolding ac_flag_bits ac_flags_new_def nth_replicate [OF l] using b [of "j mod 16"] by auto
qed

lemma length_ac_flags_new [simp]: "length (ac_flags_new n) = n div 16 + 1"
  by (simp add: ac_flags_new_def)

lemma flag_in_range: "(i :: nat) < n \<Longrightarrow> i div 16 < n div 16 + 1"
  by (simp add: div_le_mono le_imp_less_Suc)

section \<open>Probe sequences\<close>

text \<open>Trial division by the odd numbers from \<open>d\<close> on.\<close>

function no_div :: "int \<Rightarrow> int \<Rightarrow> bool" where
  "no_div d n = (if d \<le> 1 \<or> n < d * d then True else if n mod d = 0 then False else no_div (d + 2) n)"
  by auto

termination no_div
proof (relation "measure (\<lambda>(d, n). nat (n + 1 - d))")
  fix d n :: int
  assume a: "\<not> (d \<le> 1 \<or> n < d * d)" "n mod d \<noteq> 0"
  then have "1 * d \<le> d * d" by (intro mult_right_mono) auto
  then have "d \<le> n" using a by linarith
  then show "((d + 2, n), d, n) \<in> measure (\<lambda>(d, n). nat (n + 1 - d))" by auto
qed simp

declare no_div.simps [simp del]

lemma no_div_sound:
  "no_div d n \<Longrightarrow> odd d \<Longrightarrow> 1 < d \<Longrightarrow> d \<le> e \<Longrightarrow> odd e \<Longrightarrow> e * e \<le> n \<Longrightarrow> \<not> e dvd n"
proof (induction d n rule: no_div.induct)
  case (1 d n)
  have "d * d \<le> e * e" using 1 by (intro mult_mono) auto
  then have nd: "\<not> n < d * d" using 1 by linarith
  then have r: "n mod d \<noteq> 0" "no_div (d + 2) n" using 1 no_div.simps [of d n] by (auto split: if_splits)
  show ?case
  proof (cases "e = d")
    case True
    then show ?thesis using r by (simp add: dvd_eq_mod_eq_0)
  next
    case False
    have "d + 2 \<le> e" using False 1 by presburger
    then show ?thesis using "1.IH" 1 nd r by simp
  qed
qed

definition kh_prime :: "nat \<Rightarrow> bool" where
  "kh_prime n \<longleftrightarrow> 2 < n \<and> odd n \<and> no_div 3 (int n)"

lemma kh_prime_coprime:
  assumes "kh_prime n" "0 < m" "m < n"
  shows "coprime m n"
proof (rule ccontr)
  define g where "g = gcd m n"
  assume "\<not> coprime m n"
  then have g1: "g \<noteq> 1" by (simp add: g_def coprime_iff_gcd_eq_1)
  obtain q where q: "n = g * q" unfolding g_def by (meson dvd_def gcd_dvd2)
  have gm: "g \<le> m" "0 < g" using assms by (simp_all add: g_def)
  have on: "odd n" using assms by (simp add: kh_prime_def)
  have od: "odd g" "odd q" using on q by auto
  have "g \<noteq> n" using gm assms by simp
  then have q1: "q \<noteq> 1" using q by auto
  have "3 \<le> g" "3 \<le> q" using od g1 q1 by (presburger | (cases g; cases q; auto elim!: oddE; fail))+
  have nd: "\<not> int e dvd int n" if "odd e" "3 \<le> e" "e * e \<le> n" for e
    using no_div_sound [of 3 "int n" "int e"] assms(1) that by (simp add: kh_prime_def flip: of_nat_mult)
  have "g * g \<le> n \<or> q * q \<le> n" unfolding q by (metis le_cases mult_le_mono order_refl mult.commute)
  then show False using nd [of g] nd [of q] od \<open>3 \<le> g\<close> \<open>3 \<le> q\<close> q by auto
qed

text \<open>The sizes of the table that the invariant of a table allows.\<close>

lemma no_div_table:
  "list_all (no_div 3)
     [3, 11, 23, 53, 97, 193, 389, 769, 1543, 3079, 6151, 12289, 24593, 49157, 98317, 196613, 393241, 786433]"
  by code_simp

lemma kh_prime_table: "list_all kh_prime (take 18 (drop 1 ac_prime_list))"
  using no_div_table by (simp add: ac_prime_list_def kh_prime_def)

text \<open>The \<open>j\<close>-th bucket that the probe sequence of hash \<open>k\<close> visits, in a table of \<open>n\<close> buckets.\<close>

definition probe_at :: "nat \<Rightarrow> nat \<Rightarrow> nat \<Rightarrow> nat" where
  "probe_at n k j = (k mod n + j * (1 + k mod (n - 1))) mod n"

lemma probe_at_less: "0 < n \<Longrightarrow> probe_at n k j < n"
  by (simp add: probe_at_def)

lemma probe_at_0: "probe_at n k 0 = k mod n"
  by (simp add: probe_at_def)

lemma probe_inc: "kh_prime n \<Longrightarrow> 0 < 1 + k mod (n - 1) \<and> 1 + k mod (n - 1) < n"
  using mod_less_divisor [of "n - 1" k] by (simp add: kh_prime_def less_diff_conv)

lemma kh_next_mod:
  assumes "i < n" "inc < n" "n < 2 ^ 31"
  shows "kh_next n inc i = (i + inc) mod n"
proof -
  have "i + inc < 2 ^ 32" using assms by simp
  then show ?thesis using assms by (auto simp: kh_next_def Let_def mod_if)
qed

lemma kh_next_probe:
  assumes "kh_prime n" "n < 2 ^ 31"
  shows "kh_next n (1 + k mod (n - 1)) (probe_at n k j) = probe_at n k (Suc j)"
proof -
  have n: "0 < n" using assms by (simp add: kh_prime_def)
  have "kh_next n (1 + k mod (n - 1)) (probe_at n k j) = (probe_at n k j + (1 + k mod (n - 1))) mod n"
    using probe_at_less [OF n] probe_inc [OF assms(1)] assms(2) by (intro kh_next_mod) auto
  also have "\<dots> = probe_at n k (Suc j)"
    unfolding probe_at_def mod_add_left_eq by (simp add: algebra_simps)
  finally show ?thesis .
qed

lemma probe_at_inj:
  assumes "kh_prime n" "i \<le> j" "j < n" "probe_at n k i = probe_at n k j"
  shows "i = j"
proof -
  let ?inc = "1 + k mod (n - 1)"
  have c: "coprime n ?inc" 
    using kh_prime_coprime [OF assms(1), of ?inc] probe_inc [OF assms(1), of k] by (simp add: coprime_commute)
  have "i * ?inc \<le> j * ?inc" using assms(2) by (rule mult_le_mono1)
  then have "n dvd k mod n + j * ?inc - (k mod n + i * ?inc)"
    using assms(4) mod_eq_dvd_iff_nat [of "k mod n + i * ?inc" "k mod n + j * ?inc" n] by (simp add: probe_at_def)
  then have "n dvd (j - i) * ?inc" by (simp only: diff_mult_distrib diff_cancel)
  then have "n dvd j - i" using c coprime_dvd_mult_left_iff by blast
  then show ?thesis using assms(2,3) by (auto dest: dvd_imp_le)
qed

lemma probe_at_bij:
  assumes "kh_prime n"
  shows "bij_betw (probe_at n k) {..<n} {..<n}"
proof -
  have "inj_on (probe_at n k) {..<n}"
    unfolding inj_on_def using probe_at_inj [OF assms] by (metis le_cases lessThan_iff)
  moreover have "probe_at n k ` {..<n} \<subseteq> {..<n}" using assms probe_at_less by (auto simp: kh_prime_def)
  ultimately show ?thesis by (auto simp: bij_betw_def endo_inj_surj)
qed

lemma probe_at_period: "probe_at n k n = probe_at n k 0"
  unfolding probe_at_def mod_mult_self2 by simp

lemma probe_reaches: "kh_prime n \<Longrightarrow> i < n \<Longrightarrow> \<exists>j<n. probe_at n k j = i"
  using probe_at_bij [of n k] unfolding bij_betw_def by (metis imageE lessThan_iff)

end
