(* ===== verification/Khash_Laws.thy ===== *)
theory Khash_Laws
  imports Khash
begin

text \<open>
  Correctness of the hash table of \<^verbatim>\<open>src/coturn/src/server/ns_turn_khash.h\<close>: the invariant of a table, that every
  probe loop ends and finds the bucket of a key, and that insertion, deletion and the in-place rehash of
  \<^verbatim>\<open>kh_resize\<close> keep the invariant and the bindings.
\<close>

section \<open>The invariant\<close>

definition kh_occ :: "nat \<Rightarrow> u32 list \<Rightarrow> nat set" where
  "kh_occ n f = {i. i < n \<and> \<not> ac_isempty f i}"

definition kh_live :: "nat \<Rightarrow> u32 list \<Rightarrow> nat set" where
  "kh_live n f = {i. i < n \<and> \<not> ac_isempty f i \<and> \<not> ac_isdel f i}"

text \<open>Bucket \<open>i\<close> is on the probe sequence of the key, and no bucket before it is empty.\<close>

definition kh_chain :: "nat \<Rightarrow> u32 list \<Rightarrow> u64 \<Rightarrow> nat \<Rightarrow> bool" where
  "kh_chain n f key i \<longleftrightarrow>
     (\<exists>j<n. probe_at n (kh_int64_hash_func key) j = i \<and>
        (\<forall>j'<j. \<not> ac_isempty f (probe_at n (kh_int64_hash_func key) j')))"

definition kh_binding :: "khash \<Rightarrow> nat \<Rightarrow> u64 \<times> u64" where
  "kh_binding h i = (keys h ! i, vals h ! i)"

definition kh_bindings :: "khash \<Rightarrow> (u64 \<times> u64) set" where
  "kh_bindings h = kh_binding h ` kh_live (n_buckets h) (flags h)"

text \<open>The largest table of the invariant has 786433 buckets; 393217 bindings always fit.\<close>

definition KH_TABLES :: nat where "KH_TABLES = 19"
definition KH_CAP :: nat where "KH_CAP = 393217"

definition kh_table :: "khash \<Rightarrow> bool" where
  "kh_table h \<longleftrightarrow>
     length (keys h) = n_buckets h \<and> length (vals h) = n_buckets h \<and>
     length (flags h) = (if n_buckets h = 0 then 0 else n_buckets h div 16 + 1) \<and>
     kh_size h = card (kh_live (n_buckets h) (flags h)) \<and> n_occupied h = card (kh_occ (n_buckets h) (flags h)) \<and>
     upper_bound h = ac_hash_upper (n_buckets h) \<and> n_occupied h \<le> upper_bound h \<and>
     inj_on ((!) (keys h)) (kh_live (n_buckets h) (flags h)) \<and>
     (\<forall>i \<in> kh_live (n_buckets h) (flags h). kh_chain (n_buckets h) (flags h) (keys h ! i) i)"

definition kh_inv :: "khash \<Rightarrow> bool" where
  "kh_inv h \<longleftrightarrow> n_buckets h \<in> set (take KH_TABLES ac_prime_list) \<and> kh_table h"

lemma kh_tables: "take KH_TABLES ac_prime_list = 0 # take 18 (drop 1 ac_prime_list)"
  by (simp add: KH_TABLES_def ac_prime_list_def)

lemma kh_table_sizes:
  assumes "n \<in> set (take KH_TABLES ac_prime_list)"
  shows "n \<noteq> 0 \<Longrightarrow> kh_prime n" "n < 2 ^ 31"
proof -
  show "n \<noteq> 0 \<Longrightarrow> kh_prime n"
    using kh_prime_table assms by (simp add: kh_tables list_all_iff del: take_Suc_Cons)
  have "list_all (\<lambda>n. n < 2 ^ 31) (take KH_TABLES ac_prime_list)" by (simp add: KH_TABLES_def ac_prime_list_def)
  then show "n < 2 ^ 31" using assms unfolding list_all_iff by blast
qed

lemma kh_inv_prime: "kh_inv h \<Longrightarrow> n_buckets h \<noteq> 0 \<Longrightarrow> kh_prime (n_buckets h)"
  unfolding kh_inv_def using kh_table_sizes by blast

lemma kh_inv_small: "kh_inv h \<Longrightarrow> n_buckets h < 2 ^ 31"
  unfolding kh_inv_def using kh_table_sizes by blast

lemma kh_sets_finite [simp]: "finite (kh_occ n f)" "finite (kh_live n f)"
  by (simp_all add: kh_occ_def kh_live_def)

lemma kh_live_occ: "kh_live n f \<subseteq> kh_occ n f"
  by (auto simp: kh_live_def kh_occ_def)

lemma kh_size_le_occupied: "kh_table h \<Longrightarrow> kh_size h \<le> n_occupied h"
  by (simp add: kh_table_def card_mono kh_live_occ)

lemma ac_hash_upper_less: "2 < n \<Longrightarrow> ac_hash_upper n < n"
  by (simp add: ac_hash_upper_def)

lemma kh_chain_mono:
  "kh_chain n f key i \<Longrightarrow> (\<And>j. j < n \<Longrightarrow> ac_isempty g j \<Longrightarrow> ac_isempty f j) \<Longrightarrow> kh_chain n g key i"
  unfolding kh_chain_def using probe_at_less [of n] by (metis gr0I not_less0)

lemma kh_inv_init: "kh_inv kh_init"
  by (simp add: kh_inv_def kh_table_def kh_init_def kh_tables kh_live_def kh_occ_def ac_hash_upper_def)

lemma kh_bindings_init [simp]: "kh_bindings kh_init = {}"
  by (simp add: kh_bindings_def kh_live_def kh_init_def)

text \<open>A table that is not full has an empty bucket on every probe sequence.\<close>

lemma kh_first_empty:
  assumes "kh_prime n" "card (kh_occ n f) < n"
  obtains j where "j < n" "ac_isempty f (probe_at n k j)" "\<And>j'. j' < j \<Longrightarrow> \<not> ac_isempty f (probe_at n k j')"
proof -
  have "\<not> {..<n} \<subseteq> kh_occ n f" using card_mono [of "kh_occ n f" "{..<n}"] assms(2) by auto
  then obtain i where "i < n" "ac_isempty f i" unfolding kh_occ_def by blast
  then have e: "\<exists>j. j < n \<and> ac_isempty f (probe_at n k j)" using probe_reaches [OF assms(1), of i k] by blast
  define j where "j = (LEAST j. j < n \<and> ac_isempty f (probe_at n k j))"
  have "j < n" "ac_isempty f (probe_at n k j)" using LeastI_ex [OF e] by (simp_all add: j_def)
  moreover have "\<not> ac_isempty f (probe_at n k j')" if "j' < j" for j'
    using not_less_Least [of j' "\<lambda>j. j < n \<and> ac_isempty f (probe_at n k j)"] that \<open>j < n\<close> by (simp add: j_def)
  ultimately show ?thesis using that by blast
qed

section \<open>The probe loops end\<close>

lemma probe_not_start:
  "kh_prime n \<Longrightarrow> 0 < j \<Longrightarrow> j < n \<Longrightarrow> probe_at n k j \<noteq> probe_at n k 0"
  using probe_at_inj [of n 0 j k] by auto

text \<open>Bucket \<open>i\<close> ends a search for the key: it is empty, or it holds the key.\<close>

definition kh_stop :: "khash \<Rightarrow> u64 \<Rightarrow> nat \<Rightarrow> bool" where
  "kh_stop h key i \<longleftrightarrow> ac_isempty (flags h) i \<or> \<not> ac_isdel (flags h) i \<and> keys h ! i = key"

lemma kh_get_loop_run:
  assumes "kh_prime (n_buckets h)" "n_buckets h < 2 ^ 31" "j \<le> J" "J < n_buckets h"
    "kh_stop h key (probe_at (n_buckets h) k J)"
    "\<And>j'. j' < J \<Longrightarrow> \<not> kh_stop h key (probe_at (n_buckets h) k j')"
  shows "kh_get_loop h key (1 + k mod (n_buckets h - 1)) (probe_at (n_buckets h) k 0) (probe_at (n_buckets h) k j) =
    Some (if ac_iseither (flags h) (probe_at (n_buckets h) k J) then n_buckets h else probe_at (n_buckets h) k J)"
  using assms(3)
proof (induction "J - j" arbitrary: j)
  case 0
  then have "j = J" by simp
  then show ?case using assms(5) by (subst kh_get_loop.simps) (auto simp: kh_stop_def)
next
  case (Suc d)
  then have j: "j < J" by simp
  have IH: "kh_get_loop h key (1 + k mod (n_buckets h - 1)) (probe_at (n_buckets h) k 0) (probe_at (n_buckets h) k (Suc j)) =
    Some (if ac_iseither (flags h) (probe_at (n_buckets h) k J) then n_buckets h else probe_at (n_buckets h) k J)"
    using Suc j by simp
  have "\<not> kh_stop h key (probe_at (n_buckets h) k j)" using assms(6) [OF j] .
  then show ?case
    using probe_not_start [OF assms(1), of "Suc j" k] j assms(4) IH kh_next_probe [OF assms(1,2), of k j]
    by (subst kh_get_loop.simps) (auto simp: kh_stop_def Let_def)
qed

lemma kh_put_loop_run:
  assumes "kh_prime (n_buckets h)" "n_buckets h < 2 ^ 31" "j \<le> J" "J < n_buckets h"
    "kh_stop h key (probe_at (n_buckets h) k J)"
    "\<And>j'. j' < J \<Longrightarrow> \<not> kh_stop h key (probe_at (n_buckets h) k j')"
  shows "\<exists>site'. kh_put_loop h key (1 + k mod (n_buckets h - 1)) (probe_at (n_buckets h) k 0) (probe_at (n_buckets h) k j) site =
    Some (probe_at (n_buckets h) k J, site', n_buckets h) \<and>
    (site' = site \<or> (\<exists>j'<J. site' = probe_at (n_buckets h) k j' \<and> ac_isdel (flags h) site'))"
  using assms(3)
proof (induction "J - j" arbitrary: j site)
  case 0
  then have "j = J" by simp
  then show ?case using assms(5) by (subst kh_put_loop.simps) (auto simp: kh_stop_def)
next
  case (Suc d)
  then have j: "j < J" by simp
  have d: "d = J - Suc j" "Suc j \<le> J" using Suc.hyps(2) j by linarith+
  define site1 where "site1 = (if ac_isdel (flags h) (probe_at (n_buckets h) k j) then probe_at (n_buckets h) k j else site)"
  obtain site' where s: "kh_put_loop h key (1 + k mod (n_buckets h - 1)) (probe_at (n_buckets h) k 0) (probe_at (n_buckets h) k (Suc j)) site1 =
    Some (probe_at (n_buckets h) k J, site', n_buckets h)"
    "site' = site1 \<or> (\<exists>j'<J. site' = probe_at (n_buckets h) k j' \<and> ac_isdel (flags h) site')"
    using Suc.hyps(1) [OF d, of site1] by blast
  have "\<not> kh_stop h key (probe_at (n_buckets h) k j)" using assms(6) [OF j] .
  then have "kh_put_loop h key (1 + k mod (n_buckets h - 1)) (probe_at (n_buckets h) k 0) (probe_at (n_buckets h) k j) site =
    Some (probe_at (n_buckets h) k J, site', n_buckets h)"
    using probe_not_start [OF assms(1), of "Suc j" k] j assms(4) s(1) kh_next_probe [OF assms(1,2), of k j]
    by (subst kh_put_loop.simps) (auto simp: kh_stop_def Let_def site1_def split: if_splits)
  moreover have "site' = site \<or> (\<exists>j'<J. site' = probe_at (n_buckets h) k j' \<and> ac_isdel (flags h) site')"
    using s(2) j by (auto simp: site1_def split: if_splits)
  ultimately show ?case by blast
qed

lemma kh_empty_loop_run:
  assumes "kh_prime n" "n < 2 ^ 31" "j \<le> J" "ac_isempty f (probe_at n k J)"
    "\<And>j'. j' < J \<Longrightarrow> \<not> ac_isempty f (probe_at n k j')"
  shows "kh_empty_loop f n (1 + k mod (n - 1)) (probe_at n k j) = Some (probe_at n k J)"
  using assms(3)
proof (induction "J - j" arbitrary: j)
  case 0
  then have "j = J" by simp
  then show ?case using assms(4) by (subst kh_empty_loop.simps) auto
next
  case (Suc d)
  then have j: "j < J" by simp
  then show ?case using Suc assms(5) [OF j] kh_next_probe [OF assms(1,2), of k j]
    by (subst kh_empty_loop.simps) auto
qed

lemma kh_empty_loop_finds:
  assumes "kh_prime n" "n < 2 ^ 31" "card (kh_occ n f) < n"
  obtains i where "kh_empty_loop f n (1 + kh_int64_hash_func key mod (n - 1)) (kh_int64_hash_func key mod n) = Some i"
    "i < n" "ac_isempty f i" "kh_chain n f key i"
proof -
  let ?k = "kh_int64_hash_func key"
  obtain j where j: "j < n" "ac_isempty f (probe_at n ?k j)" "\<And>j'. j' < j \<Longrightarrow> \<not> ac_isempty f (probe_at n ?k j')"
    using kh_first_empty [OF assms(1,3)] by metis
  have "kh_empty_loop f n (1 + ?k mod (n - 1)) (?k mod n) = Some (probe_at n ?k j)"
    using kh_empty_loop_run [OF assms(1,2) _ j(2,3), of 0] by (simp add: probe_at_0)
  then show ?thesis using that j probe_at_less [of n] by (auto simp: kh_chain_def)
qed

section \<open>Lookup\<close>

lemma kh_has_empty: "kh_inv h \<Longrightarrow> n_buckets h \<noteq> 0 \<Longrightarrow> card (kh_occ (n_buckets h) (flags h)) < n_buckets h"
  using kh_inv_prime [of h] ac_hash_upper_less [of "n_buckets h"] by (auto simp: kh_inv_def kh_table_def kh_prime_def)

lemma kh_first_stop:
  assumes "kh_inv h" "n_buckets h \<noteq> 0"
  obtains J where "J < n_buckets h" "kh_stop h key (probe_at (n_buckets h) k J)"
    "\<And>j. j < J \<Longrightarrow> \<not> kh_stop h key (probe_at (n_buckets h) k j)"
proof -
  obtain e where e: "e < n_buckets h" "ac_isempty (flags h) (probe_at (n_buckets h) k e)"
    using kh_first_empty [OF kh_inv_prime [OF assms] kh_has_empty [OF assms]] by metis
  define J where "J = (LEAST j. kh_stop h key (probe_at (n_buckets h) k j))"
  have s: "kh_stop h key (probe_at (n_buckets h) k e)" using e by (simp add: kh_stop_def)
  have "J \<le> e" "kh_stop h key (probe_at (n_buckets h) k J)"
    unfolding J_def using Least_le [where P = "\<lambda>j. kh_stop h key (probe_at (n_buckets h) k j)" and k = e]
      LeastI [where P = "\<lambda>j. kh_stop h key (probe_at (n_buckets h) k j)" and k = e] s by blast+
  moreover have "\<not> kh_stop h key (probe_at (n_buckets h) k j)" if "j < J" for j
    using not_less_Least that unfolding J_def by blast
  ultimately show ?thesis using that [of J] e(1) by (meson le_less_trans)
qed

text \<open>A live key stops its own search: no bucket before it on the probe sequence is empty.\<close>

lemma kh_stop_at_empty:
  assumes "kh_inv h" "J < n_buckets h" "ac_isempty (flags h) (probe_at (n_buckets h) (kh_int64_hash_func key) J)"
    "\<And>j. j < J \<Longrightarrow> \<not> kh_stop h key (probe_at (n_buckets h) (kh_int64_hash_func key) j)"
    "i \<in> kh_live (n_buckets h) (flags h)"
  shows "keys h ! i \<noteq> key"
proof
  assume k: "keys h ! i = key"
  have "kh_chain (n_buckets h) (flags h) (keys h ! i) i" using assms(1,5) by (simp add: kh_inv_def kh_table_def)
  then obtain j where j: "j < n_buckets h" "probe_at (n_buckets h) (kh_int64_hash_func key) j = i"
    "\<And>j'. j' < j \<Longrightarrow> \<not> ac_isempty (flags h) (probe_at (n_buckets h) (kh_int64_hash_func key) j')"
    by (auto simp: kh_chain_def k)
  have l: "\<not> ac_isempty (flags h) i" "\<not> ac_isdel (flags h) i" using assms(5) by (simp_all add: kh_live_def)
  have "kh_stop h key (probe_at (n_buckets h) (kh_int64_hash_func key) j)" using j(2) k l by (simp add: kh_stop_def)
  then have "J \<le> j" using assms(4) by (meson not_le_imp_less)
  moreover have "J \<noteq> j" using assms(3) j(2) l by auto
  ultimately show False using j(3) [of J] assms(3) by simp
qed

lemma kh_get_cases:
  assumes "kh_inv h"
  obtains (found) i where "kh_get h key = Some i" "i \<in> kh_live (n_buckets h) (flags h)" "keys h ! i = key"
  | (absent) "kh_get h key = Some (n_buckets h)" "\<And>i. i \<in> kh_live (n_buckets h) (flags h) \<Longrightarrow> keys h ! i \<noteq> key"
proof (cases "n_buckets h = 0")
  case True
  then show ?thesis using absent by (simp add: kh_get_def kh_live_def)
next
  case False
  let ?n = "n_buckets h" and ?k = "kh_int64_hash_func key"
  obtain J where J: "J < ?n" "kh_stop h key (probe_at ?n ?k J)"
    "\<And>j. j < J \<Longrightarrow> \<not> kh_stop h key (probe_at ?n ?k j)" using kh_first_stop [OF assms False] by metis
  have g: "kh_get h key = Some (if ac_iseither (flags h) (probe_at ?n ?k J) then ?n else probe_at ?n ?k J)"
    using kh_get_loop_run [OF kh_inv_prime [OF assms False] kh_inv_small [OF assms] _ J, of 0] False
    by (simp add: kh_get_def Let_def probe_at_0)
  show ?thesis
  proof (cases "ac_isempty (flags h) (probe_at ?n ?k J)")
    case True
    then show ?thesis using absent g kh_stop_at_empty [OF assms J(1) True J(3)] by (simp add: ac_iseither_iff)
  next
    case live: False
    then show ?thesis using found g J(2) False probe_at_less [of ?n ?k J]
      by (auto simp: ac_iseither_iff kh_stop_def kh_live_def)
  qed
qed

lemma kh_put_site_cases:
  assumes "kh_inv h" "n_buckets h \<noteq> 0"
  obtains (found) i where "kh_put_site h key = Some i" "i \<in> kh_live (n_buckets h) (flags h)" "keys h ! i = key"
  | (site) x where "kh_put_site h key = Some x" "x < n_buckets h" "ac_isempty (flags h) x \<or> ac_isdel (flags h) x"
      "kh_chain (n_buckets h) (flags h) key x" "\<And>i. i \<in> kh_live (n_buckets h) (flags h) \<Longrightarrow> keys h ! i \<noteq> key"
proof -
  let ?n = "n_buckets h" and ?k = "kh_int64_hash_func key"
  have less: "probe_at ?n ?k j < ?n" for j using assms(2) probe_at_less by simp
  obtain J where J: "J < ?n" "kh_stop h key (probe_at ?n ?k J)"
    "\<And>j. j < J \<Longrightarrow> \<not> kh_stop h key (probe_at ?n ?k j)" using kh_first_stop [OF assms] by metis
  have occ: "\<not> ac_isempty (flags h) (probe_at ?n ?k j)" if "j < J" for j using J(3) [OF that] by (simp add: kh_stop_def)
  have ch: "kh_chain ?n (flags h) key (probe_at ?n ?k j)" if "j \<le> J" for j
    unfolding kh_chain_def using that J(1) occ by (intro exI [of _ j]) auto
  obtain s where s: "kh_put_loop h key (1 + ?k mod (?n - 1)) (probe_at ?n ?k 0) (probe_at ?n ?k 0) ?n =
      Some (probe_at ?n ?k J, s, ?n)" "s = ?n \<or> (\<exists>j<J. s = probe_at ?n ?k j \<and> ac_isdel (flags h) s)"
    using kh_put_loop_run [OF kh_inv_prime [OF assms] kh_inv_small [OF assms(1)] le0 J] by blast
  have p: "kh_put_site h key =
      Some (if ac_isempty (flags h) (probe_at ?n ?k J) \<and> s \<noteq> ?n then s else probe_at ?n ?k J)"
  proof (cases "ac_isempty (flags h) (probe_at ?n ?k 0)")
    case True
    then have "J = 0" using occ by blast
    then show ?thesis using True s(2) by (simp add: kh_put_site_def Let_def probe_at_0)
  next
    case False
    then show ?thesis using s(1) by (simp add: kh_put_site_def Let_def probe_at_0)
  qed
  show ?thesis
  proof (cases "ac_isempty (flags h) (probe_at ?n ?k J)")
    case True
    then show ?thesis using site [OF p] s(2) ch less kh_stop_at_empty [OF assms(1) J(1) True J(3)] by auto
  next
    case False
    then show ?thesis using found [OF p] J(2) less by (auto simp: kh_stop_def kh_live_def)
  qed
qed

section \<open>Deletion and insertion\<close>

lemma kh_flags_in:
  "kh_table h \<Longrightarrow> i < n_buckets h \<Longrightarrow> i div 16 < length (flags h)"
  by (simp add: kh_table_def flag_in_range)

lemma kh_card_small:
  assumes "kh_inv h"
  shows "card (kh_live (n_buckets h) (flags h)) < 2 ^ 31" "card (kh_occ (n_buckets h) (flags h)) < 2 ^ 31"
proof -
  have "kh_live (n_buckets h) (flags h) \<subseteq> {..<n_buckets h}" "kh_occ (n_buckets h) (flags h) \<subseteq> {..<n_buckets h}"
    by (auto simp: kh_live_def kh_occ_def)
  then have "card (kh_live (n_buckets h) (flags h)) \<le> n_buckets h" "card (kh_occ (n_buckets h) (flags h)) \<le> n_buckets h"
    using card_mono [of "{..<n_buckets h}"] by fastforce+
  then show "card (kh_live (n_buckets h) (flags h)) < 2 ^ 31" "card (kh_occ (n_buckets h) (flags h)) < 2 ^ 31"
    using kh_inv_small [OF assms] by auto
qed

lemma kh_del_live:
  assumes "kh_inv h" "i \<in> kh_live (n_buckets h) (flags h)"
  shows "kh_inv (kh_del h i)" "kh_bindings (kh_del h i) = kh_bindings h - {kh_binding h i}"
    "n_buckets (kh_del h i) = n_buckets h" "keys (kh_del h i) = keys h"
proof -
  let ?n = "n_buckets h" and ?f = "ac_set_isdel_true (flags h) i"
  have t: "kh_table h" using assms(1) by (simp add: kh_inv_def)
  have i: "i < ?n" "\<not> ac_iseither (flags h) i" using assms(2) by (auto simp: kh_live_def ac_iseither_iff)
  note fl = set_isdel_true_laws [OF kh_flags_in [OF t i(1)]]
  have live: "kh_live ?n ?f = kh_live ?n (flags h) - {i}" and occ: "kh_occ ?n ?f = kh_occ ?n (flags h)"
    using fl by (auto simp: kh_live_def kh_occ_def)
  define c where "c = card (kh_live ?n (flags h))"
  have "0 < c" "c < 2 ^ 31" using assms kh_card_small(1) card_gt_0_iff unfolding c_def by fastforce+
  then have sz: "(c + (2 ^ 32 - 1)) mod 2 ^ 32 = c - 1" by (cases c) simp_all
  have inj: "inj_on ((!) (keys h)) (kh_live ?n (flags h))" using t by (simp add: kh_table_def)
  have d: "kh_del h i = h\<lparr>flags := ?f, kh_size := card (kh_live ?n ?f)\<rparr>"
    using i assms(2) t sz by (simp add: kh_del_def kh_table_def live c_def)
  have "kh_chain ?n ?f (keys h ! j) j" if "j \<in> kh_live ?n (flags h)" for j
    using that t fl by (auto simp: kh_table_def intro: kh_chain_mono)
  then show "kh_inv (kh_del h i)"
    using assms(1) t fl inj unfolding kh_inv_def kh_table_def d
    by (auto simp: occ live intro: inj_on_subset)
  show "kh_bindings (kh_del h i) = kh_bindings h - {kh_binding h i}"
    using inj assms(2) unfolding kh_bindings_def d
    by (auto simp: live kh_binding_def inj_on_def)
  show "n_buckets (kh_del h i) = n_buckets h" "keys (kh_del h i) = keys h" by (simp_all add: d)
qed

text \<open>Storing a key in a bucket that is empty or deleted.\<close>

definition kh_store :: "khash \<Rightarrow> u64 \<Rightarrow> nat \<Rightarrow> khash" where
  "kh_store h key x = h\<lparr>keys := (keys h)[x := key], flags := ac_set_isboth_false (flags h) x,
     kh_size := (kh_size h + 1) mod 2 ^ 32,
     n_occupied := if ac_isempty (flags h) x then (n_occupied h + 1) mod 2 ^ 32 else n_occupied h\<rparr>"

lemma kh_store_laws:
  assumes "kh_inv h" "x < n_buckets h" "ac_isempty (flags h) x \<or> ac_isdel (flags h) x"
    "kh_chain (n_buckets h) (flags h) key x" "\<And>i. i \<in> kh_live (n_buckets h) (flags h) \<Longrightarrow> keys h ! i \<noteq> key"
    "n_occupied h < upper_bound h"
  shows "kh_inv (kh_store h key x)"
    "kh_bindings ((kh_store h key x)\<lparr>vals := (vals h)[x := v]\<rparr>) = insert (key, v) (kh_bindings h)"
proof -
  let ?n = "n_buckets h" and ?f = "ac_set_isboth_false (flags h) x"
  have t: "kh_table h" using assms(1) by (simp add: kh_inv_def)
  note fl = set_isboth_false_laws [OF kh_flags_in [OF t assms(2)]]
  have live: "kh_live ?n ?f = insert x (kh_live ?n (flags h))" and occ: "kh_occ ?n ?f = insert x (kh_occ ?n (flags h))"
    using fl assms(2) by (auto simp: kh_live_def kh_occ_def)
  have nx: "x \<notin> kh_live ?n (flags h)" using assms(3) by (auto simp: kh_live_def)
  have nox: "x \<in> kh_occ ?n (flags h) \<longleftrightarrow> \<not> ac_isempty (flags h) x" using assms(2) by (simp add: kh_occ_def)
  have cl: "card (kh_live ?n ?f) = kh_size h + 1" using t nx by (simp add: live kh_table_def)
  have co: "card (kh_occ ?n ?f) = (if ac_isempty (flags h) x then n_occupied h + 1 else n_occupied h)"
    unfolding occ using t nox by (simp add: kh_table_def insert_absorb)
  have sz: "(kh_size h + 1) mod 2 ^ 32 = card (kh_live ?n ?f)" "(n_occupied h + 1) mod 2 ^ 32 = n_occupied h + 1"
    using kh_card_small [OF assms(1)] t by (simp_all add: cl kh_table_def)
  have k: "(keys h)[x := key] ! i = (if i = x then key else keys h ! i)" for i
    using t assms(2) by (simp add: kh_table_def nth_list_update)
  have ch: "kh_chain ?n ?f k' i" if "kh_chain ?n (flags h) k' i" for k' i
    by (rule kh_chain_mono [OF that]) (simp add: fl)
  have inj: "inj_on ((!) ((keys h)[x := key])) (kh_live ?n ?f)"
    using t nx assms(5) unfolding live kh_table_def inj_on_def by (auto simp: k)
  have st: "kh_store h key x = h\<lparr>keys := (keys h)[x := key], flags := ?f, kh_size := card (kh_live ?n ?f),
      n_occupied := card (kh_occ ?n ?f)\<rparr>" unfolding kh_store_def sz co by simp
  have chs: "\<forall>i \<in> kh_live ?n ?f. kh_chain ?n ?f ((keys h)[x := key] ! i) i"
    using t assms(4) ch unfolding live kh_table_def by (auto simp: k)
  have up: "card (kh_occ ?n ?f) \<le> upper_bound h" using assms(6) co by simp
  show "kh_inv (kh_store h key x)"
    using assms(1) t inj chs fl(3) up unfolding kh_inv_def kh_table_def st by simp
  have "length (vals h) = ?n" using t by (simp add: kh_table_def)
  then show "kh_bindings ((kh_store h key x)\<lparr>vals := (vals h)[x := v]\<rparr>) = insert (key, v) (kh_bindings h)"
    using nx assms(2) by (auto simp: kh_bindings_def kh_store_def kh_binding_def live k nth_list_update image_iff)
qed

end
