(* ===== verification/Khash_Resize.thy ===== *)
theory Khash_Resize
  imports Khash_Laws
begin

text \<open>
  The in-place rehash of \<^verbatim>\<open>src/coturn/src/server/ns_turn_khash.h\<close>. While it runs, a binding is in one of three places:
  in a bucket that the old flags still call live, in a bucket that the new flags call occupied, or in hand. The
  invariant counts them: no binding is lost or doubled, so the kick-out loop ends and the new table holds the old
  bindings. With it, \<^verbatim>\<open>kh_put\<close> is correct on every table that has room.
\<close>

section \<open>The state of a rehash\<close>

text \<open>\<open>H\<close> is the binding in hand, if there is one, and \<open>B\<close> the bindings of the table.\<close>

definition kh_mid :: "nat \<Rightarrow> khash \<Rightarrow> u32 list \<Rightarrow> (u64 \<times> u64) set \<Rightarrow> (u64 \<times> u64) set \<Rightarrow> bool" where
  "kh_mid n h g H B \<longleftrightarrow>
     length (keys h) = n \<and> length (vals h) = n \<and> n_buckets h \<le> n \<and> length g = n div 16 + 1 \<and>
     (\<forall>i < n_buckets h. i div 16 < length (flags h)) \<and> (\<forall>i < n. \<not> ac_isdel g i) \<and>
     kh_live (n_buckets h) (flags h) \<inter> kh_occ n g = {} \<and>
     kh_binding h ` (kh_live (n_buckets h) (flags h) \<union> kh_occ n g) \<union> H = B \<and>
     card (kh_live (n_buckets h) (flags h)) + card (kh_occ n g) + card H = card B \<and>
     (\<forall>i \<in> kh_occ n g. kh_chain n g (keys h ! i) i)"

lemma kh_midD:
  assumes "kh_mid n h g H B"
  shows "length (keys h) = n" "length (vals h) = n" "n_buckets h \<le> n" "length g = n div 16 + 1"
    "\<And>i. i < n_buckets h \<Longrightarrow> i div 16 < length (flags h)" "\<And>i. i < n \<Longrightarrow> \<not> ac_isdel g i"
    "kh_live (n_buckets h) (flags h) \<inter> kh_occ n g = {}"
    "kh_binding h ` (kh_live (n_buckets h) (flags h) \<union> kh_occ n g) \<union> H = B"
    "card (kh_live (n_buckets h) (flags h)) + card (kh_occ n g) + card H = card B"
    "\<And>i. i \<in> kh_occ n g \<Longrightarrow> kh_chain n g (keys h ! i) i"
  using assms by (simp_all add: kh_mid_def)

lemma kh_live_isdel:
  assumes "i div 16 < length f"
  shows "kh_live n (ac_set_isdel_true f i) = kh_live n f - {i}"
  using set_isdel_true_laws [OF assms] by (auto simp: kh_live_def)

lemma kh_occ_isempty:
  assumes "i < n" "length g = n div 16 + 1"
  shows "kh_occ n (ac_set_isempty_false g i) = insert i (kh_occ n g)"
  using set_isempty_false_laws [of i g] assms flag_in_range [OF assms(1)] by (auto simp: kh_occ_def)

text \<open>Taking a live binding into the hand.\<close>

lemma kh_mid_take:
  assumes "kh_mid n h g {} B" "j \<in> kh_live (n_buckets h) (flags h)"
  shows "kh_mid n (h\<lparr>flags := ac_set_isdel_true (flags h) j\<rparr>) g {kh_binding h j} B"
proof -
  note m = kh_midD [OF assms(1)]
  have j: "j < n_buckets h" using assms(2) by (simp add: kh_live_def)
  note fl = set_isdel_true_laws [OF m(5) [OF j]] kh_live_isdel [OF m(5) [OF j]]
  have c: "card (kh_live (n_buckets h) (flags h)) = Suc (card (kh_live (n_buckets h) (flags h) - {j}))"
    using assms(2) by (rule card.remove [rotated]) simp
  have b: "kh_binding (h\<lparr>flags := ac_set_isdel_true (flags h) j\<rparr>) = kh_binding h"
    by (auto simp: kh_binding_def)
  have "kh_binding h ` ((kh_live (n_buckets h) (flags h) - {j}) \<union> kh_occ n g) \<union> {kh_binding h j} = B"
    using m(8) assms(2) by auto
  then show ?thesis using m c fl unfolding kh_mid_def b by auto
qed

text \<open>Placing the binding in hand in an empty bucket of the new layout.\<close>

lemma kh_mid_place:
  assumes "kh_mid n h g {(key, val)} B" "i < n" "ac_isempty g i" "kh_chain n g key i"
  defines "h' \<equiv> h\<lparr>keys := (keys h)[i := key], vals := (vals h)[i := val]\<rparr>"
    and "g' \<equiv> ac_set_isempty_false g i"
  shows "i \<in> kh_live (n_buckets h) (flags h) \<Longrightarrow>
      kh_mid n (h'\<lparr>flags := ac_set_isdel_true (flags h) i\<rparr>) g' {kh_binding h i} B"
    "i \<notin> kh_live (n_buckets h) (flags h) \<Longrightarrow> kh_mid n h' g' {} B"
proof -
  note m = kh_midD [OF assms(1)]
  let ?U = "kh_live (n_buckets h) (flags h)" and ?P = "kh_occ n g"
  have il: "i div 16 < length g" using flag_in_range [OF assms(2)] m(4) by simp
  have P: "kh_occ n g' = insert i ?P" unfolding g'_def by (rule kh_occ_isempty [OF assms(2) m(4)])
  have ni: "i \<notin> ?P" using assms(3) by (simp add: kh_occ_def)
  note fl = set_isempty_false_laws [OF il]
  have nb: "keys h' = (keys h)[i := key]" "vals h' = (vals h)[i := val]" "n_buckets h' = n_buckets h" "flags h' = flags h"
    by (simp_all add: h'_def)
  have bi: "kh_binding (h'\<lparr>flags := f\<rparr>) j = (if j = i then (key, val) else kh_binding h j)" for j f
    using assms(2) m(1,2) by (simp add: kh_binding_def nb nth_list_update)
  have bi': "kh_binding h' j = (if j = i then (key, val) else kh_binding h j)" for j
    using bi [of "flags h" j] by (simp add: kh_binding_def)
  have ch: "kh_chain n g' k j" if "kh_chain n g k j" for k j
    by (rule kh_chain_mono [OF that]) (simp add: g'_def fl)
  have chs: "\<forall>j \<in> kh_occ n g'. kh_chain n g' (keys h' ! j) j"
    using ch [OF assms(4)] ch [OF m(10)] ni assms(2) m(1) unfolding P by (auto simp: nb nth_list_update)
  have del: "\<forall>j < n. \<not> ac_isdel g' j" using m(6) fl by (simp add: g'_def)
  have len: "length (keys h') = n" "length (vals h') = n" "length g' = n div 16 + 1"
    using m(1,2,4) fl by (simp_all add: nb g'_def)
  show "kh_mid n (h'\<lparr>flags := ac_set_isdel_true (flags h) i\<rparr>) g' {kh_binding h i} B" if u: "i \<in> ?U"
  proof -
    have i: "i < n_buckets h" using u by (simp add: kh_live_def)
    note fl' = set_isdel_true_laws [OF m(5) [OF i]]
    have U: "kh_live (n_buckets h) (ac_set_isdel_true (flags h) i) = ?U - {i}" by (rule kh_live_isdel [OF m(5) [OF i]])
    have "kh_binding (h'\<lparr>flags := ac_set_isdel_true (flags h) i\<rparr>) ` ((?U - {i}) \<union> insert i ?P) \<union> {kh_binding h i} =
        kh_binding h ` (?U \<union> ?P) \<union> {(key, val)}"
      using ni u by (auto simp: bi image_iff split: if_splits)
    moreover have "card ?U = Suc (card (?U - {i}))" using u by (rule card.remove [rotated]) simp
    ultimately show ?thesis
      using m chs del len fl' ni unfolding kh_mid_def U P by (auto simp: nb U)
  qed
  show "kh_mid n h' g' {} B" if u: "i \<notin> ?U"
  proof -
    have "kh_binding h' ` (?U \<union> insert i ?P) = kh_binding h ` (?U \<union> ?P) \<union> {(key, val)}"
      using ni u by (auto simp: bi' image_iff split: if_splits)
    then show ?thesis using m chs del len ni u unfolding kh_mid_def P nb by auto
  qed
qed

section \<open>The rehash\<close>

lemma kh_kick_loop_run:
  assumes "kh_prime n" "n < 2 ^ 31" "card B < n" "kh_mid n h g {(key, val)} B"
  shows "\<exists>h' g'. kh_kick_loop n h g key val = Some (h', g') \<and> kh_mid n h' g' {} B \<and>
    n_buckets h' = n_buckets h \<and> kh_size h' = kh_size h \<and>
    kh_live (n_buckets h') (flags h') \<subseteq> kh_live (n_buckets h) (flags h)"
  using assms(4)
proof (induction "card (kh_live (n_buckets h) (flags h))" arbitrary: h g key val rule: less_induct)
  case less
  note m = kh_midD [OF less.prems]
  have "card (kh_occ n g) < n" using m(9) assms(3) by simp
  then obtain i where i: "kh_empty_loop g n (1 + kh_int64_hash_func key mod (n - 1)) (kh_int64_hash_func key mod n) = Some i"
    "i < n" "ac_isempty g i" "kh_chain n g key i" using kh_empty_loop_finds [OF assms(1,2)] by metis
  define h1 where "h1 = h\<lparr>keys := (keys h)[i := key], vals := (vals h)[i := val]\<rparr>"
  define h2 where "h2 = h1\<lparr>flags := ac_set_isdel_true (flags h) i\<rparr>"
  define g1 where "g1 = ac_set_isempty_false g i"
  have e: "kh_kick_loop n h g key val =
      (if i < n_buckets h \<and> \<not> ac_iseither (flags h) i then kh_kick_loop n h2 g1 (keys h ! i) (vals h ! i) else Some (h1, g1))"
    by (subst kh_kick_loop.simps) (simp add: Let_def i(1) [simplified] h1_def h2_def g1_def)
  have u: "i \<in> kh_live (n_buckets h) (flags h) \<longleftrightarrow> i < n_buckets h \<and> \<not> ac_iseither (flags h) i"
    by (auto simp: kh_live_def ac_iseither_iff)
  note place = kh_mid_place [OF less.prems i(2-4), folded h1_def g1_def, folded h2_def]
  have s: "n_buckets h1 = n_buckets h" "n_buckets h2 = n_buckets h" "kh_size h1 = kh_size h" "kh_size h2 = kh_size h"
    "flags h1 = flags h" "flags h2 = ac_set_isdel_true (flags h) i" by (simp_all add: h1_def h2_def)
  show ?case
  proof (cases "i \<in> kh_live (n_buckets h) (flags h)")
    case True
    have l: "kh_live (n_buckets h2) (flags h2) = kh_live (n_buckets h) (flags h) - {i}"
      using True kh_live_isdel [OF m(5) [of i]] by (simp add: s u)
    have "card (kh_live (n_buckets h2) (flags h2)) < card (kh_live (n_buckets h) (flags h))"
      unfolding l using True by (rule card_Diff1_less [rotated]) simp
    moreover have "kh_mid n h2 g1 {(keys h ! i, vals h ! i)} B" using place(1) [OF True] by (simp add: kh_binding_def)
    ultimately show ?thesis using less.hyps [of h2 g1 "keys h ! i" "vals h ! i"] True e l by (auto simp: s u)
  next
    case False
    then have "kh_kick_loop n h g key val = Some (h1, g1)" using e u by auto
    then show ?thesis using place(2) [OF False] by (simp add: s)
  qed
qed

lemma kh_rehash_run:
  assumes "kh_prime n" "n < 2 ^ 31" "card B < n" "kh_mid n h g {} B" "set js \<subseteq> {..<n_buckets h}"
  shows "\<exists>h' g'. kh_rehash n js h g = Some (h', g') \<and> kh_mid n h' g' {} B \<and>
    n_buckets h' = n_buckets h \<and> kh_size h' = kh_size h \<and>
    kh_live (n_buckets h') (flags h') \<subseteq> kh_live (n_buckets h) (flags h) - set js"
  using assms(4,5)
proof (induction js arbitrary: h g)
  case (Cons j js)
  have u: "j \<in> kh_live (n_buckets h) (flags h) \<longleftrightarrow> \<not> ac_iseither (flags h) j"
    using Cons.prems by (auto simp: kh_live_def ac_iseither_iff)
  show ?case
  proof (cases "j \<in> kh_live (n_buckets h) (flags h)")
    case True
    let ?h = "h\<lparr>flags := ac_set_isdel_true (flags h) j\<rparr>"
    have l: "kh_live (n_buckets ?h) (flags ?h) = kh_live (n_buckets h) (flags h) - {j}"
      using Cons.prems kh_live_isdel [OF kh_midD(5) [OF Cons.prems(1), of j]] by simp
    have "kh_mid n ?h g {(keys h ! j, vals h ! j)} B"
      using kh_mid_take [OF Cons.prems(1) True] by (simp add: kh_binding_def)
    from kh_kick_loop_run [OF assms(1-3) this] obtain h1 g1 where
      k: "kh_kick_loop n ?h g (keys h ! j) (vals h ! j) = Some (h1, g1)" "kh_mid n h1 g1 {} B"
        "n_buckets h1 = n_buckets h" "kh_size h1 = kh_size h"
        "kh_live (n_buckets h1) (flags h1) \<subseteq> kh_live (n_buckets h) (flags h) - {j}" unfolding l by auto
    from Cons.IH [OF k(2)] Cons.prems(2) obtain h' g' where r: "kh_rehash n js h1 g1 = Some (h', g')" "kh_mid n h' g' {} B"
        "n_buckets h' = n_buckets h" "kh_size h' = kh_size h"
        "kh_live (n_buckets h') (flags h') \<subseteq> kh_live (n_buckets h1) (flags h1) - set js" unfolding k(3,4) by auto
    then have "kh_live (n_buckets h') (flags h') \<subseteq> kh_live (n_buckets h) (flags h) - set (j # js)" using k(5) by auto
    moreover have "kh_rehash n (j # js) h g = Some (h', g')" using True u k(1) r(1) by simp
    ultimately show ?thesis using r(2-4) by blast
  next
    case False
    then show ?thesis using Cons.IH [OF Cons.prems(1)] Cons.prems(2) u by auto
  qed
qed simp

text \<open>The rehash starts from the old table with the arrays grown, and ends with every binding in the new layout.\<close>

lemma kh_bindings_card:
  assumes "kh_table h"
  shows "card (kh_bindings h) = kh_size h" "inj_on fst (kh_bindings h)"
proof -
  have "inj_on (fst \<circ> kh_binding h) (kh_live (n_buckets h) (flags h))"
    using assms by (simp add: kh_table_def inj_on_def kh_binding_def)
  then show "card (kh_bindings h) = kh_size h" "inj_on fst (kh_bindings h)"
    using assms card_image inj_on_imageI inj_on_imageI2
    unfolding kh_bindings_def kh_table_def by metis+
qed

lemma kh_mid_start:
  assumes "kh_table h" "n_buckets h \<le> n"
  defines "h1 \<equiv> (if n_buckets h < n then h\<lparr>keys := grow n (keys h), vals := grow n (vals h)\<rparr> else h)"
  shows "kh_mid n h1 (ac_flags_new n) {} (kh_bindings h)"
proof -
  have len: "length (keys h) = n_buckets h" "length (vals h) = n_buckets h" using assms(1) by (simp_all add: kh_table_def)
  have s: "n_buckets h1 = n_buckets h" "flags h1 = flags h" by (simp_all add: h1_def)
  have "length (keys h1) = n" "length (vals h1) = n" using len assms(2) by (simp_all add: h1_def grow_def)
  moreover have "kh_occ n (ac_flags_new n) = {}" by (auto simp: kh_occ_def ac_flags_new_laws)
  moreover have "kh_binding h1 i = kh_binding h i" if "i \<in> kh_live (n_buckets h) (flags h)" for i
    using that len by (auto simp: h1_def kh_binding_def grow_def nth_append kh_live_def)
  then have "kh_binding h1 ` kh_live (n_buckets h) (flags h) = kh_bindings h" unfolding kh_bindings_def by (rule image_cong [OF refl])
  moreover have "card (kh_live (n_buckets h) (flags h)) = card (kh_bindings h)"
    using kh_bindings_card [OF assms(1)] assms(1) by (simp add: kh_table_def)
  ultimately show ?thesis using assms(1,2) kh_flags_in [OF assms(1)] by (simp add: kh_mid_def s ac_flags_new_laws)
qed

lemma kh_mid_end:
  assumes "kh_mid n h g {} B" "kh_live (n_buckets h) (flags h) = {}" "inj_on fst B" "kh_size h = card B"
    "n \<noteq> 0" "card B \<le> ac_hash_upper n"
  defines "h' \<equiv> h\<lparr>flags := g, n_buckets := n, n_occupied := kh_size h, upper_bound := ac_hash_upper n\<rparr>"
  shows "kh_table h'" "kh_bindings h' = B"
proof -
  note m = kh_midD [OF assms(1), unfolded assms(2), simplified]
  have l: "kh_live n g = kh_occ n g" using m(6) by (auto simp: kh_live_def kh_occ_def)
  have b: "kh_binding h' = kh_binding h" by (auto simp: h'_def kh_binding_def)
  have "inj_on (kh_binding h) (kh_occ n g)" using m(8,9) by (metis eq_card_imp_inj_on kh_sets_finite(1))
  then have "inj_on (fst \<circ> kh_binding h) (kh_occ n g)" using assms(3) m(8) by (simp add: comp_inj_on)
  then have inj: "inj_on ((!) (keys h)) (kh_occ n g)" by (simp add: inj_on_def kh_binding_def)
  show "kh_bindings h' = B" using m(8) l b by (simp add: kh_bindings_def) (simp add: h'_def)
  show "kh_table h'" using m inj assms(4-6) l unfolding kh_table_def h'_def by simp
qed

section \<open>Sizes of the table\<close>

lemma ac_prime_index_eq:
  "t \<le> T \<Longrightarrow> ac_prime_list ! t \<le> n \<Longrightarrow> (\<And>s. t < s \<Longrightarrow> s \<le> T \<Longrightarrow> n < ac_prime_list ! s) \<Longrightarrow> ac_prime_index T n = t"
proof (induction T)
  case (Suc T)
  show ?case
  proof (cases "t = Suc T")
    case False
    then show ?thesis using Suc by simp
  qed (use Suc in simp)
qed simp

lemma ac_prime_sorted: "sorted_wrt (\<lambda>a b. a + 2 < b) ac_prime_list" "length ac_prime_list = 32"
  by (simp_all add: ac_prime_list_def)

lemma ac_prime_less: "s < t \<Longrightarrow> t < 32 \<Longrightarrow> ac_prime_list ! s + 2 < ac_prime_list ! t"
  using ac_prime_sorted by (simp add: sorted_wrt_iff_nth_less)

lemma kh_new_size_same:
  assumes "0 < t" "t < KH_TABLES"
  shows "kh_new_size (ac_prime_list ! t - 1) = Some (ac_prime_list ! t)"
proof -
  have "ac_prime_index 31 (ac_prime_list ! t - 1) = t - 1"
  proof (rule ac_prime_index_eq)
    show "ac_prime_list ! (t - 1) \<le> ac_prime_list ! t - 1" using ac_prime_less [of "t - 1" t] assms by (simp add: KH_TABLES_def)
    show "ac_prime_list ! t - 1 < ac_prime_list ! s" if "t - 1 < s" "s \<le> 31" for s
    proof (cases "s = t")
      case True
      then show ?thesis using ac_prime_less [of 0 s] that assms by simp
    next
      case False
      then have "t < s" using that assms by linarith
      then show ?thesis using ac_prime_less [of t s] that by simp
    qed
  qed (use assms in \<open>simp add: KH_TABLES_def\<close>)
  then show ?thesis using assms by (simp add: kh_new_size_def ac_HASH_PRIME_SIZE_def KH_TABLES_def Let_def)
qed

lemma kh_new_size_next:
  assumes "t < KH_TABLES"
  shows "kh_new_size (ac_prime_list ! t + 1) = Some (ac_prime_list ! Suc t)"
proof -
  have "ac_prime_index 31 (ac_prime_list ! t + 1) = t"
  proof (rule ac_prime_index_eq)
    show "ac_prime_list ! t + 1 < ac_prime_list ! s" if "t < s" "s \<le> 31" for s
      using that ac_prime_less [of t s] by simp
  qed (use assms in \<open>simp_all add: KH_TABLES_def\<close>)
  then show ?thesis using assms by (simp add: kh_new_size_def ac_HASH_PRIME_SIZE_def KH_TABLES_def)
qed

lemma ac_hash_upper_mono: "m + 2 < n \<Longrightarrow> ac_hash_upper m < ac_hash_upper n"
  unfolding ac_hash_upper_def by linarith

lemma ac_hash_upper_half: "2 * s < n \<Longrightarrow> s < ac_hash_upper n"
  unfolding ac_hash_upper_def by linarith

text \<open>The size that an insertion into a full table asks for, when fewer than \<^const>\<open>KH_CAP\<close> keys are bound.\<close>

lemma kh_grow_size:
  assumes "kh_inv h" "kh_size h < KH_CAP"
  obtains n where "kh_new_size (if n_buckets h > 2 * kh_size h mod 2 ^ 32 then n_buckets h - 1 else (n_buckets h + 1) mod 2 ^ 32) = Some n"
    "n \<in> set (take KH_TABLES ac_prime_list)" "n \<noteq> 0" "n_buckets h \<le> n" "kh_size h < ac_hash_upper n"
proof -
  have "n_buckets h \<in> set (take KH_TABLES ac_prime_list)" using assms(1) by (simp add: kh_inv_def)
  then obtain t where t: "t < KH_TABLES" "n_buckets h = ac_prime_list ! t"
    using ac_prime_sorted(2) unfolding in_set_conv_nth by (auto simp: KH_TABLES_def)
  have mem: "ac_prime_list ! s \<in> set (take KH_TABLES ac_prime_list)" if "s < KH_TABLES" for s
    using that ac_prime_sorted(2) unfolding in_set_conv_nth by (intro exI [of _ s]) (simp add: KH_TABLES_def)
  have w: "2 * kh_size h mod 2 ^ 32 = 2 * kh_size h" "(n_buckets h + 1) mod 2 ^ 32 = n_buckets h + 1"
    using assms(2) kh_inv_small [OF assms(1)] by (simp_all add: KH_CAP_def)
  show ?thesis
  proof (cases "n_buckets h > 2 * kh_size h")
    case True
    have "0 < t" using t True by (cases t) (simp_all add: ac_prime_list_def)
    then show ?thesis using that [of "n_buckets h"] True t w kh_new_size_same [of t] mem [OF t(1)] ac_hash_upper_half by auto
  next
    case False
    have "ac_prime_list ! 18 = 786433" by (simp add: ac_prime_list_def)
    then have "t \<noteq> 18" using False t(2) assms(2) by (auto simp: KH_CAP_def)
    then have s: "Suc t < KH_TABLES" using t(1) by (simp add: KH_TABLES_def)
    have "kh_size h \<le> ac_hash_upper (n_buckets h)"
      using assms(1) kh_size_le_occupied [of h] by (simp add: kh_inv_def kh_table_def)
    moreover have g: "n_buckets h + 2 < ac_prime_list ! Suc t" using ac_prime_less [of t "Suc t"] s t(2) by (simp add: KH_TABLES_def)
    ultimately have "kh_size h < ac_hash_upper (ac_prime_list ! Suc t)" using ac_hash_upper_mono by fastforce
    then show ?thesis using that [of "ac_prime_list ! Suc t"] kh_new_size_next [OF t(1)] False t(2) w mem [OF s] g by simp
  qed
qed

section \<open>Resize and insertion\<close>

lemma kh_resize_laws:
  assumes "kh_inv h" "kh_new_size m = Some n" "n \<in> set (take KH_TABLES ac_prime_list)" "n \<noteq> 0" "n_buckets h \<le> n"
    "kh_size h < ac_hash_upper n"
  obtains h' where "kh_resize h m = Some h'" "kh_inv h'" "kh_bindings h' = kh_bindings h"
    "n_occupied h' < upper_bound h'" "n_buckets h' = n"
proof -
  have t: "kh_table h" using assms(1) by (simp add: kh_inv_def)
  note B = kh_bindings_card [OF t]
  have p: "kh_prime n" "n < 2 ^ 31" using kh_table_sizes [OF assms(3)] assms(4) by auto
  have c: "card (kh_bindings h) < n" using B(1) assms(6) ac_hash_upper_less [of n] p(1) by (simp add: kh_prime_def)
  define h1 where "h1 = (if n_buckets h < n then h\<lparr>keys := grow n (keys h), vals := grow n (vals h)\<rparr> else h)"
  have s: "n_buckets h1 = n_buckets h" "kh_size h1 = kh_size h" by (simp_all add: h1_def)
  obtain h2 g where r: "kh_rehash n [0..<n_buckets h] h1 (ac_flags_new n) = Some (h2, g)"
    "kh_mid n h2 g {} (kh_bindings h)" "n_buckets h2 = n_buckets h" "kh_size h2 = kh_size h"
    "kh_live (n_buckets h2) (flags h2) \<subseteq> kh_live (n_buckets h) (flags h1) - {0..<n_buckets h}"
    using kh_rehash_run [OF p c kh_mid_start [OF t assms(5), folded h1_def], of "[0..<n_buckets h]"]
    by (auto simp: s lessThan_atLeast0)
  have l: "kh_live (n_buckets h2) (flags h2) = {}" using r(5) by (auto simp: kh_live_def)
  define h' where "h' = h2\<lparr>flags := g, n_buckets := n, n_occupied := kh_size h2, upper_bound := ac_hash_upper n\<rparr>"
  have e: "kh_table h'" "kh_bindings h' = kh_bindings h"
    using kh_mid_end [OF r(2) l B(2)] B(1) r(4) assms(4,6) by (simp_all add: h'_def)
  have "kh_resize h m = Some h'"
    using assms(2,5,6) r(1,3) by (simp add: kh_resize_def Let_def h1_def [symmetric] s h'_def)
  moreover have "n_buckets h' = n" "n_occupied h' < upper_bound h'" using assms(6) r(4) by (simp_all add: h'_def)
  ultimately show ?thesis using that e assms(3) by (simp add: kh_inv_def)
qed

text \<open>Before it looks for a site, an insertion makes sure that the table has a free bucket.\<close>

lemma kh_make_room:
  assumes "kh_inv h" "kh_size h < KH_CAP"
  obtains h1 where "(if n_occupied h \<ge> upper_bound h then
      kh_resize h (if n_buckets h > 2 * kh_size h mod 2 ^ 32 then n_buckets h - 1 else (n_buckets h + 1) mod 2 ^ 32)
      else Some h) = Some h1" "kh_inv h1" "kh_bindings h1 = kh_bindings h" "n_occupied h1 < upper_bound h1" "n_buckets h1 \<noteq> 0"
proof (cases "n_occupied h \<ge> upper_bound h")
  case True
  obtain n where n: "kh_new_size (if n_buckets h > 2 * kh_size h mod 2 ^ 32 then n_buckets h - 1 else (n_buckets h + 1) mod 2 ^ 32) = Some n"
    "n \<in> set (take KH_TABLES ac_prime_list)" "n \<noteq> 0" "n_buckets h \<le> n" "kh_size h < ac_hash_upper n"
    by (rule kh_grow_size [OF assms(1,2)])
  show ?thesis by (rule kh_resize_laws [OF assms(1) n], rule that) (use True n(3) in auto)
next
  case False
  have "n_buckets h \<noteq> 0" using False assms(1) by (auto simp: kh_inv_def kh_table_def ac_hash_upper_def)
  then show ?thesis using that [of h] False assms(1) by simp
qed

text \<open>An insertion stores an absent key in a free bucket and leaves the bindings of the others alone.\<close>

lemma kh_put_absent:
  assumes "kh_inv h" "kh_size h < KH_CAP" "key \<notin> fst ` kh_bindings h"
  obtains h' x ret where "kh_put h key = Some (h', x, ret)" "ret \<noteq> 0" "kh_inv h'" "x < n_buckets h'"
    "\<And>v. kh_bindings (h'\<lparr>vals := (vals h')[x := v]\<rparr>) = insert (key, v) (kh_bindings h)"
proof (rule kh_make_room [OF assms(1,2)])
  fix h1
  assume h1: "(if n_occupied h \<ge> upper_bound h then
      kh_resize h (if n_buckets h > 2 * kh_size h mod 2 ^ 32 then n_buckets h - 1 else (n_buckets h + 1) mod 2 ^ 32)
      else Some h) = Some h1" "kh_inv h1" "kh_bindings h1 = kh_bindings h" "n_occupied h1 < upper_bound h1" "n_buckets h1 \<noteq> 0"
  have "key \<notin> fst ` kh_bindings h1" using assms(3) by (simp add: h1(3))
  then have ab: "keys h1 ! i \<noteq> key" if "i \<in> kh_live (n_buckets h1) (flags h1)" for i
    using that unfolding kh_bindings_def image_image by (auto simp: kh_binding_def)
  show ?thesis
  proof (rule kh_put_site_cases [OF h1(2,5), of key], goal_cases)
    case (1 i)
    then show ?case using ab by blast
  next
    case site: (2 x)
    let ?h = "kh_store h1 key x"
    have p: "kh_put h key = Some (?h, x, if ac_isempty (flags h1) x then 1 else 2)"
      unfolding kh_put_def h1(1) using site(1,3) by (auto simp: kh_store_def)
    have "n_buckets ?h = n_buckets h1" "vals ?h = vals h1" by (simp_all add: kh_store_def)
    then show ?case using that [OF p] site(2) kh_store_laws [OF h1(2) site(2-5) h1(4)] h1(3) by simp
  qed
qed

section \<open>Properties\<close>

text \<open>\<^bold>\<open>C15\<close>: on every well-formed table with fewer than 393217 keys, a lookup and an insertion return: the probe
  loops end, and so do the kick-out and probe loops of the rehash when the insertion resizes the table. The lookup gives
  a bucket of the table that holds the key, or the end of the table.\<close>

theorem kh_loops_end:
  assumes "kh_inv h" "kh_size h < KH_CAP"
  shows "(\<exists>i. kh_get h key = Some i \<and> (i = n_buckets h \<or> i < n_buckets h \<and> keys h ! i = key)) \<and>
    (\<exists>h' x ret. kh_put h key = Some (h', x, ret) \<and> x < n_buckets h' \<and> keys h' ! x = key)"
proof (rule conjI)
  show "\<exists>i. kh_get h key = Some i \<and> (i = n_buckets h \<or> i < n_buckets h \<and> keys h ! i = key)"
  proof (rule kh_get_cases [OF assms(1), of key], goal_cases)
    case (1 i)
    then have "i < n_buckets h" by (simp add: kh_live_def)
    then show ?case using 1(1,3) by blast
  next
    case 2
    then show ?case by blast
  qed
  show "\<exists>h' x ret. kh_put h key = Some (h', x, ret) \<and> x < n_buckets h' \<and> keys h' ! x = key"
  proof (rule kh_make_room [OF assms])
    fix h1
    assume h1: "(if n_occupied h \<ge> upper_bound h then
        kh_resize h (if n_buckets h > 2 * kh_size h mod 2 ^ 32 then n_buckets h - 1 else (n_buckets h + 1) mod 2 ^ 32)
        else Some h) = Some h1" "kh_inv h1" "n_buckets h1 \<noteq> 0"
    have len: "length (keys h1) = n_buckets h1" using h1(2) by (simp add: kh_inv_def kh_table_def)
    show ?thesis
    proof (rule kh_put_site_cases [OF h1(2,3), of key], goal_cases)
      case (1 i)
      then have "kh_put h key = Some (h1, i, 0)" "i < n_buckets h1"
        unfolding kh_put_def h1(1) by (auto simp: kh_live_def)
      then show ?case using 1(3) by blast
    next
      case (2 x)
      then have "kh_put h key = Some (kh_store h1 key x, x, if ac_isempty (flags h1) x then 1 else 2)"
        unfolding kh_put_def h1(1) by (auto simp: kh_store_def)
      moreover have "x < n_buckets (kh_store h1 key x)" "keys (kh_store h1 key x) ! x = key"
        using 2(2) len by (simp_all add: kh_store_def)
      ultimately show ?case by blast
    qed
  qed
qed

theorem kh_loops_end_witness:
  "kh_inv kh_init \<and> (\<exists>h' x ret. kh_put kh_init 77 = Some (h', x, ret) \<and> keys h' ! x = 77)"
  using kh_loops_end [of kh_init 77] kh_inv_init by (auto simp: kh_init_def KH_CAP_def)

end
