(* ===== verification/Ur_Map.thy ===== *)
theory Ur_Map
  imports Khash_Resize
begin

text \<open>
  The maps from 64-bit keys to 64-bit values of \<^verbatim>\<open>src/coturn/src/server/ns_turn_maps.c\<close>, on top of the hash table of
  \<^verbatim>\<open>ns_turn_khash.h\<close>. The server keeps its sessions, its TCP connections and the reserved RTCP sockets in them. The
  mutex of a map is left out: every operation runs under it. An outer \<open>None\<close> is an operation that does not return.
\<close>

section \<open>The map\<close>

record ur_map =
  um_h :: "khash option"
  um_magic :: u64


definition ur_map_create :: ur_map where
  "ur_map_create = \<lparr>um_h = Some kh_init, um_magic = MAGIC_HASH\<rparr>"

definition ur_map_valid :: "ur_map \<Rightarrow> bool" where
  "ur_map_valid m \<longleftrightarrow> um_h m \<noteq> None \<and> um_magic m = MAGIC_HASH"

definition kh_exist :: "khash \<Rightarrow> nat \<Rightarrow> bool" where
  "kh_exist h x \<longleftrightarrow> \<not> ac_iseither (flags h) x"

definition ur_map_put :: "ur_map \<Rightarrow> u64 \<Rightarrow> u64 \<Rightarrow> (int \<times> ur_map) option" where
  "ur_map_put m key val =
     (if \<not> ur_map_valid m then Some (- 1, m)
      else
        let h = the (um_h m) in
        Option.bind (kh_get h key) (\<lambda>k.
          let h = (if k \<noteq> n_buckets h then kh_del h k else h) in
          Option.bind (kh_put h key) (\<lambda>(h, k, ret). Some
            (if ret = 0 then (- 1, m\<lparr>um_h := Some (kh_del h k)\<rparr>)
             else (0, m\<lparr>um_h := Some (h\<lparr>vals := (vals h)[k := val]\<rparr>)\<rparr>)))))"

text \<open>\<open>Some v\<close> is the result 1 with \<^verbatim>\<open>*value = v\<close>, \<open>None\<close> the result 0.\<close>

definition ur_map_get :: "ur_map \<Rightarrow> u64 \<Rightarrow> u64 option option" where
  "ur_map_get m key =
     (if \<not> ur_map_valid m then Some None
      else
        let h = the (um_h m) in
        Option.bind (kh_get h key) (\<lambda>k.
          Some (if k \<noteq> n_buckets h \<and> kh_exist h k then Some (vals h ! k) else None)))"

text \<open>The result, the map after the deletion, and the value given to the deletion callback, if any.\<close>

definition ur_map_del :: "ur_map \<Rightarrow> u64 \<Rightarrow> (int \<times> ur_map \<times> u64 option) option" where
  "ur_map_del m key =
     (if \<not> ur_map_valid m then Some (0, m, None)
      else
        let h = the (um_h m) in
        Option.bind (kh_get h key) (\<lambda>k. Some
          (if k \<noteq> n_buckets h \<and> kh_exist h k then (1, m\<lparr>um_h := Some (kh_del h k)\<rparr>, Some (vals h ! k))
           else (0, m, None))))"

definition ur_map_exist :: "ur_map \<Rightarrow> u64 \<Rightarrow> int option" where
  "ur_map_exist m key =
     (if \<not> ur_map_valid m then Some 0
      else
        let h = the (um_h m) in
        Option.bind (kh_get h key) (\<lambda>k. Some (c_bool (k \<noteq> n_buckets h \<and> kh_exist h k))))"

text \<open>\<^verbatim>\<open>ur_map_free\<close> leaves the caller's pointer \<^verbatim>\<open>NULL\<close>.\<close>

definition ur_map_free :: "ur_map option \<Rightarrow> ur_map option" where
  "ur_map_free m = (case m of Some m' \<Rightarrow> if ur_map_valid m' then None else m | None \<Rightarrow> None)"

definition ur_map_size :: "ur_map \<Rightarrow> nat" where
  "ur_map_size m = (if ur_map_valid m then kh_size (the (um_h m)) else 0)"

fun kh_foreach :: "(u64 \<Rightarrow> u64 \<Rightarrow> 's \<Rightarrow> bool \<times> 's) \<Rightarrow> khash \<Rightarrow> nat list \<Rightarrow> 's \<Rightarrow> bool \<times> 's" where
  "kh_foreach func h [] s = (False, s)"
| "kh_foreach func h (k # ks) s =
     (if kh_exist h k then
        (case func (keys h ! k) (vals h ! k) s of (stop, s) \<Rightarrow> if stop then (True, s) else kh_foreach func h ks s)
      else kh_foreach func h ks s)"

definition ur_map_foreach_arg :: "ur_map \<Rightarrow> (u64 \<Rightarrow> u64 \<Rightarrow> 's \<Rightarrow> bool \<times> 's) \<Rightarrow> 's \<Rightarrow> int \<times> 's" where
  "ur_map_foreach_arg m func s =
     (if ur_map_valid m then
        let h = the (um_h m) in (case kh_foreach func h [0..<n_buckets h] s of (stop, s) \<Rightarrow> (c_bool stop, s))
      else (0, s))"

definition ur_map_foreach :: "ur_map \<Rightarrow> (u64 \<Rightarrow> u64 \<Rightarrow> bool) \<Rightarrow> int" where
  "ur_map_foreach m func = fst (ur_map_foreach_arg m (\<lambda>k v u. (func k v, u)) ())"

section \<open>The laws of the map\<close>

definition ur_map_inv :: "ur_map \<Rightarrow> bool" where
  "ur_map_inv m \<longleftrightarrow> ur_map_valid m \<and> kh_inv (the (um_h m))"

definition ur_map_bindings :: "ur_map \<Rightarrow> (u64 \<times> u64) set" where
  "ur_map_bindings m = kh_bindings (the (um_h m))"

lemma ur_map_inv_create: "ur_map_inv ur_map_create"
  by (simp add: ur_map_inv_def ur_map_create_def ur_map_valid_def kh_inv_init)

lemma ur_map_bindings_fun:
  "ur_map_inv m \<Longrightarrow> (k, v) \<in> ur_map_bindings m \<Longrightarrow> (k, v') \<in> ur_map_bindings m \<Longrightarrow> v = v'"
  using kh_bindings_card(2) [of "the (um_h m)"] by (force simp: ur_map_inv_def kh_inv_def ur_map_bindings_def inj_on_def)

lemma kh_live_exist: "i \<in> kh_live (n_buckets h) (flags h) \<longleftrightarrow> i < n_buckets h \<and> kh_exist h i"
  by (auto simp: kh_live_def kh_exist_def ac_iseither_iff)

lemma ur_map_get_bindings:
  assumes "ur_map_inv m"
  shows "\<exists>r. ur_map_get m key = Some r \<and> (\<forall>v. r = Some v \<longleftrightarrow> (key, v) \<in> ur_map_bindings m)"
proof -
  let ?h = "the (um_h m)"
  have i: "kh_inv ?h" "ur_map_valid m" using assms by (simp_all add: ur_map_inv_def)
  show ?thesis
  proof (rule kh_get_cases [OF i(1), of key], goal_cases)
    case (1 k)
    then have "k < n_buckets ?h" "kh_exist ?h k" by (simp_all add: kh_live_exist)
    then have g: "ur_map_get m key = Some (Some (vals ?h ! k))" using i(2) 1(1) by (simp add: ur_map_get_def Let_def)
    have b: "(key, vals ?h ! k) \<in> ur_map_bindings m"
      using 1(2,3) by (auto simp: ur_map_bindings_def kh_bindings_def kh_binding_def image_iff)
    have "Some (vals ?h ! k) = Some v \<longleftrightarrow> (key, v) \<in> ur_map_bindings m" for v
      using b ur_map_bindings_fun [OF assms b, of v] by blast
    then show ?case using g by blast
  next
    case 2
    then have "(key, v) \<notin> ur_map_bindings m" for v
      unfolding ur_map_bindings_def kh_bindings_def kh_binding_def by blast
    moreover have "ur_map_get m key = Some None" using 2(1) i(2) by (simp add: ur_map_get_def Let_def)
    ultimately show ?case by blast
  qed
qed

definition ur_map_look :: "ur_map \<Rightarrow> u64 \<Rightarrow> u64 option" where
  "ur_map_look m key = the (ur_map_get m key)"

lemma ur_map_get_look: "ur_map_inv m \<Longrightarrow> ur_map_get m key = Some (ur_map_look m key)"
  using ur_map_get_bindings [of m key] unfolding ur_map_look_def by force

lemma ur_map_look_bindings:
  assumes "ur_map_inv m"
  shows "ur_map_look m key = Some v \<longleftrightarrow> (key, v) \<in> ur_map_bindings m"
proof -
  obtain r where r: "ur_map_get m key = Some r" "\<forall>v. r = Some v \<longleftrightarrow> (key, v) \<in> ur_map_bindings m"
    using ur_map_get_bindings [OF assms] by blast
  show ?thesis unfolding ur_map_look_def r(1) option.sel using r(2) by blast
qed

lemma ur_map_look_eqI:
  assumes "ur_map_inv m" "\<And>k v. (k, v) \<in> ur_map_bindings m \<longleftrightarrow> f k = Some v"
  shows "ur_map_look m = f"
  using ur_map_look_bindings [OF assms(1)] assms(2) by (intro ext) (metis not_Some_eq)

lemma ur_map_dom:
  assumes "ur_map_inv m"
  shows "finite (dom (ur_map_look m))" "card (dom (ur_map_look m)) = kh_size (the (um_h m))"
proof -
  have d: "dom (ur_map_look m) = fst ` ur_map_bindings m"
    using ur_map_look_bindings [OF assms] by (force simp: dom_def)
  have t: "kh_table (the (um_h m))" using assms by (simp add: ur_map_inv_def kh_inv_def)
  show "finite (dom (ur_map_look m))" unfolding d by (simp add: ur_map_bindings_def kh_bindings_def)
  show "card (dom (ur_map_look m)) = kh_size (the (um_h m))"
    unfolding d ur_map_bindings_def using kh_bindings_card [OF t] by (simp add: card_image)
qed

lemma kh_inv_vals: "kh_inv h \<Longrightarrow> kh_inv (h\<lparr>vals := (vals h)[k := v]\<rparr>)"
  by (simp add: kh_inv_def kh_table_def)

lemma kh_size_bindings: "kh_inv h \<Longrightarrow> kh_size h = card (kh_bindings h)"
  using kh_bindings_card(1) [of h] by (simp add: kh_inv_def)

text \<open>Removing a key from the table, whether it is there or not, leaves a table without it.\<close>

lemma kh_unbind:
  assumes "kh_inv h"
  obtains k where "kh_get h key = Some k" "kh_inv (if k \<noteq> n_buckets h then kh_del h k else h)"
    "kh_bindings (if k \<noteq> n_buckets h then kh_del h k else h) = {(k', v) \<in> kh_bindings h. k' \<noteq> key}"
    "k \<noteq> n_buckets h \<longleftrightarrow> key \<in> fst ` kh_bindings h" "k \<noteq> n_buckets h \<Longrightarrow> kh_exist h k \<and> (key, vals h ! k) \<in> kh_bindings h"
proof (rule kh_get_cases [OF assms, of key])
  fix k
  assume g: "kh_get h key = Some k" "k \<in> kh_live (n_buckets h) (flags h)" "keys h ! k = key"
  have k: "k \<noteq> n_buckets h" "kh_exist h k" using g(2) by (simp_all add: kh_live_exist)
  have bi: "kh_binding h k = (key, vals h ! k)" using g(3) by (simp add: kh_binding_def)
  have b: "(key, vals h ! k) \<in> kh_bindings h" unfolding kh_bindings_def bi [symmetric] using g(2) by (rule imageI)
  have "v = vals h ! k" if "(key, v) \<in> kh_bindings h" for v
    using inj_onD [OF kh_bindings_card(2) _ that b] assms by (simp add: kh_inv_def)
  then have d: "kh_bindings h - {(key, vals h ! k)} = {(k', v) \<in> kh_bindings h. k' \<noteq> key}" using b by blast
  note del = kh_del_live [OF assms g(2), unfolded bi d]
  have m: "key \<in> fst ` kh_bindings h" using imageI [OF b, of fst] by simp
  show thesis by (rule that [OF g(1)]) (simp_all only: k b m del simp_thms if_True not_False_eq_True)
next
  assume g: "kh_get h key = Some (n_buckets h)" "\<And>i. i \<in> kh_live (n_buckets h) (flags h) \<Longrightarrow> keys h ! i \<noteq> key"
  have m: "key \<notin> fst ` kh_bindings h" using g(2) unfolding kh_bindings_def kh_binding_def image_image by auto
  then have d: "{(k', v) \<in> kh_bindings h. k' \<noteq> key} = kh_bindings h" by force
  show thesis by (rule that [OF g(1)]) (simp_all only: m d assms simp_thms if_False)
qed

lemma ur_map_put_laws:
  assumes "ur_map_inv m" "card (dom (ur_map_look m)) < KH_CAP"
  obtains m' where "ur_map_put m key v = Some (0, m')" "ur_map_inv m'" "ur_map_look m' = (ur_map_look m)(key \<mapsto> v)"
proof -
  let ?h = "the (um_h m)"
  have i: "ur_map_valid m" "kh_inv ?h" using assms(1) by (simp_all add: ur_map_inv_def)
  obtain k where k: "kh_get ?h key = Some k" "kh_inv (if k \<noteq> n_buckets ?h then kh_del ?h k else ?h)"
    "kh_bindings (if k \<noteq> n_buckets ?h then kh_del ?h k else ?h) = {(k', v) \<in> kh_bindings ?h. k' \<noteq> key}"
    by (rule kh_unbind [OF i(2), of key], rule that)
  define h1 where "h1 = (if k \<noteq> n_buckets ?h then kh_del ?h k else ?h)"
  note k' = k(2,3) [folded h1_def]
  have f: "finite (kh_bindings ?h)" by (simp add: kh_bindings_def)
  have "kh_size h1 \<le> kh_size ?h"
    unfolding kh_size_bindings [OF k'(1)] kh_size_bindings [OF i(2)] k'(2) by (rule card_mono [OF f]) auto
  then have sz: "kh_size h1 < KH_CAP" using assms ur_map_dom [OF assms(1)] by simp
  have ab: "key \<notin> fst ` kh_bindings h1" unfolding k'(2) by auto
  obtain h' x ret where p: "kh_put h1 key = Some (h', x, ret)" "ret \<noteq> 0" "kh_inv h'" "x < n_buckets h'"
    "\<And>v. kh_bindings (h'\<lparr>vals := (vals h')[x := v]\<rparr>) = insert (key, v) (kh_bindings h1)"
    by (rule kh_put_absent [OF k'(1) sz ab], rule that)
  define m' where "m' = m\<lparr>um_h := Some (h'\<lparr>vals := (vals h')[x := v]\<rparr>)\<rparr>"
  have e: "ur_map_put m key v = Some (0, m')"
    using i(1) k(1) p(1,2) by (simp add: ur_map_put_def Let_def h1_def [symmetric] m'_def)
  have inv: "ur_map_inv m'" using assms(1) kh_inv_vals [OF p(3)] by (simp add: ur_map_inv_def ur_map_valid_def m'_def)
  have "(k2, v2) \<in> ur_map_bindings m' \<longleftrightarrow> ((ur_map_look m)(key \<mapsto> v)) k2 = Some v2" for k2 v2
    using ur_map_look_bindings [OF assms(1)] unfolding ur_map_bindings_def m'_def by (auto simp: p(5) k'(2))
  then show ?thesis using that [OF e inv] ur_map_look_eqI [OF inv] by blast
qed

lemma ur_map_del_laws:
  assumes "ur_map_inv m"
  obtains m' where "ur_map_del m key = Some (c_bool (key \<in> dom (ur_map_look m)), m', ur_map_look m key)"
    "ur_map_inv m'" "ur_map_look m' = (ur_map_look m)(key := None)"
proof -
  let ?h = "the (um_h m)"
  have i: "ur_map_valid m" "kh_inv ?h" using assms(1) by (simp_all add: ur_map_inv_def)
  obtain k where k: "kh_get ?h key = Some k" "kh_inv (if k \<noteq> n_buckets ?h then kh_del ?h k else ?h)"
    "kh_bindings (if k \<noteq> n_buckets ?h then kh_del ?h k else ?h) = {(k', v) \<in> kh_bindings ?h. k' \<noteq> key}"
    "k \<noteq> n_buckets ?h \<longleftrightarrow> key \<in> fst ` kh_bindings ?h" "k \<noteq> n_buckets ?h \<Longrightarrow> kh_exist ?h k \<and> (key, vals ?h ! k) \<in> kh_bindings ?h"
    by (rule kh_unbind [OF i(2), of key], rule that)
  define m' where "m' = m\<lparr>um_h := Some (if k \<noteq> n_buckets ?h then kh_del ?h k else ?h)\<rparr>"
  have m: "m' = m" if "k = n_buckets ?h" using that i(1) by (simp add: m'_def ur_map_valid_def)
  have l: "ur_map_look m key = (if k \<noteq> n_buckets ?h then Some (vals ?h ! k) else None)"
  proof (cases "k = n_buckets ?h")
    case True
    then have "key \<notin> fst ` ur_map_bindings m" using k(4) by (simp add: ur_map_bindings_def)
    then have "ur_map_look m key \<noteq> Some v" for v
      unfolding ur_map_look_bindings [OF assms] using imageI [of "(key, v)" "ur_map_bindings m" fst] by auto
    then show ?thesis using True by (cases "ur_map_look m key") auto
  next
    case False
    then have "(key, vals ?h ! k) \<in> ur_map_bindings m" using k(5) by (simp add: ur_map_bindings_def)
    then show ?thesis using False ur_map_look_bindings [OF assms] by simp
  qed
  have e: "ur_map_del m key = Some (c_bool (key \<in> dom (ur_map_look m)), m', ur_map_look m key)"
    using i(1) k(1,5) m by (auto simp: ur_map_del_def Let_def l m'_def dom_def)
  have inv: "ur_map_inv m'" using assms k(2) by (simp add: ur_map_inv_def ur_map_valid_def m'_def)
  have "(k2, v2) \<in> ur_map_bindings m' \<longleftrightarrow> ((ur_map_look m)(key := None)) k2 = Some v2" for k2 v2
    using ur_map_look_bindings [OF assms(1)] unfolding ur_map_bindings_def m'_def by (auto simp: k(3))
  then show ?thesis using that [OF e inv] ur_map_look_eqI [OF inv] by blast
qed

definition ur_map_ins :: "ur_map \<Rightarrow> u64 \<Rightarrow> u64 \<Rightarrow> ur_map" where
  "ur_map_ins m key v = snd (the (ur_map_put m key v))"

definition ur_map_rem :: "ur_map \<Rightarrow> u64 \<Rightarrow> ur_map" where
  "ur_map_rem m key = fst (snd (the (ur_map_del m key)))"

interpretation um: capped_map ur_map_look ur_map_ins ur_map_rem ur_map_inv KH_CAP
proof (unfold_locales, goal_cases)
  case (1 m)
  then show ?case by (rule ur_map_dom)
next
  case (2 m k v)
  then show ?case using ur_map_put_laws [of m k v] unfolding ur_map_ins_def by (metis option.sel snd_conv)
next
  case (3 m k v)
  then show ?case using ur_map_put_laws [of m k v] unfolding ur_map_ins_def by (metis option.sel snd_conv)
next
  case (4 m k)
  then show ?case using ur_map_del_laws [of m k] unfolding ur_map_rem_def by (metis option.sel fst_conv snd_conv)
next
  case (5 m k)
  then show ?case using ur_map_del_laws [of m k] unfolding ur_map_rem_def by (metis option.sel fst_conv snd_conv)
qed

section \<open>Iteration\<close>

definition ur_map_entries :: "ur_map \<Rightarrow> (u64 \<times> u64) list" where
  "ur_map_entries m =
     (let h = the (um_h m) in map (kh_binding h) (filter (kh_exist h) [0..<n_buckets h]))"

lemma ur_map_entries_distinct:
  assumes "ur_map_inv m"
  shows "distinct (map fst (ur_map_entries m))" "set (ur_map_entries m) = {(k, v). ur_map_look m k = Some v}"
    "length (ur_map_entries m) = ur_map_size m"
proof -
  let ?h = "the (um_h m)"
  have t: "kh_table ?h" and v: "ur_map_valid m" using assms by (simp_all add: ur_map_inv_def kh_inv_def)
  have l: "set (filter (kh_exist ?h) [0..<n_buckets ?h]) = kh_live (n_buckets ?h) (flags ?h)"
    using kh_live_exist [of _ ?h] by auto
  have e: "set (ur_map_entries m) = ur_map_bindings m"
    unfolding ur_map_entries_def ur_map_bindings_def kh_bindings_def Let_def set_map l ..
  then show s: "set (ur_map_entries m) = {(k, v). ur_map_look m k = Some v}"
    using ur_map_look_bindings [OF assms] by auto
  have "inj_on (fst \<circ> kh_binding ?h) (kh_live (n_buckets ?h) (flags ?h))"
    using t by (simp add: kh_table_def inj_on_def kh_binding_def)
  then show "distinct (map fst (ur_map_entries m))"
    unfolding ur_map_entries_def Let_def map_map by (subst distinct_map) (simp add: l del: set_filter)
  have "length (ur_map_entries m) = card (set (filter (kh_exist ?h) [0..<n_buckets ?h]))"
    unfolding ur_map_entries_def Let_def length_map by (rule distinct_card [symmetric]) simp
  then show "length (ur_map_entries m) = ur_map_size m"
    unfolding l using t v by (simp add: ur_map_size_def kh_table_def)
qed

section \<open>Properties\<close>

datatype ur_op = Ur_put u64 u64 | Ur_del u64

fun ur_run :: "ur_op list \<Rightarrow> ur_map \<Rightarrow> ur_map option" where
  "ur_run [] m = Some m"
| "ur_run (Ur_put k v # ops) m = Option.bind (ur_map_put m k v) (\<lambda>(r, m). ur_run ops m)"
| "ur_run (Ur_del k # ops) m = Option.bind (ur_map_del m k) (\<lambda>(r, m, d). ur_run ops m)"

fun ur_spec :: "ur_op list \<Rightarrow> (u64 \<rightharpoonup> u64) \<Rightarrow> (u64 \<rightharpoonup> u64)" where
  "ur_spec [] f = f"
| "ur_spec (Ur_put k v # ops) f = ur_spec ops (f(k \<mapsto> v))"
| "ur_spec (Ur_del k # ops) f = ur_spec ops (f(k := None))"

lemma ur_run_spec:
  assumes "ur_map_inv m" "card (dom (ur_map_look m)) + length ops \<le> KH_CAP"
  shows "\<exists>m'. ur_run ops m = Some m' \<and> ur_map_inv m' \<and> ur_map_look m' = ur_spec ops (ur_map_look m)"
  using assms
proof (induction ops m rule: ur_run.induct)
  case (2 k v ops m)
  obtain m1 where m1: "ur_map_put m k v = Some (0, m1)" "ur_map_inv m1" "ur_map_look m1 = (ur_map_look m)(k \<mapsto> v)"
    using ur_map_put_laws [OF 2(2), of k v] 2(3) by auto
  have "card (dom (ur_map_look m1)) \<le> Suc (card (dom (ur_map_look m)))"
    unfolding m1(3) using ur_map_dom(1) [OF 2(2)] by (simp add: card_insert_if)
  then show ?case using 2 m1 by auto
next
  case (3 k ops m)
  obtain m1 where m1: "ur_map_del m k = Some (c_bool (k \<in> dom (ur_map_look m)), m1, ur_map_look m k)" "ur_map_inv m1"
    "ur_map_look m1 = (ur_map_look m)(k := None)" by (rule ur_map_del_laws [OF 3(2)])
  have "card (dom (ur_map_look m1)) \<le> card (dom (ur_map_look m))"
    unfolding m1(3) using ur_map_dom(1) [OF 3(2)] by (simp add: card_mono)
  then show ?case using 3 m1 by auto
qed simp

lemma ur_map_look_create: "ur_map_look ur_map_create = Map.empty"
  by (simp add: fun_eq_iff ur_map_look_def ur_map_get_def ur_map_valid_def ur_map_create_def kh_get_def kh_init_def)

text \<open>\<^bold>\<open>C5\<close>: every sequence of up to 393217 insertions and deletions on a new map returns and leaves a map
  that answers each lookup as the finite map with the same updates does, and whose size is the number of its keys.
  The table is resized and rehashed on the way as the code decides.\<close>

theorem ur_map_refines:
  assumes "length ops \<le> KH_CAP"
  shows "\<exists>m. ur_run ops ur_map_create = Some m \<and> (\<forall>k. ur_map_get m k = Some (ur_spec ops Map.empty k)) \<and>
    ur_map_size m = card (dom (ur_spec ops Map.empty))"
proof -
  obtain m where m: "ur_run ops ur_map_create = Some m" "ur_map_inv m" "ur_map_look m = ur_spec ops Map.empty"
    using ur_run_spec [OF ur_map_inv_create, of ops] assms by (auto simp: ur_map_look_create)
  then have "ur_map_size m = card (dom (ur_spec ops Map.empty))"
    using ur_map_dom(2) [OF m(2)] by (simp add: ur_map_size_def ur_map_inv_def)
  then show ?thesis using m ur_map_get_look [OF m(2)] by auto
qed

theorem ur_map_refines_witness:
  "\<exists>m. ur_run [Ur_put 5 7, Ur_put 5 9, Ur_put 16 1, Ur_del 5] ur_map_create = Some m \<and>
     ur_map_get m 16 = Some (Some 1) \<and> ur_map_get m 5 = Some None"
  using ur_map_refines [of "[Ur_put 5 7, Ur_put 5 9, Ur_put 16 1, Ur_del 5]"] by (auto simp: KH_CAP_def)

end
