(* ===== verification/Lm_Map.thy ===== *)
theory Lm_Map
  imports Map_Spec
begin

text \<open>
  The "local" map of \<^verbatim>\<open>src/coturn/src/server/ns_turn_maps.c\<close>: eight buckets, selected by the low bits of the
  key, each with three inline slots and a growing array of extra slots. A slot is free when its key or its value
  is zero. The parallel arrays \<^verbatim>\<open>main_keys\<close>/\<^verbatim>\<open>main_values\<close> and \<^verbatim>\<open>extra_keys\<close>/\<^verbatim>\<open>extra_values\<close> are lists of pairs;
  every extra slot the code creates is allocated at once, so the branch of \<^verbatim>\<open>lm_map_put\<close> for an unallocated
  extra slot is never taken and is left out. Callbacks on deleted values are recorded as the list of values
  handed to them.
\<close>

section \<open>The map\<close>

type_synonym lm_slot = "u64 \<times> u64"

record lm_map_array =
  main :: "lm_slot list"
  extra :: "lm_slot list"

type_synonym lm_map = "lm_map_array list"

definition LM_MAP_HASH_SIZE :: nat where "LM_MAP_HASH_SIZE = 8"
definition LM_MAP_ARRAY_SIZE :: nat where "LM_MAP_ARRAY_SIZE = 3"

lemmas lm_consts = LM_MAP_HASH_SIZE_def LM_MAP_ARRAY_SIZE_def

definition lm_index :: "u64 \<Rightarrow> nat" where
  "lm_index key = unat (key AND (of_nat LM_MAP_HASH_SIZE - 1))"

definition lm_array_zero :: lm_map_array where
  "lm_array_zero = \<lparr>main = replicate LM_MAP_ARRAY_SIZE (0, 0), extra = []\<rparr>"

definition lm_map_init :: lm_map where
  "lm_map_init = replicate LM_MAP_HASH_SIZE lm_array_zero"

fun lm_put_main :: "lm_slot list \<Rightarrow> u64 \<Rightarrow> u64 \<Rightarrow> (int \<times> lm_slot list) option" where
  "lm_put_main [] key value = None"
| "lm_put_main ((key0, value0) # s) key value =
     (if key0 = key then (if value0 = value then Some (0, (key0, value0) # s) else Some (- 1, (key0, value0) # s))
      else if key0 = 0 \<or> value0 = 0 then Some (0, (key, value) # s)
      else map_option (\<lambda>(r, s'). (r, (key0, value0) # s')) (lm_put_main s key value))"

fun lm_put_extra :: "lm_slot list \<Rightarrow> u64 \<Rightarrow> u64 \<Rightarrow> lm_slot list" where
  "lm_put_extra [] key value = [(key, value)]"
| "lm_put_extra ((key0, value0) # s) key value =
     (if key0 = 0 \<or> value0 = 0 then (key, value) # s else (key0, value0) # lm_put_extra s key value)"

definition lm_map_put :: "lm_map \<Rightarrow> u64 \<Rightarrow> u64 \<Rightarrow> int \<times> lm_map" where
  "lm_map_put m key value =
     (if key \<noteq> 0 \<and> value \<noteq> 0 then
        let index = lm_index key; a = m ! index in
        (case lm_put_main (main a) key value of
           Some (r, s) \<Rightarrow> (r, m[index := a\<lparr>main := s\<rparr>])
         | None \<Rightarrow> (0, m[index := a\<lparr>extra := lm_put_extra (extra a) key value\<rparr>]))
      else (- 1, m))"

fun lm_get_main :: "lm_slot list \<Rightarrow> u64 \<Rightarrow> u64 option" where
  "lm_get_main [] key = None"
| "lm_get_main ((key0, value0) # s) key =
     (if key0 = key \<and> value0 \<noteq> 0 then Some value0 else lm_get_main s key)"

fun lm_get_extra :: "lm_slot list \<Rightarrow> u64 \<Rightarrow> u64 option" where
  "lm_get_extra [] key = None"
| "lm_get_extra ((key0, value0) # s) key = (if key0 = key then Some value0 else lm_get_extra s key)"

text \<open>\<open>Some v\<close> is the result 1 with \<^verbatim>\<open>*value = v\<close>, \<open>None\<close> the result 0.\<close>

definition lm_map_get :: "lm_map \<Rightarrow> u64 \<Rightarrow> u64 option" where
  "lm_map_get m key =
     (if key \<noteq> 0 then
        let a = m ! lm_index key in
        (case lm_get_main (main a) key of Some v \<Rightarrow> Some v | None \<Rightarrow> lm_get_extra (extra a) key)
      else None)"

fun lm_del_main :: "lm_slot list \<Rightarrow> u64 \<Rightarrow> (u64 \<times> lm_slot list) option" where
  "lm_del_main [] key = None"
| "lm_del_main ((key0, value0) # s) key =
     (if key0 = key \<and> value0 \<noteq> 0 then Some (value0, (0, 0) # s)
      else map_option (\<lambda>(v, s'). (v, (key0, value0) # s')) (lm_del_main s key))"

fun lm_del_extra :: "lm_slot list \<Rightarrow> u64 \<Rightarrow> (u64 \<times> lm_slot list) option" where
  "lm_del_extra [] key = None"
| "lm_del_extra ((key0, value0) # s) key =
     (if key0 = key then Some (value0, (0, 0) # s)
      else map_option (\<lambda>(v, s'). (v, (key0, value0) # s')) (lm_del_extra s key))"

text \<open>The result, the map after the deletion, and the value given to the deletion callback, if any.\<close>

definition lm_map_del :: "lm_map \<Rightarrow> u64 \<Rightarrow> int \<times> lm_map \<times> u64 option" where
  "lm_map_del m key =
     (if key \<noteq> 0 then
        let index = lm_index key; a = m ! index in
        (case lm_del_main (main a) key of
           Some (v, s) \<Rightarrow> (1, m[index := a\<lparr>main := s\<rparr>], Some v)
         | None \<Rightarrow>
             (case lm_del_extra (extra a) key of
                Some (v, s) \<Rightarrow> (1, m[index := a\<lparr>extra := s\<rparr>], Some v)
              | None \<Rightarrow> (0, m, None)))
      else (0, m, None))"

definition lm_map_exist :: "lm_map \<Rightarrow> u64 \<Rightarrow> int" where
  "lm_map_exist m key = c_bool (lm_map_get m key \<noteq> None)"

definition lm_map_clean :: "lm_map \<Rightarrow> lm_map" where
  "lm_map_clean m = lm_map_init"

definition lm_slots :: "lm_map_array \<Rightarrow> lm_slot list" where
  "lm_slots a = main a @ extra a"

definition lm_map_size :: "lm_map \<Rightarrow> nat" where
  "lm_map_size m =
     fold (\<lambda>a ret. fold (\<lambda>(k, v) ret. if k \<noteq> 0 \<and> v \<noteq> 0 then ret + 1 else ret) (lm_slots a) ret) m 0"

text \<open>
  The callback returns whether to stop and threads the state it works on, the \<^verbatim>\<open>arg\<close> of \<^verbatim>\<open>lm_map_foreach_arg\<close>.
\<close>

fun lm_slots_foreach :: "(u64 \<Rightarrow> u64 \<Rightarrow> 's \<Rightarrow> bool \<times> 's) \<Rightarrow> lm_slot list \<Rightarrow> 's \<Rightarrow> bool \<times> 's" where
  "lm_slots_foreach func [] s = (False, s)"
| "lm_slots_foreach func ((k, v) # sl) s =
     (if k \<noteq> 0 \<and> v \<noteq> 0 then
        case func k v s of (stop, s') \<Rightarrow> if stop then (True, s') else lm_slots_foreach func sl s'
      else lm_slots_foreach func sl s)"

fun lm_table_foreach :: "(u64 \<Rightarrow> u64 \<Rightarrow> 's \<Rightarrow> bool \<times> 's) \<Rightarrow> lm_map_array list \<Rightarrow> 's \<Rightarrow> bool \<times> 's" where
  "lm_table_foreach func [] s = (False, s)"
| "lm_table_foreach func (a # t) s =
     (case lm_slots_foreach func (lm_slots a) s of
        (stop, s') \<Rightarrow> if stop then (True, s') else lm_table_foreach func t s')"

definition lm_map_foreach_arg :: "lm_map \<Rightarrow> (u64 \<Rightarrow> u64 \<Rightarrow> 's \<Rightarrow> bool \<times> 's) \<Rightarrow> 's \<Rightarrow> int \<times> 's" where
  "lm_map_foreach_arg m func s = (case lm_table_foreach func m s of (stop, s') \<Rightarrow> (c_bool stop, s'))"

definition lm_map_foreach :: "lm_map \<Rightarrow> (u64 \<Rightarrow> u64 \<Rightarrow> bool) \<Rightarrow> int" where
  "lm_map_foreach m func = fst (lm_map_foreach_arg m (\<lambda>k v u. (func k v, u)) ())"

section \<open>Slots of one bucket\<close>

definition slot_ok :: "nat \<Rightarrow> lm_slot \<Rightarrow> bool" where
  "slot_ok i kv \<longleftrightarrow> kv = (0, 0) \<or> fst kv \<noteq> 0 \<and> snd kv \<noteq> 0 \<and> lm_index (fst kv) = i"

definition slots_ok :: "nat \<Rightarrow> lm_slot list \<Rightarrow> bool" where
  "slots_ok i sl \<longleftrightarrow> list_all (slot_ok i) sl \<and> distinct (filter (\<lambda>k. k \<noteq> 0) (map fst sl))"

lemma lm_index_less: "lm_index k < LM_MAP_HASH_SIZE"
proof -
  have "k AND 7 = take_bit 3 k" by (simp add: take_bit_eq_mask mask_eq_exp_minus_1)
  then have "unat (k AND 7) = take_bit 3 (unat k)" by (simp add: unsigned_take_bit_eq)
  then show ?thesis using take_bit_nat_less_exp [of 3 "unat k"] by (simp add: lm_index_def lm_consts)
qed

text \<open>What the search loops do to the slots of a bucket: fill a free one, clear an occupied one.\<close>

inductive slots_fill :: "u64 \<Rightarrow> u64 \<Rightarrow> lm_slot list \<Rightarrow> lm_slot list \<Rightarrow> bool" for k v where
  here: "fst x = 0 \<or> snd x = 0 \<Longrightarrow> slots_fill k v (x # s) ((k, v) # s)"
| there: "slots_fill k v s s' \<Longrightarrow> slots_fill k v (x # s) (x # s')"

inductive slots_clear :: "u64 \<Rightarrow> u64 \<Rightarrow> lm_slot list \<Rightarrow> lm_slot list \<Rightarrow> bool" for k v where
  clear_here: "slots_clear k v ((k, v) # s) ((0, 0) # s)"
| clear_there: "slots_clear k v s s' \<Longrightarrow> slots_clear k v (x # s) (x # s')"

definition slots_store :: "u64 \<Rightarrow> u64 \<Rightarrow> lm_slot list \<Rightarrow> lm_slot list \<Rightarrow> bool" where
  "slots_store k v sl sl' \<longleftrightarrow> slots_fill k v sl sl' \<or> sl' = sl @ [(k, v)]"

lemma slots_fill_append: "slots_fill k v s s' \<Longrightarrow> slots_fill k v (s @ t) (s' @ t)"
  by (induction rule: slots_fill.induct) (auto intro: slots_fill.intros)

lemma slots_fill_prepend: "slots_fill k v s s' \<Longrightarrow> slots_fill k v (t @ s) (t @ s')"
  by (induction t) (auto intro: slots_fill.intros)

lemma slots_clear_append: "slots_clear k v s s' \<Longrightarrow> slots_clear k v (s @ t) (s' @ t)"
  by (induction rule: slots_clear.induct) (auto intro: slots_clear.intros)

lemma slots_clear_prepend: "slots_clear k v s s' \<Longrightarrow> slots_clear k v (t @ s) (t @ s')"
  by (induction t) (auto intro: slots_clear.intros)

lemma slots_fill_length: "slots_fill k v s s' \<Longrightarrow> length s' = length s"
  by (induction rule: slots_fill.induct) simp_all

lemma slots_clear_length: "slots_clear k v s s' \<Longrightarrow> length s' = length s"
  by (induction rule: slots_clear.induct) simp_all

lemma lm_put_main_fill:
  "lm_put_main s k v = Some (r, s') \<Longrightarrow> k \<notin> fst ` set s \<Longrightarrow> r = 0 \<and> slots_fill k v s s'"
  by (induction s k v arbitrary: r s' rule: lm_put_main.induct)
    (auto split: if_splits intro: slots_fill.intros)

lemma lm_put_extra_store: "slots_store k v s (lm_put_extra s k v)"
  by (induction s k v rule: lm_put_extra.induct) (auto simp: slots_store_def intro: slots_fill.intros)

lemma lm_del_main_clear: "lm_del_main s k = Some (v, s') \<Longrightarrow> v \<noteq> 0 \<and> slots_clear k v s s'"
  by (induction s k arbitrary: s' rule: lm_del_main.induct) (auto split: if_splits intro: slots_clear.intros)

lemma lm_del_extra_clear: "lm_del_extra s k = Some (v, s') \<Longrightarrow> slots_clear k v s s'"
  by (induction s k arbitrary: s' rule: lm_del_extra.induct) (auto split: if_splits intro: slots_clear.intros)

lemma lm_del_main_None: "lm_del_main s k = None \<longleftrightarrow> lm_get_main s k = None"
  by (induction s k rule: lm_del_main.induct) auto

lemma lm_del_extra_None: "lm_del_extra s k = None \<longleftrightarrow> lm_get_extra s k = None"
  by (induction s k rule: lm_del_extra.induct) auto

lemma lm_get_extra_map_of: "lm_get_extra s k = map_of s k"
  by (induction s k rule: lm_get_extra.induct) auto

lemma lm_get_main_map_of: "list_all (slot_ok i) s \<Longrightarrow> k \<noteq> 0 \<Longrightarrow> lm_get_main s k = map_of s k"
  by (induction s k rule: lm_get_main.induct) (auto simp: slot_ok_def)

text \<open>The effect of a store and of a clear on lookups, and that they keep the bucket well formed.\<close>

lemma map_of_fill:
  "slots_fill k v s s' \<Longrightarrow> list_all (slot_ok i) s \<Longrightarrow> k \<notin> fst ` set s \<Longrightarrow> j \<noteq> 0 \<Longrightarrow>
     map_of s' j = (if k = j then Some v else map_of s j)"
  by (induction rule: slots_fill.induct) (auto simp: slot_ok_def)

lemma map_of_clear:
  "slots_clear k v s s' \<Longrightarrow> distinct (filter (\<lambda>k. k \<noteq> 0) (map fst s)) \<Longrightarrow> k \<noteq> 0 \<Longrightarrow> j \<noteq> 0 \<Longrightarrow>
     map_of s' j = (if k = j then None else map_of s j) \<and> map_of s k = Some v \<and> set (map fst s') \<subseteq> insert 0 (set (map fst s))"
proof (induction rule: slots_clear.induct)
  case (clear_here s)
  then have "map_of s k = None" by (simp add: map_of_eq_None_iff)
  then show ?case using clear_here by auto
next
  case (clear_there s s' x)
  then have "fst x \<noteq> k \<or> map_of s k = None" by (cases x) (auto simp: map_of_eq_None_iff split: if_splits)
  then show ?case using clear_there by (cases x) (auto split: if_splits)
qed

lemma fill_keys: "slots_fill k v s s' \<Longrightarrow> set s' \<subseteq> insert (k, v) (set s)"
  by (induction rule: slots_fill.induct) auto

lemma clear_keys: "slots_clear k v s s' \<Longrightarrow> set s' \<subseteq> insert (0, 0) (set s)"
  by (induction rule: slots_clear.induct) auto

lemma fill_distinct:
  "slots_fill k v s s' \<Longrightarrow> list_all (slot_ok i) s \<Longrightarrow> distinct (filter (\<lambda>k. k \<noteq> 0) (map fst s)) \<Longrightarrow>
     k \<notin> fst ` set s \<Longrightarrow> k \<noteq> 0 \<Longrightarrow> distinct (filter (\<lambda>k. k \<noteq> 0) (map fst s'))"
proof (induction rule: slots_fill.induct)
  case (there s s' x)
  then show ?case using fill_keys [of k v s s'] by (cases x) (force split: if_splits)
qed (auto simp: slot_ok_def split: if_splits)

lemma clear_distinct:
  "slots_clear k v s s' \<Longrightarrow> distinct (filter (\<lambda>k. k \<noteq> 0) (map fst s)) \<Longrightarrow>
     distinct (filter (\<lambda>k. k \<noteq> 0) (map fst s'))"
proof (induction rule: slots_clear.induct)
  case (clear_there s s' x)
  then show ?case using clear_keys [of k v s s'] by (cases x) (force split: if_splits)
qed (auto split: if_splits)

lemma slots_store_ok:
  assumes "slots_store k v sl sl'" "slots_ok i sl" "map_of sl k = None" "k \<noteq> 0" "v \<noteq> 0" "lm_index k = i"
  shows "slots_ok i sl'" "j \<noteq> 0 \<Longrightarrow> map_of sl' j = (if k = j then Some v else map_of sl j)"
proof -
  have n: "k \<notin> fst ` set sl" using assms(3) by (simp add: map_of_eq_None_iff)
  have k: "slot_ok i (k, v)" using assms(4-6) by (simp add: slot_ok_def)
  show "slots_ok i sl'" using assms(1,2,4) n k fill_keys [of k v sl sl'] fill_distinct [of k v sl sl' i]
    by (auto simp: slots_ok_def slots_store_def list_all_iff)
  show "j \<noteq> 0 \<Longrightarrow> map_of sl' j = (if k = j then Some v else map_of sl j)"
    using assms(1-3) n map_of_fill [of k v sl sl' i j]
    by (auto simp: slots_ok_def slots_store_def map_add_def split: option.splits)
qed

lemma slots_clear_ok:
  assumes "slots_clear k v sl sl'" "slots_ok i sl" "k \<noteq> 0"
  shows "slots_ok i sl'" "j \<noteq> 0 \<Longrightarrow> map_of sl' j = (if k = j then None else map_of sl j)"
    "map_of sl k = Some v"
  using assms clear_keys [of k v sl sl'] clear_distinct [of k v sl sl'] map_of_clear [of k v sl sl' j]
    map_of_clear [of k v sl sl' k]
  by (auto simp: slots_ok_def list_all_iff slot_ok_def)

section \<open>The invariant and the laws of the map\<close>

definition lm_array_ok :: "nat \<Rightarrow> lm_map_array \<Rightarrow> bool" where
  "lm_array_ok i a \<longleftrightarrow> length (main a) = LM_MAP_ARRAY_SIZE \<and> slots_ok i (lm_slots a)"

definition lm_inv :: "lm_map \<Rightarrow> bool" where
  "lm_inv m \<longleftrightarrow> length m = LM_MAP_HASH_SIZE \<and> list_all (\<lambda>i. lm_array_ok i (m ! i)) [0..<LM_MAP_HASH_SIZE]"

lemma lm_inv_bucket: "lm_inv m \<Longrightarrow> lm_array_ok (lm_index k) (m ! lm_index k)"
  using lm_index_less by (simp add: lm_inv_def list_all_iff)

lemma lm_inv_update: "lm_inv m \<Longrightarrow> lm_array_ok (lm_index k) a \<Longrightarrow> lm_inv (m[lm_index k := a])"
  using lm_index_less [of k] by (auto simp: lm_inv_def list_all_iff nth_list_update)

lemma lm_inv_init: "lm_inv lm_map_init"
  by (simp add: lm_inv_def lm_map_init_def lm_array_ok_def lm_array_zero_def lm_slots_def slots_ok_def slot_ok_def
      list_all_iff)

lemma lm_map_get_map_of:
  "lm_inv m \<Longrightarrow> k \<noteq> 0 \<Longrightarrow> lm_map_get m k = map_of (lm_slots (m ! lm_index k)) k"
  using lm_inv_bucket [of m k] lm_get_main_map_of [of "lm_index k" "main (m ! lm_index k)" k]
  by (auto simp: lm_map_get_def Let_def lm_array_ok_def slots_ok_def lm_slots_def lm_get_extra_map_of map_add_def
      split: option.splits)

lemma lm_map_get_update:
  assumes "lm_inv m" "lm_array_ok (lm_index k) a" "j \<noteq> 0"
  shows "lm_map_get (m[lm_index k := a]) j =
    (if lm_index j = lm_index k then map_of (lm_slots a) j else lm_map_get m j)"
proof -
  have "length m = LM_MAP_HASH_SIZE" using assms(1) by (simp add: lm_inv_def)
  then show ?thesis
    using assms lm_index_less [of k] by (simp add: lm_map_get_map_of lm_inv_update nth_list_update)
qed

text \<open>A put of an absent key stores it in its bucket and returns 0; a deletion clears its slot.\<close>

lemma lm_map_put_store:
  assumes "lm_inv m" "k \<noteq> 0" "v \<noteq> 0" "lm_map_get m k = None"
  obtains a where "lm_map_put m k v = (0, m[lm_index k := a])"
    "length (main a) = LM_MAP_ARRAY_SIZE" "slots_store k v (lm_slots (m ! lm_index k)) (lm_slots a)"
proof (cases "lm_put_main (main (m ! lm_index k)) k v")
  case None
  then show ?thesis
    using that [of "(m ! lm_index k)\<lparr>extra := lm_put_extra (extra (m ! lm_index k)) k v\<rparr>"] assms
      lm_inv_bucket [of m k] lm_put_extra_store [of k v "extra (m ! lm_index k)"]
    by (auto simp: lm_map_put_def Let_def lm_array_ok_def lm_slots_def slots_store_def intro: slots_fill_prepend)
next
  case (Some rs)
  obtain r s where rs: "rs = (r, s)" by fastforce
  have n: "k \<notin> fst ` set (main (m ! lm_index k))"
    using assms(1,2,4) by (auto simp: lm_map_get_map_of map_of_eq_None_iff lm_slots_def)
  have "r = 0" "slots_fill k v (main (m ! lm_index k)) s"
    using lm_put_main_fill [of _ k v r s] Some rs n by auto
  then show ?thesis
    using that [of "(m ! lm_index k)\<lparr>main := s\<rparr>"] assms Some rs lm_inv_bucket [of m k] slots_fill_length
    by (auto simp: lm_map_put_def Let_def lm_array_ok_def lm_slots_def slots_store_def intro: slots_fill_append)
qed

lemma lm_map_del_cases:
  assumes "lm_inv m" "k \<noteq> 0"
  obtains "lm_map_get m k = None" "lm_map_del m k = (0, m, None)"
  | a v where "lm_map_del m k = (1, m[lm_index k := a], Some v)" "length (main a) = LM_MAP_ARRAY_SIZE"
    "slots_clear k v (lm_slots (m ! lm_index k)) (lm_slots a)"
proof (cases "lm_del_main (main (m ! lm_index k)) k")
  case Some
  then obtain v s where s: "lm_del_main (main (m ! lm_index k)) k = Some (v, s)" by fastforce
  then have "slots_clear k v (main (m ! lm_index k)) s" by (simp add: lm_del_main_clear)
  then show ?thesis
    using that(2) [of "(m ! lm_index k)\<lparr>main := s\<rparr>" v] assms s lm_inv_bucket [of m k]
    by (auto simp: lm_map_del_def Let_def lm_array_ok_def lm_slots_def slots_clear_length intro: slots_clear_append)
next
  case None
  show ?thesis
  proof (cases "lm_del_extra (extra (m ! lm_index k)) k")
    case Some
    then obtain v s where s: "lm_del_extra (extra (m ! lm_index k)) k = Some (v, s)" by fastforce
    then have "slots_clear k v (extra (m ! lm_index k)) s" by (simp add: lm_del_extra_clear)
    then show ?thesis
      using that(2) [of "(m ! lm_index k)\<lparr>extra := s\<rparr>" v] assms s None lm_inv_bucket [of m k]
      by (auto simp: lm_map_del_def Let_def lm_array_ok_def lm_slots_def intro: slots_clear_prepend)
  next
    case none: None
    then have "lm_get_main (main (m ! lm_index k)) k = None" "lm_get_extra (extra (m ! lm_index k)) k = None"
      using None by (simp_all flip: lm_del_main_None lm_del_extra_None)
    then show ?thesis using that(1) assms None none by (simp add: lm_map_del_def Let_def lm_map_get_def)
  qed
qed

lemma lm_map_put_fresh:
  assumes "lm_inv m" "k \<noteq> 0" "v \<noteq> 0" "lm_map_get m k = None"
  shows "fst (lm_map_put m k v) = 0" "lm_inv (snd (lm_map_put m k v))"
    "j \<noteq> 0 \<Longrightarrow> lm_map_get (snd (lm_map_put m k v)) j = (if k = j then Some v else lm_map_get m j)"
proof -
  obtain a where a: "lm_map_put m k v = (0, m[lm_index k := a])"
    "length (main a) = LM_MAP_ARRAY_SIZE" "slots_store k v (lm_slots (m ! lm_index k)) (lm_slots a)"
    using lm_map_put_store assms by blast
  have o: "slots_ok (lm_index k) (lm_slots (m ! lm_index k))" "map_of (lm_slots (m ! lm_index k)) k = None"
    using assms lm_inv_bucket by (auto simp: lm_array_ok_def lm_map_get_map_of)
  note st = slots_store_ok [OF a(3) o assms(2,3) refl]
  then have ok: "lm_array_ok (lm_index k) a" using a(2) by (simp add: lm_array_ok_def)
  show "fst (lm_map_put m k v) = 0" by (simp add: a(1))
  show "lm_inv (snd (lm_map_put m k v))" using assms(1) ok by (simp add: a(1) lm_inv_update)
  show "j \<noteq> 0 \<Longrightarrow> lm_map_get (snd (lm_map_put m k v)) j = (if k = j then Some v else lm_map_get m j)"
    using assms(1) ok st(2) [of j] by (simp add: a(1) lm_map_get_update lm_map_get_map_of)
qed

lemma lm_map_del_laws:
  assumes "lm_inv m" "k \<noteq> 0"
  shows "lm_inv (fst (snd (lm_map_del m k)))"
    "j \<noteq> 0 \<Longrightarrow> lm_map_get (fst (snd (lm_map_del m k))) j = (if k = j then None else lm_map_get m j)"
    "snd (snd (lm_map_del m k)) = lm_map_get m k"
    "fst (lm_map_del m k) = c_bool (lm_map_get m k \<noteq> None)"
proof (atomize (full), rule lm_map_del_cases [OF assms], goal_cases)
  case 1
  then show ?case using assms by auto
next
  case (2 a v)
  have o: "slots_ok (lm_index k) (lm_slots (m ! lm_index k))"
    using assms lm_inv_bucket by (auto simp: lm_array_ok_def)
  note st = slots_clear_ok [OF 2(3) o assms(2)]
  then have ok: "lm_array_ok (lm_index k) a" using 2 by (simp add: lm_array_ok_def)
  have "j \<noteq> 0 \<Longrightarrow> lm_map_get (m[lm_index k := a]) j = (if k = j then None else lm_map_get m j)"
    using lm_map_get_update [OF assms(1) ok, of j] st(2) [of j] lm_map_get_map_of [OF assms(1), of j] by auto
  then show ?case using assms ok st(3) by (simp add: 2(1) lm_inv_update lm_map_get_map_of [OF assms])
qed

interpretation lm: fresh_map lm_map_get "\<lambda>m k v. snd (lm_map_put m k v)" "\<lambda>m k. fst (snd (lm_map_del m k))"
  lm_inv "(=)" "\<lambda>k. k \<noteq> 0" "\<lambda>v. v \<noteq> 0"
  by unfold_locales (auto simp: lm_map_put_fresh lm_map_del_laws)

lemma lm_map_get_zero [simp]: "lm_map_get m 0 = None"
  by (simp add: lm_map_get_def)

section \<open>Iteration\<close>

definition lm_entries :: "lm_map \<Rightarrow> lm_slot list" where
  "lm_entries m = concat (map (\<lambda>a. filter (\<lambda>(k, v). k \<noteq> 0 \<and> v \<noteq> 0) (lm_slots a)) m)"

lemma lm_size_slots:
  "fold (\<lambda>(k, v) r. if k \<noteq> 0 \<and> v \<noteq> 0 then r + 1 else r) sl (r :: nat) =
     r + length (filter (\<lambda>(k, v). k \<noteq> 0 \<and> v \<noteq> 0) sl)"
  by (induction sl arbitrary: r) auto

lemma lm_map_size_entries: "lm_map_size m = length (lm_entries m)"
proof -
  have "fold (\<lambda>a ret. fold (\<lambda>(k, v) ret. if k \<noteq> 0 \<and> v \<noteq> 0 then ret + 1 else ret) (lm_slots a) ret) m r =
    r + length (lm_entries m)" for r :: nat
    by (induction m arbitrary: r) (auto simp: lm_size_slots lm_entries_def )
  then show ?thesis by (simp add: lm_map_size_def)
qed

lemma lm_slots_foreach_filter:
  "lm_slots_foreach func sl s = lm_slots_foreach func (filter (\<lambda>(k, v). k \<noteq> 0 \<and> v \<noteq> 0) sl) s"
  by (induction func sl s rule: lm_slots_foreach.induct) (auto split: prod.splits)

lemma lm_slots_foreach_append:
  "lm_slots_foreach func (sl @ sl2) s =
     (case lm_slots_foreach func sl s of (stop, s') \<Rightarrow> if stop then (True, s') else lm_slots_foreach func sl2 s')"
  by (induction func sl s rule: lm_slots_foreach.induct) (auto split: prod.splits)

lemma lm_table_foreach_entries: "lm_table_foreach func m s = lm_slots_foreach func (lm_entries m) s"
proof (induction func m s rule: lm_table_foreach.induct)
  case (2 func a t s)
  then show ?case
    using lm_slots_foreach_filter [of func "lm_slots a" s]
    by (auto simp: lm_entries_def lm_slots_foreach_append split: prod.splits)
qed (simp add: lm_entries_def)

lemma slots_ok_live: "slots_ok i sl \<Longrightarrow> distinct (map fst (filter (\<lambda>(k, v). k \<noteq> 0 \<and> v \<noteq> 0) sl))"
  by (induction sl) (auto simp: slots_ok_def slot_ok_def, force+)

lemma slots_ok_map_of:
  "slots_ok i sl \<Longrightarrow> k \<noteq> 0 \<Longrightarrow> map_of (filter (\<lambda>(k, v). k \<noteq> 0 \<and> v \<noteq> 0) sl) k = map_of sl k"
  by (induction sl) (auto simp: slots_ok_def slot_ok_def split: if_splits)

lemma lm_buckets:
  assumes "lm_inv m"
  shows "buckets_ok lm_index (map (\<lambda>a. filter (\<lambda>(k, v). k \<noteq> 0 \<and> v \<noteq> 0) (lm_slots a)) m)"
proof -
  have ok: "slots_ok i (lm_slots (m ! i))" if "i < length m" for i
    using assms that by (simp add: lm_inv_def list_all_iff lm_array_ok_def)
  then have "lm_index k = i" if "i < length m" "(k, v) \<in> set (lm_slots (m ! i))" "k \<noteq> 0" for i k v
    using that by (fastforce simp: slots_ok_def slot_ok_def list_all_iff)
  then show ?thesis using slots_ok_live [OF ok] by (auto simp: buckets_ok_def)
qed

lemma lm_entries_distinct: "lm_inv m \<Longrightarrow> distinct (map fst (lm_entries m))"
  unfolding lm_entries_def by (rule buckets_distinct) (rule lm_buckets)

lemma lm_entries_set:
  assumes "lm_inv m"
  shows "set (lm_entries m) = {(k, v). lm_map_get m k = Some v}"
proof -
  have i: "lm_index k < length m" for k using assms lm_index_less by (simp add: lm_inv_def)
  have "map_of (lm_entries m) k = lm_map_get m k" for k
  proof (cases "k = 0")
    case True
    have "map_of (lm_entries m) 0 = None" by (auto simp: lm_entries_def map_of_eq_None_iff)
    then show ?thesis using True by simp
  next
    case False
    have "slots_ok (lm_index k) (lm_slots (m ! lm_index k))"
      using lm_inv_bucket [OF assms] by (simp add: lm_array_ok_def)
    then show ?thesis
      using False buckets_map_of [OF lm_buckets [OF assms], of k] i [of k]
      by (simp add: lm_entries_def slots_ok_map_of lm_map_get_map_of [OF assms])
  qed
  then show ?thesis using distinct_map_of_set [OF lm_entries_distinct [OF assms]] by simp
qed

section \<open>Properties\<close>

text \<open>\<^bold>\<open>C13\<close>: on well-formed maps, putting an absent key and deleting a key implement the update of a finite map.
  The put succeeds, the deletion reports whether the key was there and hands its value to the callback.\<close>

theorem lm_map_refines:
  assumes "lm_inv m" "k \<noteq> 0" "v \<noteq> 0" "lm_map_put m k v = (r, m')" "lm_map_del m k = (d, n, fv)"
  shows "(lm_map_get m k = None \<longrightarrow> r = 0 \<and> lm_inv m' \<and> lm_map_get m' = (lm_map_get m)(k \<mapsto> v)) \<and>
    lm_inv n \<and> d = lm_map_exist m k \<and> fv = lm_map_get m k \<and> lm_map_get n = (lm_map_get m)(k := None)"
proof -
  have "lm_map_get m' j = ((lm_map_get m)(k \<mapsto> v)) j" if "lm_map_get m k = None" for j
    using lm.look_ins_fresh [OF assms(1-3) _ that, of j] assms(2,4) by (cases "j = 0") auto
  moreover have "lm_map_get n j = ((lm_map_get m)(k := None)) j" for j
    using lm.look_del [OF assms(1,2), of j] assms(2,5) by (cases "j = 0") auto
  ultimately show ?thesis
    using lm_map_put_fresh(1,2) [OF assms(1-3)] lm_map_del_laws(1,3,4) [OF assms(1,2)] assms(4,5)
    by (auto simp: lm_map_exist_def)
qed

theorem lm_map_refines_witness:
  "lm_inv lm_map_init \<and> lm_map_get (snd (lm_map_put lm_map_init 9 5)) = Map.empty(9 \<mapsto> 5)"
proof -
  have e: "lm_map_get lm_map_init = Map.empty"
    by (rule ext) (auto simp: lm_map_get_map_of lm_inv_init lm_map_get_def lm_map_init_def lm_array_zero_def
        lm_index_less lm_consts numeral_3_eq_3 lm_index_less [unfolded lm_consts])
  show ?thesis
    using lm_map_refines [of lm_map_init 9 5 "fst (lm_map_put lm_map_init 9 5)" "snd (lm_map_put lm_map_init 9 5)"
        "fst (lm_map_del lm_map_init 9)" "fst (snd (lm_map_del lm_map_init 9))" "snd (snd (lm_map_del lm_map_init 9))"]
    by (simp add: lm_inv_init e)
qed

text \<open>Iteration visits every binding of the map exactly once, in one fixed order and until the callback
  asks to stop, and the size is the number of bindings.\<close>

theorem lm_map_iterates:
  assumes "lm_inv m"
  shows "\<exists>es. distinct (map fst es) \<and> set es = {(k, v). lm_map_get m k = Some v} \<and> lm_map_size m = length es \<and>
    (\<forall>func s. lm_map_foreach_arg m func (s :: 's) = (case lm_slots_foreach func es s of (stop, s') \<Rightarrow> (c_bool stop, s')))"
  using lm_entries_distinct [OF assms] lm_entries_set [OF assms]
  by (auto simp: lm_map_size_entries lm_map_foreach_arg_def lm_table_foreach_entries intro!: exI [of _ "lm_entries m"])

theorem lm_map_iterates_witness:
  "lm_inv lm_map_init \<and> (\<exists>es. set es = {(k, v). lm_map_get lm_map_init k = Some v} \<and> lm_map_size lm_map_init = length es)"
  using lm_map_iterates [of lm_map_init] lm_inv_init by blast

text \<open>A put of a key that is already present may store a second binding instead of failing: after the
  deletion of an earlier slot, a second put of key 16 reports success, and one deletion then brings the first
  value back.\<close>

theorem lm_map_put_duplicates:
  "let m = snd (lm_map_put (snd (lm_map_put lm_map_init 8 1)) 16 2);
       m1 = fst (snd (lm_map_del m 8));
       m2 = snd (lm_map_put m1 16 3) in
   lm_map_get m1 16 = Some 2 \<and> fst (lm_map_put m1 16 3) = 0 \<and> lm_map_size m2 = 2 \<and>
   lm_map_get m2 16 = Some 3 \<and> lm_map_get (fst (snd (lm_map_del m2 16))) 16 = Some 2"
  by code_simp

end
