(* ===== verification/Slot_Table.thy ===== *)
theory Slot_Table
  imports Turn_Prelude
begin

text \<open>
  The tables of \<^verbatim>\<open>src/coturn/src/server/ns_turn_allocation.h\<close> that hold permissions and channels: buckets of a few
  inline slots and a growing array of extra slots. A slot is referred to by its bucket and its position in it, inline
  slots first, which stands for the pointer the code keeps. An element of the table says itself whether it is in use.
\<close>

section \<open>Slots\<close>

record 'a slot_array =
  main_slots :: "'a list"
  extra_slots :: "'a list"

type_synonym 'a slot_table = "'a slot_array list"
type_synonym slot_ref = "nat \<times> nat"

definition slots_of :: "'a slot_array \<Rightarrow> 'a list" where
  "slots_of a = main_slots a @ extra_slots a"

definition slot_at :: "'a slot_table \<Rightarrow> slot_ref \<Rightarrow> 'a option" where
  "slot_at t r =
     (if fst r < length t \<and> snd r < length (slots_of (t ! fst r)) then Some (slots_of (t ! fst r) ! snd r) else None)"

definition slot_set :: "'a slot_table \<Rightarrow> slot_ref \<Rightarrow> 'a \<Rightarrow> 'a slot_table" where
  "slot_set t r x =
     (let a = t ! fst r; n = length (main_slots a) in
      t[fst r := if snd r < n then a\<lparr>main_slots := (main_slots a)[snd r := x]\<rparr>
                 else a\<lparr>extra_slots := (extra_slots a)[snd r - n := x]\<rparr>])"

definition slot_append :: "'a slot_table \<Rightarrow> nat \<Rightarrow> 'a \<Rightarrow> slot_ref \<times> 'a slot_table" where
  "slot_append t b x =
     (let a = t ! b in ((b, length (slots_of a)), t[b := a\<lparr>extra_slots := extra_slots a @ [x]\<rparr>]))"

fun find_slot :: "('a \<Rightarrow> bool) \<Rightarrow> 'a list \<Rightarrow> nat option" where
  "find_slot P [] = None"
| "find_slot P (x # xs) = (if P x then Some 0 else map_option Suc (find_slot P xs))"

definition slot_find :: "('a \<Rightarrow> bool) \<Rightarrow> 'a slot_table \<Rightarrow> nat \<Rightarrow> slot_ref option" where
  "slot_find P t b =
     (let a = t ! b in
      case find_slot P (main_slots a) of
        Some i \<Rightarrow> Some (b, i)
      | None \<Rightarrow> (case find_slot P (extra_slots a) of Some i \<Rightarrow> Some (b, length (main_slots a) + i) | None \<Rightarrow> None))"

lemma find_slot_SomeD: "find_slot P xs = Some i \<Longrightarrow> i < length xs \<and> P (xs ! i) \<and> (\<forall>j<i. \<not> P (xs ! j))"
proof (induction xs arbitrary: i)
  case (Cons x xs)
  show ?case
  proof (cases "P x")
    case False
    then obtain k where k: "find_slot P xs = Some k" "i = Suc k" using Cons.prems by auto
    then show ?thesis using Cons.IH [OF k(1)] False by (auto simp: less_Suc_eq_0_disj)
  qed (use Cons.prems in auto)
qed simp

lemma find_slot_None: "find_slot P xs = None \<longleftrightarrow> (\<forall>x \<in> set xs. \<not> P x)"
  by (induction xs) auto

lemma find_slot_append:
  "find_slot P (xs @ ys) =
     (case find_slot P xs of Some i \<Rightarrow> Some i | None \<Rightarrow> map_option (\<lambda>i. i + length xs) (find_slot P ys))"
  by (induction xs) (auto split: option.splits simp: option.map_comp comp_def option.map_ident)

lemma slot_find_slots: "slot_find P t b = map_option (Pair b) (find_slot P (slots_of (t ! b)))"
  by (auto simp: slot_find_def slots_of_def find_slot_append Let_def add.commute split: option.splits)

lemma slot_at_set: "slot_at (slot_set t r x) r' = (if r' = r \<and> slot_at t r \<noteq> None then Some x else slot_at t r')"
proof -
  have "slots_of (slot_set t r x ! b) = (if b = fst r \<and> b < length t then (slots_of (t ! b))[snd r := x] else slots_of (t ! b))" for b
    by (cases "fst r < length t")
      (auto simp: slot_set_def Let_def nth_list_update slots_of_def list_update_append list_update_beyond)
  moreover have "length (slot_set t r x) = length t" by (simp add: slot_set_def Let_def)
  ultimately show ?thesis by (cases r; cases r') (auto simp: slot_at_def nth_list_update)
qed

lemma slot_at_append:
  assumes "b < length t" "slot_append t b x = (r, t')"
  shows "slot_at t r = None" "slot_at t' r' = (if r' = r then Some x else slot_at t r')" "fst r = b"
proof -
  have r: "r = (b, length (slots_of (t ! b)))" and t': "t' = t[b := (t ! b)\<lparr>extra_slots := extra_slots (t ! b) @ [x]\<rparr>]"
    using assms(2) by (auto simp: slot_append_def Let_def)
  have sl: "slots_of (t' ! c) = (if c = b then slots_of (t ! b) @ [x] else slots_of (t ! c))" for c
    using assms(1) by (simp add: t' slots_of_def nth_list_update)
  have "length t' = length t" by (simp add: t')
  then show "slot_at t' r' = (if r' = r then Some x else slot_at t r')"
    using assms(1) by (cases r') (auto simp: slot_at_def r sl nth_append)
  show "slot_at t r = None" "fst r = b" by (simp_all add: slot_at_def r)
qed

lemma slot_find_Some:
  assumes "b < length t" "slot_find P t b = Some r"
  obtains x where "slot_at t r = Some x" "P x" "fst r = b"
  using assms find_slot_SomeD [of P "slots_of (t ! b)"] by (auto simp: slot_find_slots slot_at_def)

lemma slot_find_None:
  assumes "b < length t" "slot_find P t b = None" "slot_at t r = Some x" "fst r = b"
  shows "\<not> P x"
  using assms nth_mem by (fastforce simp: slot_find_slots find_slot_None slot_at_def split: if_splits)

text \<open>The shape of a table: \<open>n\<close> buckets with \<open>k\<close> inline slots each.\<close>

definition table_shape :: "nat \<Rightarrow> nat \<Rightarrow> 'a slot_table \<Rightarrow> bool" where
  "table_shape n k t \<longleftrightarrow> length t = n \<and> list_all (\<lambda>a. length (main_slots a) = k) t"

lemma table_shape_set: "table_shape n k t \<Longrightarrow> table_shape n k (slot_set t r x)"
  unfolding table_shape_def slot_set_def Let_def list_all_length
  by (cases "fst r < length t") (auto simp: nth_list_update list_update_beyond)

lemma table_shape_append: "table_shape n k t \<Longrightarrow> slot_append t b x = (r, t') \<Longrightarrow> table_shape n k t'"
  unfolding table_shape_def slot_append_def Let_def list_all_length
  by (cases "b < length t") (auto simp: nth_list_update list_update_beyond)

section \<open>Slots in use\<close>

definition live_at :: "('a \<Rightarrow> bool) \<Rightarrow> 'a slot_table \<Rightarrow> slot_ref \<Rightarrow> 'a option" where
  "live_at used t r = (case slot_at t r of Some x \<Rightarrow> if used x then Some x else None | None \<Rightarrow> None)"

text \<open>A slot that is not in use is cleared.\<close>

definition table_clean :: "('a \<Rightarrow> bool) \<Rightarrow> 'a \<Rightarrow> 'a slot_table \<Rightarrow> bool" where
  "table_clean used zero t \<longleftrightarrow> (\<forall>r x. slot_at t r = Some x \<longrightarrow> used x \<or> x = zero)"

text \<open>The first free slot of a bucket, or a new one.\<close>

definition slot_new :: "('a \<Rightarrow> bool) \<Rightarrow> 'a \<Rightarrow> 'a slot_table \<Rightarrow> nat \<Rightarrow> slot_ref \<times> 'a slot_table" where
  "slot_new used zero t b =
     (case slot_find (\<lambda>x. \<not> used x) t b of Some r \<Rightarrow> (r, t) | None \<Rightarrow> slot_append t b zero)"

lemma live_at_SomeD: "live_at used t r = Some x \<Longrightarrow> slot_at t r = Some x \<and> used x"
  by (auto simp: live_at_def split: option.splits if_splits)

lemma live_at_set:
  "slot_at t r \<noteq> None \<Longrightarrow> live_at used (slot_set t r x) = (live_at used t)(r := if used x then Some x else None)"
  by (auto simp: live_at_def slot_at_set fun_eq_iff)

lemma table_clean_set: "table_clean used zero t \<Longrightarrow> used x \<or> x = zero \<Longrightarrow> table_clean used zero (slot_set t r x)"
  unfolding table_clean_def slot_at_set by (auto split: if_splits)

lemma slot_new_laws:
  assumes "table_shape n k t" "b < n" "\<not> used zero" "table_clean used zero t" "slot_new used zero t b = (r, t')"
  shows "slot_at t' r = Some zero" "live_at used t' = live_at used t" "live_at used t r = None" "fst r = b"
    "table_shape n k t'" "table_clean used zero t'"
proof -
  have b: "b < length t" using assms(1,2) by (simp add: table_shape_def)
  have "slot_at t' r = Some zero \<and> live_at used t' = live_at used t \<and> live_at used t r = None \<and> fst r = b \<and>
    table_shape n k t' \<and> table_clean used zero t'"
  proof (cases "slot_find (\<lambda>x. \<not> used x) t b")
    case None
    then have a: "slot_append t b zero = (r, t')" using assms(5) by (simp add: slot_new_def)
    show ?thesis using slot_at_append [OF b a] table_shape_append [OF assms(1) a] assms(3,4)
      by (auto simp: live_at_def fun_eq_iff table_clean_def split: if_splits)
  next
    case (Some r0)
    then have e: "r0 = r" "t' = t" using assms(5) by (simp_all add: slot_new_def)
    obtain x where "slot_at t r = Some x" "\<not> used x" "fst r = b" using slot_find_Some [OF b Some] e by metis
    moreover from this have "x = zero" using assms(4) unfolding table_clean_def by blast
    ultimately show ?thesis using e assms(1,4) by (simp add: live_at_def)
  qed
  then show "slot_at t' r = Some zero" "live_at used t' = live_at used t" "live_at used t r = None" "fst r = b"
    "table_shape n k t'" "table_clean used zero t'" by simp_all
qed

text \<open>A search for an element in use, in the bucket that holds every element of the kind.\<close>

lemma slot_find_live:
  assumes "b < length t" "slot_find (\<lambda>x. used x \<and> P x) t b = Some r"
  obtains x where "live_at used t r = Some x" "P x" "fst r = b"
  using slot_find_Some [OF assms] by (metis (mono_tags, lifting) live_at_def option.simps(5))

lemma slot_find_live_None:
  assumes "b < length t" "slot_find (\<lambda>x. used x \<and> P x) t b = None" "live_at used t r = Some x" "fst r = b"
  shows "\<not> P x"
  using slot_find_None [OF assms(1,2) _ assms(4)] live_at_SomeD [OF assms(3)] by blast

text \<open>When at most one element in use satisfies \<open>P\<close>, the search finds exactly that one.\<close>

lemma slot_find_unique:
  assumes "b < length t" "\<And>r x. live_at used t r = Some x \<Longrightarrow> P x \<Longrightarrow> fst r = b"
    "\<And>r x r' x'. live_at used t r = Some x \<Longrightarrow> P x \<Longrightarrow> live_at used t r' = Some x' \<Longrightarrow> P x' \<Longrightarrow> r = r'"
  shows "slot_find (\<lambda>x. used x \<and> P x) t b = Some r \<longleftrightarrow> (\<exists>x. live_at used t r = Some x \<and> P x)"
proof
  assume "slot_find (\<lambda>x. used x \<and> P x) t b = Some r"
  then show "\<exists>x. live_at used t r = Some x \<and> P x" by (rule slot_find_live [OF assms(1)]) blast
next
  assume "\<exists>x. live_at used t r = Some x \<and> P x"
  then obtain x where x: "live_at used t r = Some x" "P x" by blast
  then have "slot_find (\<lambda>x. used x \<and> P x) t b \<noteq> None"
    using slot_find_live_None [OF assms(1) _ x(1) assms(2) [OF x]] by blast
  then obtain r' where r': "slot_find (\<lambda>x. used x \<and> P x) t b = Some r'" by blast
  then obtain x' where "live_at used t r' = Some x'" "P x'" by (rule slot_find_live [OF assms(1)])
  then show "slot_find (\<lambda>x. used x \<and> P x) t b = Some r" using r' assms(3) x by blast
qed

lemma table_shape_init: "table_shape n k (replicate n \<lparr>main_slots = replicate k z, extra_slots = []\<rparr>)"
  by (simp add: table_shape_def list_all_iff)

lemma slot_at_init:
  "slot_at (replicate n \<lparr>main_slots = replicate k z, extra_slots = []\<rparr>) r = Some x \<Longrightarrow> x = z"
  by (auto simp: slot_at_def slots_of_def split: if_splits)

end
