(* ===== verification/Turn_Allocation.thy ===== *)
theory Turn_Allocation
  imports Lm_Map Io_Addr Stun_Msg Slot_Table
begin

text \<open>
  Permissions and channels of an allocation, \<^verbatim>\<open>src/coturn/src/server/ns_turn_allocation.c\<close>: the table of permissions
  by peer IP address, the table of channels by channel number, and the links between them. A channel points to its
  permission (\<^verbatim>\<open>owner\<close>), and the permission's local map leads from the peer port to the channel. A pointer to a
  permission is its \<^typ>\<open>slot_ref\<close>; a pointer to a channel is stored in the local map as a nonzero word, \<open>ch_ptr\<close>.
  Timers, sockets and kernel channels are handles, zero for \<^verbatim>\<open>NULL\<close>; what the code releases is recorded in \<open>io\<close>. The
  owners of an allocation and of its permissions are constant and left out, as are the log messages.
\<close>

section \<open>State\<close>

record ch_info =
  ch_chnum :: u16
  ch_allocated :: bool
  ch_port :: u16
  ch_peer_addr :: ioa_addr
  ch_expiration_time :: u32
  ch_lifetime_ev :: u64
  ch_owner :: "slot_ref option"
  ch_kernel_channel :: u64

record turn_permission_info =
  ti_allocated :: bool
  ti_chns :: lm_map
  ti_addr :: ioa_addr
  ti_expiration_time :: u32
  ti_lifetime_ev :: u64
  ti_verbose :: bool
  ti_session_id :: u64

type_synonym turn_permission_hashtable = "turn_permission_info slot_table"
type_synonym ch_map = "ch_info slot_table"

record relay_endpoint_session =
  rs_s :: u64
  rs_expiration_time :: u32
  rs_lifetime_ev :: u64

datatype alloc_io = Timer_deleted u64 | Kernel_deleted u64 | Socket_closed u64 | Session_cleared u64 | Allocation_reported | Buffer_deleted u64

record allocation =
  is_valid :: bool
  addr_to_perm :: turn_permission_hashtable
  relay_sessions :: "relay_endpoint_session list"
  relay_sessions_failure :: "bool list"
  chns :: ch_map
  tcs :: "u64 list"
  io :: "alloc_io list"

definition TURN_PERMISSION_HASHTABLE_SIZE :: nat where "TURN_PERMISSION_HASHTABLE_SIZE = 8"
definition TURN_PERMISSION_ARRAY_SIZE :: nat where "TURN_PERMISSION_ARRAY_SIZE = 3"
definition CH_MAP_HASH_SIZE :: nat where "CH_MAP_HASH_SIZE = 8"
definition CH_MAP_ARRAY_SIZE :: nat where "CH_MAP_ARRAY_SIZE = 3"
definition ALLOC_PROTOCOLS_NUMBER :: nat where "ALLOC_PROTOCOLS_NUMBER = 2"

lemmas alloc_consts = TURN_PERMISSION_HASHTABLE_SIZE_def TURN_PERMISSION_ARRAY_SIZE_def CH_MAP_HASH_SIZE_def
  CH_MAP_ARRAY_SIZE_def ALLOC_PROTOCOLS_NUMBER_def

definition ALLOC_INDEX :: "int \<Rightarrow> nat" where
  "ALLOC_INDEX family = (if family = uint AF_INET6 then 1 else 0)"

text \<open>A structure cleared with \<^verbatim>\<open>bzero\<close>.\<close>

definition ch_zero :: ch_info where
  "ch_zero = \<lparr>ch_chnum = 0, ch_allocated = False, ch_port = 0, ch_peer_addr = addr_set_any, ch_expiration_time = 0,
     ch_lifetime_ev = 0, ch_owner = None, ch_kernel_channel = 0\<rparr>"

definition perm_zero :: turn_permission_info where
  "perm_zero = \<lparr>ti_allocated = False, ti_chns = lm_map_init, ti_addr = addr_set_any, ti_expiration_time = 0,
     ti_lifetime_ev = 0, ti_verbose = False, ti_session_id = 0\<rparr>"

definition rs_zero :: relay_endpoint_session where
  "rs_zero = \<lparr>rs_s = 0, rs_expiration_time = 0, rs_lifetime_ev = 0\<rparr>"

definition init_turn_permission_hashtable :: turn_permission_hashtable where
  "init_turn_permission_hashtable = replicate TURN_PERMISSION_HASHTABLE_SIZE
     \<lparr>main_slots = replicate TURN_PERMISSION_ARRAY_SIZE perm_zero, extra_slots = []\<rparr>"

definition init_allocation :: allocation where
  "init_allocation = \<lparr>is_valid = False, addr_to_perm = init_turn_permission_hashtable,
     relay_sessions = replicate ALLOC_PROTOCOLS_NUMBER rs_zero,
     relay_sessions_failure = replicate ALLOC_PROTOCOLS_NUMBER False,
     chns = replicate CH_MAP_HASH_SIZE \<lparr>main_slots = replicate CH_MAP_ARRAY_SIZE ch_zero, extra_slots = []\<rparr>,
     tcs = [], io = []\<rparr>"

definition ch_ptr :: "slot_ref \<Rightarrow> u64" where
  "ch_ptr r = of_nat (1 + fst r + CH_MAP_HASH_SIZE * snd r)"

definition ptr_ch :: "u64 \<Rightarrow> slot_ref" where
  "ptr_ch p = ((unat p - 1) mod CH_MAP_HASH_SIZE, (unat p - 1) div CH_MAP_HASH_SIZE)"

section \<open>Relay sessions\<close>

definition get_relay_session :: "allocation \<Rightarrow> int \<Rightarrow> relay_endpoint_session" where
  "get_relay_session a family = relay_sessions a ! ALLOC_INDEX family"

definition get_relay_session_failure :: "allocation \<Rightarrow> int \<Rightarrow> bool" where
  "get_relay_session_failure a family = relay_sessions_failure a ! ALLOC_INDEX family"

definition set_relay_session_failure :: "allocation \<Rightarrow> int \<Rightarrow> allocation" where
  "set_relay_session_failure a family =
     a\<lparr>relay_sessions_failure := (relay_sessions_failure a)[ALLOC_INDEX family := True]\<rparr>"

definition get_relay_socket :: "allocation \<Rightarrow> int \<Rightarrow> u64" where
  "get_relay_socket a family = rs_s (relay_sessions a ! ALLOC_INDEX family)"

text \<open>\<^verbatim>\<open>IOA_EVENT_DEL\<close> and \<^verbatim>\<open>IOA_CLOSE_SOCKET\<close> on a handle: what they release.\<close>

definition IOA_EVENT_DEL :: "u64 \<Rightarrow> alloc_io list" where
  "IOA_EVENT_DEL ev = (if ev \<noteq> 0 then [Timer_deleted ev] else [])"

definition IOA_CLOSE_SOCKET :: "u64 \<Rightarrow> alloc_io list" where
  "IOA_CLOSE_SOCKET s = (if s \<noteq> 0 then [Socket_closed s] else [])"

definition set_allocation_lifetime_ev :: "allocation \<Rightarrow> u32 \<Rightarrow> u64 \<Rightarrow> int \<Rightarrow> allocation" where
  "set_allocation_lifetime_ev a exp_time ev family =
     (let i = ALLOC_INDEX family; s = relay_sessions a ! i in
      a\<lparr>io := io a @ IOA_EVENT_DEL (rs_lifetime_ev s),
        relay_sessions := (relay_sessions a)[i := s\<lparr>rs_expiration_time := exp_time, rs_lifetime_ev := ev\<rparr>]\<rparr>)"

definition is_allocation_valid :: "allocation \<Rightarrow> bool" where
  "is_allocation_valid a = is_valid a"

definition set_allocation_valid :: "allocation \<Rightarrow> bool \<Rightarrow> allocation" where
  "set_allocation_valid a v = a\<lparr>is_valid := v\<rparr>"

section \<open>Channels\<close>

definition ch_index :: "u16 \<Rightarrow> nat" where
  "ch_index chnum = unat (chnum AND (of_nat CH_MAP_HASH_SIZE - 1))"

definition ch_load :: "allocation \<Rightarrow> slot_ref \<Rightarrow> ch_info" where
  "ch_load a r = (case slot_at (chns a) r of Some c \<Rightarrow> c | None \<Rightarrow> ch_zero)"

definition ch_store :: "allocation \<Rightarrow> slot_ref \<Rightarrow> ch_info \<Rightarrow> allocation" where
  "ch_store a r c = a\<lparr>chns := slot_set (chns a) r c\<rparr>"

definition ch_map_get :: "ch_map \<Rightarrow> u16 \<Rightarrow> bool \<Rightarrow> slot_ref option \<times> ch_map" where
  "ch_map_get m chnum new_chn =
     (let index = ch_index chnum in
      if new_chn then (case slot_new ch_allocated ch_zero m index of (r, m) \<Rightarrow> (Some r, m))
      else (slot_find (\<lambda>chi. ch_allocated chi \<and> ch_chnum chi = chnum) m index, m))"

definition ch_info_clean :: "slot_ref \<Rightarrow> allocation \<Rightarrow> allocation" where
  "ch_info_clean r a =
     (let c = ch_load a r in
      (ch_store a r ch_zero)\<lparr>io := io a @
         (if ch_kernel_channel c \<noteq> 0 then [Kernel_deleted (ch_kernel_channel c)] else []) @ IOA_EVENT_DEL (ch_lifetime_ev c)\<rparr>)"

definition delete_channel_info_from_allocation_map :: "u64 \<Rightarrow> u64 \<Rightarrow> allocation \<Rightarrow> bool \<times> allocation" where
  "delete_channel_info_from_allocation_map key val a =
     (False, if val \<noteq> 0 then ch_info_clean (ptr_ch val) a else a)"

section \<open>Permissions\<close>

definition perm_index :: "ioa_addr \<Rightarrow> nat" where
  "perm_index addr = unat (addr_hash_no_port (Some addr) AND (of_nat TURN_PERMISSION_HASHTABLE_SIZE - 1))"

definition perm_load :: "allocation \<Rightarrow> slot_ref \<Rightarrow> turn_permission_info" where
  "perm_load a r = (case slot_at (addr_to_perm a) r of Some p \<Rightarrow> p | None \<Rightarrow> perm_zero)"

definition perm_store :: "allocation \<Rightarrow> slot_ref \<Rightarrow> turn_permission_info \<Rightarrow> allocation" where
  "perm_store a r p = a\<lparr>addr_to_perm := slot_set (addr_to_perm a) r p\<rparr>"

definition get_from_turn_permission_hashtable :: "turn_permission_hashtable \<Rightarrow> ioa_addr \<Rightarrow> slot_ref option" where
  "get_from_turn_permission_hashtable m addr =
     slot_find (\<lambda>p. ti_allocated p \<and> addr_eq_no_port (Some (ti_addr p)) (Some addr)) m (perm_index addr)"

definition allocation_get_permission :: "allocation \<Rightarrow> ioa_addr \<Rightarrow> slot_ref option" where
  "allocation_get_permission a addr = get_from_turn_permission_hashtable (addr_to_perm a) addr"

definition turn_permission_clean :: "slot_ref \<Rightarrow> allocation \<Rightarrow> allocation" where
  "turn_permission_clean r a =
     (let tinfo = perm_load a r in
      if ti_allocated tinfo then
        let a = a\<lparr>io := io a @ IOA_EVENT_DEL (ti_lifetime_ev tinfo)\<rparr>;
            a = snd (lm_map_foreach_arg (ti_chns tinfo) delete_channel_info_from_allocation_map a)
        in perm_store a r perm_zero
      else a)"

definition allocation_add_permission :: "allocation \<Rightarrow> ioa_addr \<Rightarrow> slot_ref \<times> allocation" where
  "allocation_add_permission a addr =
     (case slot_new ti_allocated perm_zero (addr_to_perm a) (perm_index addr) of
        (r, m) \<Rightarrow> (r, a\<lparr>addr_to_perm := slot_set m r (perm_zero\<lparr>ti_allocated := True, ti_addr := addr\<rparr>)\<rparr>))"

definition get_turn_channel :: "allocation \<Rightarrow> slot_ref \<Rightarrow> ioa_addr \<Rightarrow> slot_ref option" where
  "get_turn_channel a tinfo addr =
     (case lm_map_get (ti_chns (perm_load a tinfo)) (of_int (addr_get_port (Some addr))) of
        Some t \<Rightarrow> if t \<noteq> 0 \<and> STUN_VALID_CHANNEL (ch_chnum (ch_load a (ptr_ch t))) then Some (ptr_ch t) else None
      | None \<Rightarrow> None)"

definition get_turn_channel_number :: "allocation \<Rightarrow> slot_ref \<Rightarrow> ioa_addr \<Rightarrow> u16" where
  "get_turn_channel_number a tinfo addr =
     (case lm_map_get (ti_chns (perm_load a tinfo)) (of_int (addr_get_port (Some addr))) of
        Some t \<Rightarrow>
          if t \<noteq> 0 \<and> STUN_VALID_CHANNEL (ch_chnum (ch_load a (ptr_ch t))) then ch_chnum (ch_load a (ptr_ch t)) else 0
      | None \<Rightarrow> 0)"

definition allocation_get_ch_info :: "allocation \<Rightarrow> u16 \<Rightarrow> slot_ref option" where
  "allocation_get_ch_info a chnum = fst (ch_map_get (chns a) chnum False)"

definition allocation_get_ch_info_by_peer_addr :: "allocation \<Rightarrow> ioa_addr \<Rightarrow> slot_ref option" where
  "allocation_get_ch_info_by_peer_addr a peer_addr =
     (case get_from_turn_permission_hashtable (addr_to_perm a) peer_addr of
        Some tinfo \<Rightarrow> get_turn_channel a tinfo peer_addr
      | None \<Rightarrow> None)"

definition allocation_get_new_ch_info :: "allocation \<Rightarrow> u16 \<Rightarrow> ioa_addr \<Rightarrow> slot_ref \<times> allocation" where
  "allocation_get_new_ch_info a chnum peer_addr =
     (case (case get_from_turn_permission_hashtable (addr_to_perm a) peer_addr of
              Some tinfo \<Rightarrow> (tinfo, a)
            | None \<Rightarrow> allocation_add_permission a peer_addr) of
        (tinfo, a) \<Rightarrow>
          (case ch_map_get (chns a) chnum True of
             (chn, m) \<Rightarrow>
               let r = the chn;
                   a = a\<lparr>chns := m\<rparr>;
                   a = ch_store a r ((ch_load a r)\<lparr>ch_allocated := True, ch_chnum := chnum,
                     ch_port := of_int (addr_get_port (Some peer_addr)), ch_peer_addr := peer_addr, ch_owner := Some tinfo\<rparr>);
                   p = perm_load a tinfo;
                   a = perm_store a tinfo
                     (p\<lparr>ti_chns := snd (lm_map_put (ti_chns p) (of_int (addr_get_port (Some peer_addr))) (ch_ptr r))\<rparr>)
               in (r, a)))"

definition turn_channel_delete :: "slot_ref \<Rightarrow> allocation \<Rightarrow> allocation" where
  "turn_channel_delete r a =
     (let chn = ch_load a r;
          port = addr_get_port (Some (ch_peer_addr chn));
          a = (case ch_owner chn of
                 Some tinfo \<Rightarrow>
                   let p = perm_load a tinfo in
                   perm_store a tinfo (p\<lparr>ti_chns := fst (snd (lm_map_del (ti_chns p) (of_int port)))\<rparr>)
               | None \<Rightarrow> a)
      in snd (delete_channel_info_from_allocation_map (of_int port) (ch_ptr r) a))"

section \<open>Clearing the tables\<close>

definition table_refs :: "'a slot_table \<Rightarrow> nat \<Rightarrow> slot_ref list" where
  "table_refs t i = map (Pair i) [0..<length (slots_of (t ! i))]"

definition table_free_extra :: "nat \<Rightarrow> 'a slot_table \<Rightarrow> 'a slot_table" where
  "table_free_extra i t = t[i := (t ! i)\<lparr>extra_slots := []\<rparr>]"

definition perm_clean_used :: "slot_ref \<Rightarrow> allocation \<Rightarrow> allocation" where
  "perm_clean_used r a = (if ti_allocated (perm_load a r) then turn_permission_clean r a else a)"

definition ch_clean_used :: "slot_ref \<Rightarrow> allocation \<Rightarrow> allocation" where
  "ch_clean_used r a = (if ch_allocated (ch_load a r) then ch_info_clean r a else a)"

definition free_turn_permission_hashtable :: "allocation \<Rightarrow> allocation" where
  "free_turn_permission_hashtable a =
     fold (\<lambda>i a.
       let a = fold perm_clean_used (table_refs (addr_to_perm a) i) a
       in a\<lparr>addr_to_perm := table_free_extra i (addr_to_perm a)\<rparr>) [0..<TURN_PERMISSION_HASHTABLE_SIZE] a"

definition ch_map_clean :: "allocation \<Rightarrow> allocation" where
  "ch_map_clean a =
     fold (\<lambda>i a.
       let a = fold ch_clean_used (table_refs (chns a) i) a
       in a\<lparr>chns := table_free_extra i (chns a)\<rparr>) [0..<CH_MAP_HASH_SIZE] a"

definition can_accept_tcp_connection_from_peer :: "allocation \<Rightarrow> ioa_addr \<Rightarrow> bool \<Rightarrow> bool" where
  "can_accept_tcp_connection_from_peer a peer_addr server_relay =
     (server_relay \<or> get_from_turn_permission_hashtable (addr_to_perm a) peer_addr \<noteq> None)"

end
