(* ===== verification/Alloc_Laws.thy ===== *)
theory Alloc_Laws
  imports Turn_Allocation
begin

text \<open>
  The invariant of the permissions and channels of an allocation and what every operation does to it. The tables are
  seen as partial functions from slot references to the permissions and channels in use; the invariant links them:
  every channel is registered with the permission of its peer's address, and every registration leads to a channel.
\<close>

section \<open>The invariant\<close>

definition perm_at :: "allocation \<Rightarrow> slot_ref \<Rightarrow> turn_permission_info option" where
  "perm_at a = live_at ti_allocated (addr_to_perm a)"

definition chan_at :: "allocation \<Rightarrow> slot_ref \<Rightarrow> ch_info option" where
  "chan_at a = live_at ch_allocated (chns a)"

definition ch_ref_ok :: "slot_ref \<Rightarrow> bool" where
  "ch_ref_ok r \<longleftrightarrow> fst r < CH_MAP_HASH_SIZE \<and> snd r \<le> 2 ^ 16"

definition alloc_shape :: "allocation \<Rightarrow> bool" where
  "alloc_shape a \<longleftrightarrow>
     table_shape TURN_PERMISSION_HASHTABLE_SIZE TURN_PERMISSION_ARRAY_SIZE (addr_to_perm a) \<and>
     table_clean ti_allocated perm_zero (addr_to_perm a) \<and>
     table_shape CH_MAP_HASH_SIZE CH_MAP_ARRAY_SIZE (chns a) \<and> table_clean ch_allocated ch_zero (chns a) \<and>
     (\<forall>r. slot_at (chns a) r \<noteq> None \<longrightarrow> ch_ref_ok r)"

definition perm_ok :: "slot_ref \<Rightarrow> turn_permission_info \<Rightarrow> bool" where
  "perm_ok r p \<longleftrightarrow> fst r = perm_index (ti_addr p) \<and> lm_inv (ti_chns p)"

definition chan_ok :: "slot_ref \<Rightarrow> ch_info \<Rightarrow> bool" where
  "chan_ok r c \<longleftrightarrow> fst r = ch_index (ch_chnum c) \<and> STUN_VALID_CHANNEL (ch_chnum c) \<and> ip_addr (ch_peer_addr c) \<and>
     ch_port c \<noteq> 0 \<and> ch_port c = of_int (addr_get_port (Some (ch_peer_addr c)))"

text \<open>Channel \<open>c\<close> at \<open>r\<close> belongs to the permission \<open>p\<close> at \<open>q\<close>.\<close>

definition linked :: "slot_ref \<Rightarrow> ch_info \<Rightarrow> slot_ref \<Rightarrow> turn_permission_info \<Rightarrow> bool" where
  "linked r c q p \<longleftrightarrow> ch_owner c = Some q \<and> addr_eq_no_port (Some (ti_addr p)) (Some (ch_peer_addr c)) \<and>
     lm_map_get (ti_chns p) (ucast (ch_port c)) = Some (ch_ptr r)"

definition links_ok ::
  "(slot_ref \<Rightarrow> turn_permission_info option) \<Rightarrow> (slot_ref \<Rightarrow> ch_info option) \<Rightarrow> bool" where
  "links_ok P C \<longleftrightarrow>
     (\<forall>q p. P q = Some p \<longrightarrow> perm_ok q p) \<and>
     (\<forall>q p q' p'. P q = Some p \<longrightarrow> P q' = Some p' \<longrightarrow> addr_eq_no_port (Some (ti_addr p)) (Some (ti_addr p')) \<longrightarrow> q = q') \<and>
     (\<forall>r c. C r = Some c \<longrightarrow> chan_ok r c) \<and>
     (\<forall>r c r' c'. C r = Some c \<longrightarrow> C r' = Some c' \<longrightarrow> ch_chnum c = ch_chnum c' \<longrightarrow> r = r') \<and>
     (\<forall>r c. C r = Some c \<longrightarrow> (\<exists>q p. P q = Some p \<and> linked r c q p)) \<and>
     (\<forall>q p k v. P q = Some p \<longrightarrow> lm_map_get (ti_chns p) k = Some v \<longrightarrow>
        (\<exists>r c. C r = Some c \<and> v = ch_ptr r \<and> linked r c q p \<and> k = ucast (ch_port c)))"

definition alloc_inv :: "allocation \<Rightarrow> bool" where
  "alloc_inv a \<longleftrightarrow> alloc_shape a \<and> links_ok (perm_at a) (chan_at a)"

lemma alloc_shapeD:
  assumes "alloc_shape a"
  shows "table_shape TURN_PERMISSION_HASHTABLE_SIZE TURN_PERMISSION_ARRAY_SIZE (addr_to_perm a)"
    "table_clean ti_allocated perm_zero (addr_to_perm a)"
    "table_shape CH_MAP_HASH_SIZE CH_MAP_ARRAY_SIZE (chns a)" "table_clean ch_allocated ch_zero (chns a)"
    "\<And>r. slot_at (chns a) r \<noteq> None \<Longrightarrow> ch_ref_ok r"
  using assms unfolding alloc_shape_def by blast+

lemma links_okD:
  assumes "links_ok P C"
  shows "P q = Some p \<Longrightarrow> perm_ok q p"
    "P q = Some p \<Longrightarrow> P q' = Some p' \<Longrightarrow> addr_eq_no_port (Some (ti_addr p)) (Some (ti_addr p')) \<Longrightarrow> q = q'"
    "C r = Some c \<Longrightarrow> chan_ok r c"
    "C r = Some c \<Longrightarrow> C r' = Some c' \<Longrightarrow> ch_chnum c = ch_chnum c' \<Longrightarrow> r = r'"
    "C r = Some c \<Longrightarrow> \<exists>q p. P q = Some p \<and> linked r c q p"
    "P q = Some p \<Longrightarrow> lm_map_get (ti_chns p) k = Some v \<Longrightarrow>
       \<exists>r c. C r = Some c \<and> v = ch_ptr r \<and> linked r c q p \<and> k = ucast (ch_port c)"
  using assms unfolding links_ok_def by blast+

lemma links_okI:
  assumes "\<And>q p. P q = Some p \<Longrightarrow> perm_ok q p"
    "\<And>q p q' p'. P q = Some p \<Longrightarrow> P q' = Some p' \<Longrightarrow> addr_eq_no_port (Some (ti_addr p)) (Some (ti_addr p')) \<Longrightarrow> q = q'"
    "\<And>r c. C r = Some c \<Longrightarrow> chan_ok r c"
    "\<And>r c r' c'. C r = Some c \<Longrightarrow> C r' = Some c' \<Longrightarrow> ch_chnum c = ch_chnum c' \<Longrightarrow> r = r'"
    "\<And>r c. C r = Some c \<Longrightarrow> \<exists>q p. P q = Some p \<and> linked r c q p"
    "\<And>q p k v. P q = Some p \<Longrightarrow> lm_map_get (ti_chns p) k = Some v \<Longrightarrow>
       \<exists>r c. C r = Some c \<and> v = ch_ptr r \<and> linked r c q p \<and> k = ucast (ch_port c)"
  shows "links_ok P C"
  unfolding links_ok_def using assms by meson

lemma ch_index_less: "ch_index n < CH_MAP_HASH_SIZE"
proof -
  have "n AND 7 = take_bit 3 n" by (simp add: take_bit_eq_mask mask_eq_exp_minus_1)
  then have "unat (n AND 7) = take_bit 3 (unat n)" by (simp add: unsigned_take_bit_eq)
  then show ?thesis using take_bit_nat_less_exp [of 3 "unat n"] by (simp add: ch_index_def alloc_consts)
qed

lemma perm_index_less: "perm_index x < TURN_PERMISSION_HASHTABLE_SIZE"
proof -
  have "n AND 7 = take_bit 3 n" for n :: u32 by (simp add: take_bit_eq_mask mask_eq_exp_minus_1)
  then have "unat (n AND 7) = take_bit 3 (unat n)" for n :: u32 by (simp add: unsigned_take_bit_eq)
  then show ?thesis using take_bit_nat_less_exp [of 3] by (simp add: perm_index_def alloc_consts)
qed

lemma perm_index_cong: "addr_eq_no_port (Some x) (Some y) \<Longrightarrow> perm_index x = perm_index y"
  unfolding perm_index_def using addr_eq_no_port_hash by metis

text \<open>Pointers to channels are nonzero and different for different slots.\<close>

lemma ptr_ch_ptr:
  assumes "ch_ref_ok r"
  shows "ptr_ch (ch_ptr r) = r" "ch_ptr r \<noteq> 0"
proof -
  have f: "fst r < 8" "snd r \<le> 65536" using assms by (simp_all add: ch_ref_ok_def alloc_consts)
  then have u: "unat (ch_ptr r) = 1 + fst r + 8 * snd r"
    unfolding ch_ptr_def unat_of_nat by (simp add: alloc_consts)
  then show "ptr_ch (ch_ptr r) = r" using f by (simp add: ptr_ch_def alloc_consts prod_eq_iff)
  show "ch_ptr r \<noteq> 0" using u by (metis add_is_0 one_neq_zero unsigned_0)
qed

lemma alloc_inv_ref: "alloc_shape a \<Longrightarrow> chan_at a r = Some c \<Longrightarrow> ch_ref_ok r"
  unfolding alloc_shape_def chan_at_def using live_at_SomeD by fastforce

lemma perm_load_at: "perm_at a r = Some p \<Longrightarrow> perm_load a r = p"
  unfolding perm_at_def perm_load_def using live_at_SomeD by fastforce

lemma ch_load_at: "chan_at a r = Some c \<Longrightarrow> ch_load a r = c"
  unfolding chan_at_def ch_load_def using live_at_SomeD by fastforce

section \<open>Lookups\<close>

lemma addr_eq_no_port_symD: "addr_eq_no_port (Some x) (Some y) \<Longrightarrow> addr_eq_no_port (Some y) (Some x)"
  using addr_eq_no_port_sym by blast

lemma get_permission_iff:
  assumes "alloc_inv a"
  shows "allocation_get_permission a x = Some q \<longleftrightarrow>
    (\<exists>p. perm_at a q = Some p \<and> addr_eq_no_port (Some (ti_addr p)) (Some x))"
proof -
  have L: "links_ok (perm_at a) (chan_at a)" and l: "perm_index x < length (addr_to_perm a)"
    using assms perm_index_less by (simp_all add: alloc_inv_def alloc_shape_def table_shape_def)
  show ?thesis
    unfolding allocation_get_permission_def get_from_turn_permission_hashtable_def perm_at_def
  proof (rule slot_find_unique [OF l])
    fix q p
    assume "live_at ti_allocated (addr_to_perm a) q = Some p" "addr_eq_no_port (Some (ti_addr p)) (Some x)"
    then show "fst q = perm_index x" using links_okD(1) [OF L] perm_index_cong by (auto simp: perm_at_def perm_ok_def)
  next
    fix q p q' p'
    assume a: "live_at ti_allocated (addr_to_perm a) q = Some p" "addr_eq_no_port (Some (ti_addr p)) (Some x)"
      "live_at ti_allocated (addr_to_perm a) q' = Some p'" "addr_eq_no_port (Some (ti_addr p')) (Some x)"
    have "addr_eq_no_port (Some (ti_addr p)) (Some (ti_addr p'))"
      using a(2,4) addr_eq_no_port_trans addr_eq_no_port_sym by blast
    then show "q = q'" using links_okD(2) [OF L] a(1,3) by (simp add: perm_at_def)
  qed
qed

lemma get_ch_info_iff:
  assumes "alloc_inv a"
  shows "allocation_get_ch_info a n = Some r \<longleftrightarrow> (\<exists>c. chan_at a r = Some c \<and> ch_chnum c = n)"
proof -
  have L: "links_ok (perm_at a) (chan_at a)" and l: "ch_index n < length (chns a)"
    using assms ch_index_less by (simp_all add: alloc_inv_def alloc_shape_def table_shape_def)
  show ?thesis unfolding allocation_get_ch_info_def ch_map_get_def Let_def if_False fst_conv simp_thms chan_at_def
  proof (rule slot_find_unique [OF l])
    fix r c
    assume "live_at ch_allocated (chns a) r = Some c" "ch_chnum c = n"
    then show "fst r = ch_index n" using links_okD(3) [OF L] by (auto simp: chan_at_def chan_ok_def)
  next
    fix r c r' c'
    assume "live_at ch_allocated (chns a) r = Some c" "ch_chnum c = n" "live_at ch_allocated (chns a) r' = Some c'" "ch_chnum c' = n"
    then show "r = r'" using links_okD(4) [OF L] by (simp add: chan_at_def)
  qed
qed

text \<open>The key of a peer's port in the local map of its permission.\<close>

definition port_key :: "ioa_addr \<Rightarrow> u64" where
  "port_key x = of_int (addr_get_port (Some x))"

lemma port_key_ch: "port_key x = ucast (of_int (addr_get_port (Some x)) :: u16)"
proof -
  have r: "0 \<le> addr_get_port (Some x)" "addr_get_port (Some x) < 65536" using addr_get_port_range by auto
  have "uint (ucast (of_int (addr_get_port (Some x)) :: u16) :: u64) = addr_get_port (Some x)"
    unfolding unsigned_ucast_eq using r by (simp add: uint_word_of_int take_bit_int_eq_self)
  moreover have "uint (of_int (addr_get_port (Some x)) :: u64) = addr_get_port (Some x)"
    using r by (simp add: uint_word_of_int)
  ultimately show ?thesis unfolding port_key_def by (metis unsigned_word_eqI)
qed

lemma uint_port_key: "uint (port_key x) = addr_get_port (Some x)"
proof -
  have "0 \<le> addr_get_port (Some x)" "addr_get_port (Some x) < 65536" using addr_get_port_range by auto
  then show ?thesis by (simp add: port_key_def uint_word_of_int)
qed

lemma port_key_eq:
  assumes "ip_addr x" "ip_addr y"
  shows "port_key x = port_key y \<longleftrightarrow> sin_port x = sin_port y"
proof
  assume "port_key x = port_key y"
  then have "addr_get_port (Some x) = addr_get_port (Some y)" by (metis uint_port_key)
  then have "uint (nswap16 (sin_port x)) = uint (nswap16 (sin_port y))" using assms by (simp only: addr_get_port_ip)
  then have "nswap16 (sin_port x) = nswap16 (sin_port y)" by (rule unsigned_word_eqI)
  then show "sin_port x = sin_port y" by (metis nswap16_nswap16)
next
  assume "sin_port x = sin_port y"
  then show "port_key x = port_key y" using assms by (simp add: port_key_def addr_get_port_ip)
qed

lemma port_key_0: "port_key x = 0 \<longleftrightarrow> addr_get_port (Some x) = 0"
  by (metis uint_port_key unsigned_0 unsigned_word_eqI)

lemma chan_ok_key: "chan_ok r c \<Longrightarrow> ucast (ch_port c) = port_key (ch_peer_addr c)"
  by (simp add: chan_ok_def port_key_ch)

lemma linked_peer:
  assumes "chan_ok r c" "linked r c q p" "ip_addr x"
  shows "addr_eq (Some (ch_peer_addr c)) (Some x) \<longleftrightarrow>
    addr_eq_no_port (Some (ti_addr p)) (Some x) \<and> ucast (ch_port c) = port_key x"
proof -
  have i: "ip_addr (ch_peer_addr c)" using assms(1) by (simp add: chan_ok_def)
  have n: "addr_eq_no_port (Some (ti_addr p)) (Some (ch_peer_addr c))" using assms(2) by (simp add: linked_def)
  have "addr_eq_no_port (Some (ch_peer_addr c)) (Some x) \<longleftrightarrow> addr_eq_no_port (Some (ti_addr p)) (Some x)"
    using n addr_eq_no_port_trans addr_eq_no_port_sym by blast
  then show ?thesis using port_key_eq [OF i assms(3)] chan_ok_key [OF assms(1)] by (simp add: addr_eq_split_port)
qed

lemma get_ch_info_by_peer_iff:
  assumes "alloc_inv a" "ip_addr x"
  shows "allocation_get_ch_info_by_peer_addr a x = Some r \<longleftrightarrow>
    (\<exists>c. chan_at a r = Some c \<and> addr_eq (Some (ch_peer_addr c)) (Some x))"
proof -
  have L: "links_ok (perm_at a) (chan_at a)" and sh: "alloc_shape a" using assms by (simp_all add: alloc_inv_def)
  have by_perm: "allocation_get_ch_info_by_peer_addr a x =
      (case allocation_get_permission a x of Some q \<Rightarrow> get_turn_channel a q x | None \<Rightarrow> None)"
    by (simp add: allocation_get_ch_info_by_peer_addr_def allocation_get_permission_def)
  show ?thesis
  proof
    assume g: "allocation_get_ch_info_by_peer_addr a x = Some r"
    then obtain q where q: "allocation_get_permission a x = Some q" "get_turn_channel a q x = Some r"
      unfolding by_perm by (auto split: option.splits)
    then obtain p where p: "perm_at a q = Some p" "addr_eq_no_port (Some (ti_addr p)) (Some x)"
      using get_permission_iff [OF assms(1)] by blast
    obtain t where t: "lm_map_get (ti_chns p) (port_key x) = Some t" "r = ptr_ch t"
      using q(2) by (auto simp: get_turn_channel_def perm_load_at [OF p(1)] port_key_def split: option.splits if_splits)
    obtain r' c where c: "chan_at a r' = Some c" "t = ch_ptr r'" "linked r' c q p" "port_key x = ucast (ch_port c)"
      using links_okD(6) [OF L p(1) t(1)] by blast
    have "r = r'" using t(2) c(1,2) ptr_ch_ptr(1) alloc_inv_ref [OF sh] by simp
    then show "\<exists>c. chan_at a r = Some c \<and> addr_eq (Some (ch_peer_addr c)) (Some x)"
      using c(1,4) p(2) linked_peer [OF links_okD(3) [OF L c(1)] c(3) assms(2)] by auto
  next
    assume "\<exists>c. chan_at a r = Some c \<and> addr_eq (Some (ch_peer_addr c)) (Some x)"
    then obtain c where c: "chan_at a r = Some c" "addr_eq (Some (ch_peer_addr c)) (Some x)" by blast
    obtain q p where p: "perm_at a q = Some p" "linked r c q p" using links_okD(5) [OF L c(1)] by blast
    note l = linked_peer [OF links_okD(3) [OF L c(1)] p(2) assms(2)]
    have q: "allocation_get_permission a x = Some q" using get_permission_iff [OF assms(1)] p(1) l c(2) by blast
    have "lm_map_get (ti_chns p) (port_key x) = Some (ch_ptr r)" using p(2) l c(2) by (simp add: linked_def)
    moreover have "STUN_VALID_CHANNEL (ch_chnum c)" using links_okD(3) [OF L c(1)] by (simp add: chan_ok_def)
    ultimately show "allocation_get_ch_info_by_peer_addr a x = Some r"
      using ptr_ch_ptr [OF alloc_inv_ref [OF sh c(1)]]
      by (simp add: by_perm q get_turn_channel_def perm_load_at [OF p(1)] port_key_def [symmetric] ch_load_at [OF c(1)])
  qed
qed

section \<open>Operations on the tables\<close>

lemma perm_at_slot: "perm_at a q = Some p \<Longrightarrow> slot_at (addr_to_perm a) q \<noteq> None"
  unfolding perm_at_def using live_at_SomeD by fastforce

lemma chan_at_slot: "chan_at a r = Some c \<Longrightarrow> slot_at (chns a) r \<noteq> None"
  unfolding chan_at_def using live_at_SomeD by fastforce

lemma perm_store_laws:
  assumes "slot_at (addr_to_perm a) q \<noteq> None"
  shows "perm_at (perm_store a q p) = (perm_at a)(q := if ti_allocated p then Some p else None)"
    "chan_at (perm_store a q p) = chan_at a"
    "alloc_shape a \<Longrightarrow> ti_allocated p \<or> p = perm_zero \<Longrightarrow> alloc_shape (perm_store a q p)"
  using live_at_set [OF assms, of ti_allocated p]
  by (simp_all add: perm_at_def chan_at_def perm_store_def alloc_shape_def table_shape_set table_clean_set)

lemma ch_store_laws:
  assumes "slot_at (chns a) r \<noteq> None"
  shows "chan_at (ch_store a r c) = (chan_at a)(r := if ch_allocated c then Some c else None)"
    "perm_at (ch_store a r c) = perm_at a"
    "alloc_shape a \<Longrightarrow> ch_allocated c \<or> c = ch_zero \<Longrightarrow> alloc_shape (ch_store a r c)"
  using live_at_set [OF assms, of ch_allocated c]
  by (auto simp: perm_at_def chan_at_def ch_store_def alloc_shape_def table_shape_set table_clean_set slot_at_set split: if_splits)

lemma io_laws [simp]:
  "perm_at (a\<lparr>io := x\<rparr>) = perm_at a" "chan_at (a\<lparr>io := x\<rparr>) = chan_at a" "alloc_shape (a\<lparr>io := x\<rparr>) = alloc_shape a"
  by (simp_all add: perm_at_def chan_at_def alloc_shape_def)

lemma lm_map_get_init [simp]: "lm_map_get lm_map_init k = None"
  using lm_index_less [of k] by (simp add: lm_map_get_def lm_map_init_def lm_array_zero_def lm_consts numeral_3_eq_3 Let_def)

lemma zero_free [simp]: "\<not> ti_allocated perm_zero" "\<not> ch_allocated ch_zero"
  by (simp_all add: perm_zero_def ch_zero_def)

subsection \<open>A new permission\<close>

lemma add_permission_laws:
  assumes "alloc_inv a" "allocation_get_permission a x = None" "allocation_add_permission a x = (q, a')"
  defines "p0 \<equiv> perm_zero\<lparr>ti_allocated := True, ti_addr := x\<rparr>"
  shows "perm_at a q = None" "perm_at a' = (perm_at a)(q \<mapsto> p0)" "chan_at a' = chan_at a" "alloc_inv a'"
proof -
  have L: "links_ok (perm_at a) (chan_at a)" and sh: "alloc_shape a" using assms by (simp_all add: alloc_inv_def)
  obtain m where m: "slot_new ti_allocated perm_zero (addr_to_perm a) (perm_index x) = (q, m)"
    "a' = a\<lparr>addr_to_perm := slot_set m q p0\<rparr>"
    using assms(3) by (auto simp: allocation_add_permission_def p0_def split: prod.splits)
  have n: "slot_at m q = Some perm_zero" "live_at ti_allocated m = perm_at a" "perm_at a q = None" "fst q = perm_index x"
    "table_shape TURN_PERMISSION_HASHTABLE_SIZE TURN_PERMISSION_ARRAY_SIZE m" "table_clean ti_allocated perm_zero m"
    using slot_new_laws [OF alloc_shapeD(1) [OF sh] perm_index_less zero_free(1) alloc_shapeD(2) [OF sh] m(1)]
    by (simp_all add: perm_at_def)
  show "perm_at a q = None" by (rule n(3))
  have u: "ti_allocated p0" by (simp add: p0_def)
  show P: "perm_at a' = (perm_at a)(q \<mapsto> p0)"
    using live_at_set [of m q ti_allocated p0] n(1,2) u by (simp add: perm_at_def m(2))
  show C: "chan_at a' = chan_at a" by (simp add: chan_at_def m(2))
  have "alloc_shape a'" using sh n(5,6) u by (simp add: alloc_shape_def m(2) table_shape_set table_clean_set)
  moreover have "links_ok (perm_at a') (chan_at a')" unfolding P C
  proof (rule links_okI)
    have no: "\<not> addr_eq_no_port (Some (ti_addr p)) (Some x)" if "perm_at a r = Some p" for r p
      using get_permission_iff [OF assms(1)] assms(2) that by (metis option.distinct(1))
    have k: "perm_ok q p0" using n(4) by (simp add: perm_ok_def p0_def perm_zero_def lm_inv_init)
    show "perm_ok r p" if "((perm_at a)(q \<mapsto> p0)) r = Some p" for r p
      using that k links_okD(1) [OF L] by (auto split: if_splits)
    show "r = r'" if h: "((perm_at a)(q \<mapsto> p0)) r = Some p" "((perm_at a)(q \<mapsto> p0)) r' = Some p'"
      "addr_eq_no_port (Some (ti_addr p)) (Some (ti_addr p'))" for r p r' p'
    proof (rule ccontr)
      assume "r \<noteq> r'"
      then consider "r = q" "p = p0" "perm_at a r' = Some p'" | "r' = q" "p' = p0" "perm_at a r = Some p"
        | "perm_at a r = Some p" "perm_at a r' = Some p'" using h(1,2) by (metis fun_upd_apply option.inject)
      then show False
      proof cases
        case 1
        have "addr_eq_no_port (Some (ti_addr p')) (Some x)" 
          using addr_eq_no_port_symD [OF h(3)] by (simp add: 1 p0_def)
        then show ?thesis using no 1(3) by blast
      next
        case 2
        then show ?thesis using no [OF 2(3)] h(3) by (simp add: 2(2) p0_def)
      next
        case 3
        then show ?thesis using links_okD(2) [OF L 3 h(3)] \<open>r \<noteq> r'\<close> by blast
      qed
    qed
    show "\<exists>r p. ((perm_at a)(q \<mapsto> p0)) r = Some p \<and> linked s c r p" if "chan_at a s = Some c" for s c
      using links_okD(5) [OF L that] n(3) by (metis fun_upd_apply option.distinct(1))
    show "\<exists>s c. chan_at a s = Some c \<and> v = ch_ptr s \<and> linked s c r p \<and> k = ucast (ch_port c)"
      if h: "((perm_at a)(q \<mapsto> p0)) r = Some p" "lm_map_get (ti_chns p) k = Some v" for r p k v
    proof (cases "r = q")
      case True
      then have "p = p0" using h(1) by simp
      then show ?thesis using h(2) by (simp add: p0_def perm_zero_def)
    next
      case False
      then have "perm_at a r = Some p" using h(1) by simp
      then show ?thesis using links_okD(6) [OF L _ h(2)] by blast
    qed
  qed (use links_okD(3,4) [OF L] in blast)+
  ultimately show "alloc_inv a'" by (simp add: alloc_inv_def)
qed

subsection \<open>A new channel\<close>

text \<open>A bucket that is full holds channels of different numbers, so it is short.\<close>

lemma full_bucket:
  assumes "alloc_inv a" "b < CH_MAP_HASH_SIZE" "slot_find (\<lambda>c. \<not> ch_allocated c) (chns a) b = None"
  shows "length (slots_of (chns a ! b)) \<le> 2 ^ 16"
proof -
  let ?sl = "slots_of (chns a ! b)"
  have L: "links_ok (perm_at a) (chan_at a)" and b: "b < length (chns a)"
    using assms(1,2) by (simp_all add: alloc_inv_def alloc_shape_def table_shape_def)
  have c: "chan_at a (b, i) = Some (?sl ! i)" if "i < length ?sl" for i
    using that b assms(3) nth_mem by (fastforce simp: chan_at_def live_at_def slot_at_def slot_find_slots find_slot_None)
  have "inj_on (\<lambda>i. ch_chnum (?sl ! i)) {..<length ?sl}"
    using links_okD(4) [OF L c c] by (auto simp: inj_on_def)
  then have "card {..<length ?sl} \<le> card (UNIV :: u16 set)" by (rule card_inj_on_le) simp_all
  then show ?thesis by (simp add: card_word)
qed

lemma slot_new_refs:
  assumes "alloc_inv a" "b < CH_MAP_HASH_SIZE" "slot_new ch_allocated ch_zero (chns a) b = (r, m)" "slot_at m r' \<noteq> None"
  shows "ch_ref_ok r'"
proof (cases "slot_find (\<lambda>c. \<not> ch_allocated c) (chns a) b")
  case None
  have b: "b < length (chns a)" using assms(1,2) by (simp add: alloc_inv_def alloc_shape_def table_shape_def)
  have ap: "slot_append (chns a) b ch_zero = (r, m)" using assms(3) None by (simp add: slot_new_def)
  have "r = (b, length (slots_of (chns a ! b)))" using ap by (simp add: slot_append_def Let_def)
  then have "ch_ref_ok r" using full_bucket [OF assms(1,2) None] assms(2) by (simp add: ch_ref_ok_def)
  moreover have "ch_ref_ok r'" if "slot_at (chns a) r' \<noteq> None"
    using that assms(1) alloc_shapeD(5) unfolding alloc_inv_def by blast
  ultimately show ?thesis using assms(4) slot_at_append(2) [OF b ap, of r'] by (auto split: if_splits)
next
  case (Some q)
  then have "m = chns a" using assms(3) by (simp add: slot_new_def)
  then show ?thesis using assms(1,4) alloc_shapeD(5) unfolding alloc_inv_def by blast
qed

lemma linked_chns:
  "linked r c q (p\<lparr>ti_chns := m\<rparr>) \<longleftrightarrow> ch_owner c = Some q \<and>
     addr_eq_no_port (Some (ti_addr p)) (Some (ch_peer_addr c)) \<and> lm_map_get m (ucast (ch_port c)) = Some (ch_ptr r)"
  by (simp add: linked_def)

text \<open>Registering a channel with a permission of the peer's address.\<close>

definition bound_channel :: "u16 \<Rightarrow> ioa_addr \<Rightarrow> slot_ref \<Rightarrow> ch_info" where
  "bound_channel n x q = ch_zero\<lparr>ch_allocated := True, ch_chnum := n,
     ch_port := of_int (addr_get_port (Some x)), ch_peer_addr := x, ch_owner := Some q\<rparr>"

lemma links_bind:
  assumes L: "links_ok P C" and r: "C r = None" "ch_ref_ok r" "fst r = ch_index n"
    and n: "STUN_VALID_CHANNEL n" "\<And>s c. C s = Some c \<Longrightarrow> ch_chnum c \<noteq> n"
    and x: "ip_addr x" "port_key x \<noteq> 0" "P q = Some p" "addr_eq_no_port (Some (ti_addr p)) (Some x)"
      "lm_map_get (ti_chns p) (port_key x) = None"
  shows "links_ok (P(q \<mapsto> p\<lparr>ti_chns := snd (lm_map_put (ti_chns p) (port_key x) (ch_ptr r))\<rparr>)) (C(r \<mapsto> bound_channel n x q))"
    (is "links_ok (P(q \<mapsto> ?p)) (C(r \<mapsto> ?c))")
proof (rule links_okI)
  have lm: "lm_inv (ti_chns p)" using links_okD(1) [OF L x(3)] by (simp add: perm_ok_def)
  note put = lm_map_put_fresh [OF lm x(2) ptr_ch_ptr(2) [OF r(2)] x(5)]
  have look: "lm_map_get (ti_chns ?p) k = (if port_key x = k then Some (ch_ptr r) else lm_map_get (ti_chns p) k)" for k
    using put(3) [of k] by (cases "k = 0") (use x(2) in auto)
  have old: "linked s d q ?p" if "linked s d q p" for s d
    using that x(5) unfolding linked_def look by auto
  show "perm_ok s e" if "(P(q \<mapsto> ?p)) s = Some e" for s e
    using that links_okD(1) [OF L x(3)] links_okD(1) [OF L, of s e] put(2) by (cases "s = q") (auto simp: perm_ok_def)
  show "s = s'" if "(P(q \<mapsto> ?p)) s = Some e" "(P(q \<mapsto> ?p)) s' = Some e'"
    "addr_eq_no_port (Some (ti_addr e)) (Some (ti_addr e'))" for s e s' e'
  proof -
    have "\<exists>f. P t = Some f \<and> ti_addr f = ti_addr g" if "(P(q \<mapsto> ?p)) t = Some g" for t g
      using that x(3) by (cases "t = q") auto
    then show ?thesis using that links_okD(2) [OF L] by metis
  qed
  show "chan_ok s d" if "(C(r \<mapsto> ?c)) s = Some d" for s d
    using that links_okD(3) [OF L, of s d] n(1) r(3) x(1,2)
    by (cases "s = r") (auto simp: chan_ok_def bound_channel_def port_key_ch)
  show "s = s'" if "(C(r \<mapsto> ?c)) s = Some d" "(C(r \<mapsto> ?c)) s' = Some d'" "ch_chnum d = ch_chnum d'" for s d s' d'
  proof (cases "s = r"; cases "s' = r")
    assume h: "s = r" "s' \<noteq> r"
    then show ?thesis using that n(2) [of s' d'] by (auto simp: bound_channel_def)
  next
    assume h: "s \<noteq> r" "s' = r"
    then show ?thesis using that n(2) [of s d] by (auto simp: bound_channel_def)
  next
    assume h: "s \<noteq> r" "s' \<noteq> r"
    then show ?thesis using that links_okD(4) [OF L, of s d s' d'] by simp
  qed simp
  have key: "ucast (ch_port ?c) = port_key x" by (simp add: bound_channel_def port_key_ch)
  have new: "linked r ?c q ?p" using x(4) unfolding linked_chns key by (simp add: bound_channel_def look [simplified])
  show "\<exists>t e. (P(q \<mapsto> ?p)) t = Some e \<and> linked s d t e" if h: "(C(r \<mapsto> ?c)) s = Some d" for s d
  proof (cases "s = r")
    case True
    then have "d = ?c" using h by simp
    then show ?thesis using new True by (intro exI [of _ q] exI [of _ ?p]) simp
  next
    case False
    then obtain t e where te: "P t = Some e" "linked s d t e" using h links_okD(5) [OF L, of s d] by auto
    show ?thesis
    proof (cases "t = q")
      case True
      then have "linked s d q ?p" using te x(3) old by simp
      then show ?thesis by (intro exI [of _ q] exI [of _ ?p]) simp
    next
      case False
      then show ?thesis using te by (intro exI [of _ t] exI [of _ e]) simp
    qed
  qed
  show "\<exists>s d. (C(r \<mapsto> ?c)) s = Some d \<and> v = ch_ptr s \<and> linked s d t e \<and> k = ucast (ch_port d)"
    if h: "(P(q \<mapsto> ?p)) t = Some e" "lm_map_get (ti_chns e) k = Some v" for t e k v
  proof (cases "t = q \<and> k = port_key x")
    case True
    then show ?thesis using h new look [of k] key by (intro exI [of _ r] exI [of _ ?c]) auto
  next
    case False
    have "\<exists>s d. C s = Some d \<and> v = ch_ptr s \<and> linked s d t e \<and> k = ucast (ch_port d)"
    proof (cases "t = q")
      case True
      then have "lm_map_get (ti_chns p) k = Some v" "e = ?p" using h False look [of k] by auto
      then show ?thesis using links_okD(6) [OF L x(3), of k v] old True by blast
    next
      case f: False
      then have "P t = Some e" using h(1) by simp
      then show ?thesis using links_okD(6) [OF L _ h(2)] by blast
    qed
    then obtain s d where s: "C s = Some d" "v = ch_ptr s" "linked s d t e" "k = ucast (ch_port d)" by blast
    moreover have "s \<noteq> r" using s(1) r(1) by auto
    ultimately show ?thesis by (intro exI [of _ s] exI [of _ d]) simp
  qed
qed

lemma no_channel_key:
  assumes "alloc_inv a" "ip_addr x" "perm_at a q = Some p" "addr_eq_no_port (Some (ti_addr p)) (Some x)"
    "allocation_get_ch_info_by_peer_addr a x = None"
  shows "lm_map_get (ti_chns p) (port_key x) = None"
proof (rule ccontr)
  have L: "links_ok (perm_at a) (chan_at a)" using assms(1) by (simp add: alloc_inv_def)
  assume "lm_map_get (ti_chns p) (port_key x) \<noteq> None"
  then obtain v where "lm_map_get (ti_chns p) (port_key x) = Some v" by blast
  from links_okD(6) [OF L assms(3) this] obtain r c where
    c: "chan_at a r = Some c" "linked r c q p" "port_key x = ucast (ch_port c)" by blast
  have "addr_eq (Some (ch_peer_addr c)) (Some x)"
    using linked_peer [OF links_okD(3) [OF L c(1)] c(2) assms(2)] assms(4) c(3) by simp
  then show False using get_ch_info_by_peer_iff [OF assms(1,2)] c(1) assms(5) by (metis option.distinct(1))
qed

lemma bind_channel_laws:
  assumes inv: "alloc_inv a" and x: "ip_addr x" "addr_get_port (Some x) \<noteq> 0" and n: "STUN_VALID_CHANNEL n"
    and free: "allocation_get_ch_info a n = None" "allocation_get_ch_info_by_peer_addr a x = None"
    and p: "perm_at a q = Some p" "addr_eq_no_port (Some (ti_addr p)) (Some x)"
    and m: "ch_map_get (chns a) n True = (Some r, m)"
  defines "p' \<equiv> p\<lparr>ti_chns := snd (lm_map_put (ti_chns p) (port_key x) (ch_ptr r))\<rparr>"
  defines "a' \<equiv> perm_store (ch_store (a\<lparr>chns := m\<rparr>) r (bound_channel n x q)) q p'"
  shows "chan_at a r = None" "chan_at a' = (chan_at a)(r \<mapsto> bound_channel n x q)" "perm_at a' = (perm_at a)(q \<mapsto> p')" "alloc_inv a'"
    "slot_at m r = Some ch_zero"
proof -
  have L: "links_ok (perm_at a) (chan_at a)" and sh: "alloc_shape a" using inv by (simp_all add: alloc_inv_def)
  have new: "slot_new ch_allocated ch_zero (chns a) (ch_index n) = (r, m)"
    using m by (auto simp: ch_map_get_def split: prod.splits)
  note sn = slot_new_laws [OF alloc_shapeD(3) [OF sh] ch_index_less zero_free(2) alloc_shapeD(4) [OF sh] new]
  show z: "slot_at m r = Some ch_zero" by (rule sn(1))
  show r: "chan_at a r = None" using sn(3) by (simp add: chan_at_def)
  define a1 where "a1 = a\<lparr>chns := m\<rparr>"
  have v1: "chan_at a1 = chan_at a" "perm_at a1 = perm_at a" "slot_at (chns a1) r \<noteq> None" "addr_to_perm a1 = addr_to_perm a"
    using sn(1,2) by (simp_all add: a1_def chan_at_def perm_at_def)
  have s1: "alloc_shape a1"
    using sh sn(5,6) slot_new_refs [OF inv ch_index_less new] unfolding alloc_shape_def a1_def by simp
  have rr: "ch_ref_ok r" using slot_new_refs [OF inv ch_index_less new] z by simp
  define a2 where "a2 = ch_store a1 r (bound_channel n x q)"
  have bu: "ch_allocated (bound_channel n x q)" by (simp add: bound_channel_def)
  have v2: "chan_at a2 = (chan_at a)(r \<mapsto> bound_channel n x q)" "perm_at a2 = perm_at a" "alloc_shape a2" "addr_to_perm a2 = addr_to_perm a"
    using ch_store_laws [OF v1(3), of "bound_channel n x q"] v1 s1 bu by (simp_all add: a2_def ch_store_def)
  have up: "ti_allocated p'" using p(1) by (auto simp: p'_def perm_at_def dest: live_at_SomeD)
  have sl: "slot_at (addr_to_perm a2) q \<noteq> None" using perm_at_slot [OF p(1)] v2(4) by simp
  have a': "a' = perm_store a2 q p'" by (simp add: a'_def a2_def a1_def)
  show C: "chan_at a' = (chan_at a)(r \<mapsto> bound_channel n x q)" and P: "perm_at a' = (perm_at a)(q \<mapsto> p')"
    using perm_store_laws [OF sl, of p'] v2 up by (simp_all add: a')
  have "alloc_shape a'" using perm_store_laws(3) [OF sl v2(3), of p'] up by (simp add: a')
  moreover have nc: "ch_chnum c \<noteq> n" if "chan_at a s = Some c" for s c
    using get_ch_info_iff [OF inv, of n s] free(1) that by auto
  have k0: "port_key x \<noteq> 0" using x(2) by (simp add: port_key_0)
  have "links_ok (perm_at a') (chan_at a')"
    unfolding P C p'_def
    by (rule links_bind [OF L r rr sn(4) n nc x(1) k0 p no_channel_key [OF inv x(1) p free(2)]])
  ultimately show "alloc_inv a'" by (simp add: alloc_inv_def)
qed

text \<open>The permission of a peer, added when there is none.\<close>

lemma permission_for:
  assumes inv: "alloc_inv a" and x: "ip_addr x"
  obtains q a1 p where "(case get_from_turn_permission_hashtable (addr_to_perm a) x of Some q \<Rightarrow> (q, a) | None \<Rightarrow> allocation_add_permission a x) = (q, a1)"
    "alloc_inv a1" "chan_at a1 = chan_at a" "perm_at a1 q = Some p" "addr_eq_no_port (Some (ti_addr p)) (Some x)"
    "\<And>s e. perm_at a1 s = Some e \<Longrightarrow> perm_at a s = Some e \<or> addr_eq_no_port (Some (ti_addr e)) (Some x)"
    "\<And>s e. perm_at a s = Some e \<Longrightarrow> perm_at a1 s = Some e"
proof (cases "allocation_get_permission a x")
  case None
  obtain q a1 where ad: "allocation_add_permission a x = (q, a1)" by fastforce
  note l = add_permission_laws [OF inv None ad]
  show ?thesis
    by (rule that [of q a1, OF _ l(4,3)])
      (use None ad l(1,2) x in \<open>auto simp: allocation_get_permission_def split: if_splits\<close>)
next
  case (Some q)
  then obtain p where "perm_at a q = Some p" "addr_eq_no_port (Some (ti_addr p)) (Some x)"
    using get_permission_iff [OF inv] by blast
  then show ?thesis using that [of q a, OF _ inv] Some by (auto simp: allocation_get_permission_def)
qed

lemma new_ch_info_laws:
  assumes inv: "alloc_inv a" and x: "ip_addr x" "addr_get_port (Some x) \<noteq> 0" and n: "STUN_VALID_CHANNEL n"
    and free: "allocation_get_ch_info a n = None" "allocation_get_ch_info_by_peer_addr a x = None"
  obtains r a' q where "allocation_get_new_ch_info a n x = (r, a')" "alloc_inv a'" "chan_at a r = None"
    "chan_at a' = (chan_at a)(r \<mapsto> bound_channel n x q)"
    "\<And>y. (\<exists>s e. perm_at a' s = Some e \<and> addr_eq_no_port (Some (ti_addr e)) (Some y)) \<longleftrightarrow>
       (\<exists>s e. perm_at a s = Some e \<and> addr_eq_no_port (Some (ti_addr e)) (Some y)) \<or> addr_eq_no_port (Some x) (Some y)"
proof (rule permission_for [OF inv x(1)])
  fix q a1 p
  assume a1: "(case get_from_turn_permission_hashtable (addr_to_perm a) x of Some q \<Rightarrow> (q, a) | None \<Rightarrow> allocation_add_permission a x) = (q, a1)"
    "alloc_inv a1" "chan_at a1 = chan_at a" "perm_at a1 q = Some p" "addr_eq_no_port (Some (ti_addr p)) (Some x)"
    "\<And>s e. perm_at a1 s = Some e \<Longrightarrow> perm_at a s = Some e \<or> addr_eq_no_port (Some (ti_addr e)) (Some x)"
    "\<And>s e. perm_at a s = Some e \<Longrightarrow> perm_at a1 s = Some e"
  have f1: "allocation_get_ch_info a1 n = None" "allocation_get_ch_info_by_peer_addr a1 x = None"
    using free get_ch_info_iff [OF a1(2), of n] get_ch_info_iff [OF inv, of n]
      get_ch_info_by_peer_iff [OF a1(2) x(1)] get_ch_info_by_peer_iff [OF inv x(1)] unfolding a1(3)
    by (metis not_Some_eq)+
  obtain r m where m: "ch_map_get (chns a1) n True = (Some r, m)"
    by (cases "slot_new ch_allocated ch_zero (chns a1) (ch_index n)") (simp add: ch_map_get_def)
  define p' where "p' = p\<lparr>ti_chns := snd (lm_map_put (ti_chns p) (port_key x) (ch_ptr r))\<rparr>"
  define a' where "a' = perm_store (ch_store (a1\<lparr>chns := m\<rparr>) r (bound_channel n x q)) q p'"
  note b = bind_channel_laws [OF a1(2) x n f1 a1(4,5) m, folded p'_def, folded a'_def]
  have "ch_load (a1\<lparr>chns := m\<rparr>) r = ch_zero" using b(5) by (simp add: ch_load_def)
  moreover have "perm_load (ch_store (a1\<lparr>chns := m\<rparr>) r (bound_channel n x q)) q = p"
    using perm_load_at [OF a1(4)] by (simp add: perm_load_def ch_store_def)
  ultimately have e: "allocation_get_new_ch_info a n x = (r, a')"
    using a1(1) by (simp add: allocation_get_new_ch_info_def m Let_def bound_channel_def [symmetric] a'_def p'_def port_key_def)
  have ad: "ti_addr p' = ti_addr p" by (simp add: p'_def)
  have pm: "(\<exists>s e. perm_at a' s = Some e \<and> addr_eq_no_port (Some (ti_addr e)) (Some y)) \<longleftrightarrow>
      (\<exists>s e. perm_at a s = Some e \<and> addr_eq_no_port (Some (ti_addr e)) (Some y)) \<or> addr_eq_no_port (Some x) (Some y)" for y
  proof -
    have "(\<exists>s e. perm_at a' s = Some e \<and> addr_eq_no_port (Some (ti_addr e)) (Some y)) \<longleftrightarrow>
        (\<exists>s e. perm_at a1 s = Some e \<and> addr_eq_no_port (Some (ti_addr e)) (Some y))"
      unfolding b(3) using a1(4) ad by (metis fun_upd_apply option.inject)
    also have "\<dots> \<longleftrightarrow> (\<exists>s e. perm_at a s = Some e \<and> addr_eq_no_port (Some (ti_addr e)) (Some y)) \<or> addr_eq_no_port (Some x) (Some y)"
      using a1(4-7) addr_eq_no_port_trans addr_eq_no_port_symD by meson
    finally show ?thesis .
  qed
  show ?thesis using that [OF e b(4)] b(1,2) a1(3) pm by simp
qed

subsection \<open>Deleting a channel\<close>

lemma links_unbind:
  assumes L: "links_ok P C" and ok: "\<And>s c. C s = Some c \<Longrightarrow> ch_ref_ok s"
    and r: "C r = Some c" "P q = Some p" "linked r c q p"
  shows "links_ok (P(q \<mapsto> p\<lparr>ti_chns := fst (snd (lm_map_del (ti_chns p) (ucast (ch_port c))))\<rparr>)) (C(r := None))"
    (is "links_ok (P(q \<mapsto> ?p)) _")
proof (rule links_okI)
  let ?k = "ucast (ch_port c) :: u64"
  have lm: "lm_inv (ti_chns p)" using links_okD(1) [OF L r(2)] by (simp add: perm_ok_def)
  have g: "lm_map_get (ti_chns p) ?k = Some (ch_ptr r)" using r(3) by (simp add: linked_def)
  then have k0: "?k \<noteq> 0" by (metis lm_map_get_zero option.distinct(1))
  have look: "lm_map_get (ti_chns ?p) k = (if ?k = k then None else lm_map_get (ti_chns p) k)" for k
    using lm_map_del_laws(2) [OF lm k0, of k] by (cases "k = 0") (use k0 in auto)
  have inv: "lm_inv (ti_chns ?p)" using lm_map_del_laws(1) [OF lm k0] by simp
  have old: "linked s d q ?p" if "linked s d q p" "C s = Some d" "s \<noteq> r" for s d
  proof -
    have "ucast (ch_port d) \<noteq> ?k"
    proof
      assume "ucast (ch_port d) = ?k"
      then have "ch_ptr s = ch_ptr r" using that(1) g by (simp add: linked_def)
      then show False using ptr_ch_ptr(1) [OF ok [OF that(2)]] ptr_ch_ptr(1) [OF ok [OF r(1)]] that(3) by simp
    qed
    then show ?thesis using that(1) unfolding linked_def look by auto
  qed
  show "perm_ok s e" if "(P(q \<mapsto> ?p)) s = Some e" for s e
    using that links_okD(1) [OF L r(2)] links_okD(1) [OF L, of s e] inv by (cases "s = q") (auto simp: perm_ok_def)
  show "s = s'" if "(P(q \<mapsto> ?p)) s = Some e" "(P(q \<mapsto> ?p)) s' = Some e'"
    "addr_eq_no_port (Some (ti_addr e)) (Some (ti_addr e'))" for s e s' e'
  proof -
    have "\<exists>f. P t = Some f \<and> ti_addr f = ti_addr g" if "(P(q \<mapsto> ?p)) t = Some g" for t g
      using that r(2) by (cases "t = q") auto
    then show ?thesis using that links_okD(2) [OF L] by metis
  qed
  show "chan_ok s d" if "(C(r := None)) s = Some d" for s d
    using that links_okD(3) [OF L, of s d] by (cases "s = r") auto
  show "s = s'" if "(C(r := None)) s = Some d" "(C(r := None)) s' = Some d'" "ch_chnum d = ch_chnum d'" for s d s' d'
    using that links_okD(4) [OF L, of s d s' d'] by (cases "s = r"; cases "s' = r") auto
  show "\<exists>t e. (P(q \<mapsto> ?p)) t = Some e \<and> linked s d t e" if h: "(C(r := None)) s = Some d" for s d
  proof -
    have s: "s \<noteq> r" "C s = Some d" using h by (cases "s = r"; simp)+
    obtain t e where te: "P t = Some e" "linked s d t e" using links_okD(5) [OF L s(2)] by blast
    show ?thesis
    proof (cases "t = q")
      case True
      then have "linked s d q ?p" using te r(2) old s by simp
      then show ?thesis by (intro exI [of _ q] exI [of _ ?p]) simp
    next
      case False
      then show ?thesis using te by (intro exI [of _ t] exI [of _ e]) simp
    qed
  qed
  show "\<exists>s d. (C(r := None)) s = Some d \<and> v = ch_ptr s \<and> linked s d t e \<and> k = ucast (ch_port d)"
    if h: "(P(q \<mapsto> ?p)) t = Some e" "lm_map_get (ti_chns e) k = Some v" for t e k v
  proof (cases "t = q")
    case True
    then have e: "e = ?p" using h(1) by simp
    then have k: "k \<noteq> ?k" "lm_map_get (ti_chns p) k = Some v" using h(2) look [of k] by (auto split: if_splits)
    obtain s d where s: "C s = Some d" "v = ch_ptr s" "linked s d q p" "k = ucast (ch_port d)"
      using links_okD(6) [OF L r(2) k(2)] by blast
    have "s \<noteq> r" using s(1,4) r(1) k(1) by auto
    then show ?thesis using s old [OF s(3,1)] True e by (intro exI [of _ s] exI [of _ d]) simp
  next
    case False
    then have t: "P t = Some e" using h(1) by simp
    obtain s d where s: "C s = Some d" "v = ch_ptr s" "linked s d t e" "k = ucast (ch_port d)"
      using links_okD(6) [OF L t h(2)] by blast
    have "s \<noteq> r" using s(1,3) r(1,3) False by (auto simp: linked_def)
    then show ?thesis using s by (intro exI [of _ s] exI [of _ d]) simp
  qed
qed

lemma ch_info_clean_laws:
  "chan_at (ch_info_clean r a) = (chan_at a)(r := None)" "addr_to_perm (ch_info_clean r a) = addr_to_perm a"
  "perm_at (ch_info_clean r a) = perm_at a" "alloc_shape a \<Longrightarrow> alloc_shape (ch_info_clean r a)"
proof -
  have "live_at ch_allocated (slot_set (chns a) r ch_zero) = (live_at ch_allocated (chns a))(r := None)"
    by (auto simp: fun_eq_iff live_at_def slot_at_set split: option.splits)
  then show "chan_at (ch_info_clean r a) = (chan_at a)(r := None)"
    by (simp add: chan_at_def ch_info_clean_def ch_store_def Let_def)
  show p: "addr_to_perm (ch_info_clean r a) = addr_to_perm a" "perm_at (ch_info_clean r a) = perm_at a"
    by (simp_all add: perm_at_def ch_info_clean_def ch_store_def Let_def)
  show "alloc_shape (ch_info_clean r a)" if "alloc_shape a"
  proof -
    note D = alloc_shapeD [OF that]
    have "chns (ch_info_clean r a) = slot_set (chns a) r ch_zero" by (simp add: ch_info_clean_def ch_store_def Let_def)
    moreover have "slot_at (slot_set (chns a) r ch_zero) s \<noteq> None \<Longrightarrow> ch_ref_ok s" for s
      using D(5) [of s] D(5) [of r] by (auto simp: slot_at_set split: if_splits)
    ultimately show ?thesis
      unfolding alloc_shape_def p using D(1,2) table_shape_set [OF D(3)] table_clean_set [OF D(4)] by simp
  qed
qed

lemma channel_delete_laws:
  assumes inv: "alloc_inv a" and c: "chan_at a r = Some c"
  shows "alloc_inv (turn_channel_delete r a)" "chan_at (turn_channel_delete r a) = (chan_at a)(r := None)"
    "(\<exists>s e. perm_at (turn_channel_delete r a) s = Some e \<and> addr_eq_no_port (Some (ti_addr e)) (Some y)) \<longleftrightarrow>
     (\<exists>s e. perm_at a s = Some e \<and> addr_eq_no_port (Some (ti_addr e)) (Some y))"
proof -
  have L: "links_ok (perm_at a) (chan_at a)" and sh: "alloc_shape a" using inv by (simp_all add: alloc_inv_def)
  obtain q p where q: "perm_at a q = Some p" "linked r c q p" using links_okD(5) [OF L c] by blast
  define p' where "p' = p\<lparr>ti_chns := fst (snd (lm_map_del (ti_chns p) (ucast (ch_port c))))\<rparr>"
  have ck: "chan_ok r c" by (rule links_okD(3) [OF L c])
  have key: "of_int (addr_get_port (Some (ch_peer_addr c))) = (ucast (ch_port c) :: u64)"
    using chan_ok_key [OF ck] by (simp add: port_key_def)
  have e: "turn_channel_delete r a = ch_info_clean r (perm_store a q p')"
    using q ptr_ch_ptr [OF alloc_inv_ref [OF sh c]]
    by (simp add: turn_channel_delete_def delete_channel_info_from_allocation_map_def Let_def ch_load_at [OF c]
      perm_load_at [OF q(1)] linked_def p'_def key)
  have up: "ti_allocated p'" using q(1) by (auto simp: p'_def perm_at_def dest: live_at_SomeD)
  note ps = perm_store_laws [OF perm_at_slot [OF q(1)], of p']
  show C: "chan_at (turn_channel_delete r a) = (chan_at a)(r := None)"
    by (simp add: e ch_info_clean_laws ps)
  have P: "perm_at (turn_channel_delete r a) = (perm_at a)(q \<mapsto> p')"
    by (simp add: e ch_info_clean_laws ps up)
  have "alloc_shape (turn_channel_delete r a)" unfolding e using ps(3) [OF sh] up by (simp add: ch_info_clean_laws(4))
  moreover have "links_ok (perm_at (turn_channel_delete r a)) (chan_at (turn_channel_delete r a))"
    unfolding P C p'_def by (rule links_unbind [OF L alloc_inv_ref [OF sh] c q])
  ultimately show "alloc_inv (turn_channel_delete r a)" by (simp add: alloc_inv_def)
  have "ti_addr p' = ti_addr p" by (simp add: p'_def)
  then show "(\<exists>s e. perm_at (turn_channel_delete r a) s = Some e \<and> addr_eq_no_port (Some (ti_addr e)) (Some y)) \<longleftrightarrow>
     (\<exists>s e. perm_at a s = Some e \<and> addr_eq_no_port (Some (ti_addr e)) (Some y))"
    unfolding P using q(1) by (metis fun_upd_apply option.inject)
qed

subsection \<open>Cleaning a permission\<close>

lemma lm_slots_foreach_fold:
  assumes "\<And>k v s. \<not> fst (func k v s)" "\<And>k v. (k, v) \<in> set es \<Longrightarrow> k \<noteq> 0 \<and> v \<noteq> 0"
  shows "lm_slots_foreach func es s = (False, fold (\<lambda>(k, v) s. snd (func k v s)) es s)"
  using assms(2)
proof (induction es arbitrary: s)
  case (Cons e es)
  obtain k v where e: "e = (k, v)" by fastforce
  obtain s' where f: "func k v s = (False, s')" using assms(1) [of k v s] by (cases "func k v s") simp
  have kv: "k \<noteq> 0" "v \<noteq> 0" using Cons.prems [of k v] by (simp_all add: e)
  have "lm_slots_foreach func es s' = (False, fold (\<lambda>(k, v) s. snd (func k v s)) es s')"
    by (rule Cons.IH, rule Cons.prems) simp
  then show ?case by (simp add: e f kv)
qed simp

lemma fold_clean_laws:
  "chan_at (fold (\<lambda>r. ch_info_clean r) rs a) s = (if s \<in> set rs then None else chan_at a s)"
  "addr_to_perm (fold (\<lambda>r. ch_info_clean r) rs a) = addr_to_perm a"
  "alloc_shape a \<Longrightarrow> alloc_shape (fold (\<lambda>r. ch_info_clean r) rs a)"
  by (induction rs arbitrary: a) (simp_all add: ch_info_clean_laws)

lemma permission_clean_fold:
  assumes "alloc_inv a" "perm_at a q = Some p"
  shows "turn_permission_clean q a = perm_store (fold (\<lambda>r. ch_info_clean r) (map (\<lambda>(k, v). ptr_ch v) (lm_entries (ti_chns p)))
    (a\<lparr>io := io a @ IOA_EVENT_DEL (ti_lifetime_ev p)\<rparr>)) q perm_zero"
proof -
  let ?a = "a\<lparr>io := io a @ IOA_EVENT_DEL (ti_lifetime_ev p)\<rparr>" and ?es = "lm_entries (ti_chns p)"
  have nz: "k \<noteq> 0 \<and> v \<noteq> 0" if "(k, v) \<in> set ?es" for k v using that by (auto simp: lm_entries_def)
  have al: "ti_allocated p" using assms(2) by (auto simp: perm_at_def dest: live_at_SomeD)
  have "lm_slots_foreach delete_channel_info_from_allocation_map ?es ?a =
      (False, fold (\<lambda>(k, v) s. snd (delete_channel_info_from_allocation_map k v s)) ?es ?a)"
    by (rule lm_slots_foreach_fold) (use nz in \<open>simp_all add: delete_channel_info_from_allocation_map_def\<close>)
  also have "fold (\<lambda>(k, v) s. snd (delete_channel_info_from_allocation_map k v s)) ?es ?a =
      fold (\<lambda>r. ch_info_clean r) (map (\<lambda>(k, v). ptr_ch v) ?es) ?a"
    unfolding fold_map by (rule fold_cong) (use nz in \<open>auto simp: delete_channel_info_from_allocation_map_def fun_eq_iff\<close>)
  finally show ?thesis
    using al by (simp add: turn_permission_clean_def perm_load_at [OF assms(2)] lm_map_foreach_arg_def lm_table_foreach_entries)
qed

lemma permission_clean_laws:
  assumes inv: "alloc_inv a" and p: "perm_at a q = Some p"
  shows "alloc_inv (turn_permission_clean q a)" "perm_at (turn_permission_clean q a) = (perm_at a)(q := None)"
    "chan_at (turn_permission_clean q a) s = (case chan_at a s of Some c \<Rightarrow> if ch_owner c = Some q then None else Some c | None \<Rightarrow> None)"
proof -
  have L: "links_ok (perm_at a) (chan_at a)" and sh: "alloc_shape a" using inv by (simp_all add: alloc_inv_def)
  have lm: "lm_inv (ti_chns p)" using links_okD(1) [OF L p] by (simp add: perm_ok_def)
  define rs where "rs = map (\<lambda>(k, v). ptr_ch v) (lm_entries (ti_chns p))"
  define a1 where "a1 = fold (\<lambda>r. ch_info_clean r) rs (a\<lparr>io := io a @ IOA_EVENT_DEL (ti_lifetime_ev p)\<rparr>)"
  have e: "turn_permission_clean q a = perm_store a1 q perm_zero"
    unfolding a1_def rs_def by (rule permission_clean_fold [OF inv p])
  have rs: "s \<in> set rs \<longleftrightarrow> (\<exists>c. chan_at a s = Some c \<and> ch_owner c = Some q)" for s
  proof
    assume "s \<in> set rs"
    then obtain k v where kv: "lm_map_get (ti_chns p) k = Some v" "s = ptr_ch v"
      using lm_entries_set [OF lm] by (auto simp: rs_def)
    obtain r c where "chan_at a r = Some c" "v = ch_ptr r" "linked r c q p" using links_okD(6) [OF L p kv(1)] by blast
    then show "\<exists>c. chan_at a s = Some c \<and> ch_owner c = Some q"
      using kv(2) ptr_ch_ptr(1) alloc_inv_ref [OF sh] by (auto simp: linked_def)
  next
    assume "\<exists>c. chan_at a s = Some c \<and> ch_owner c = Some q"
    then obtain c where c: "chan_at a s = Some c" "ch_owner c = Some q" by blast
    obtain q' p' where l: "perm_at a q' = Some p'" "linked s c q' p'" using links_okD(5) [OF L c(1)] by blast
    then have "q' = q" "p' = p" using c(2) p by (auto simp: linked_def)
    then have "(ucast (ch_port c), ch_ptr s) \<in> set (lm_entries (ti_chns p))"
      using l(2) lm_entries_set [OF lm] by (auto simp: linked_def)
    moreover have "ptr_ch (ch_ptr s) = s" using ptr_ch_ptr(1) alloc_inv_ref [OF sh c(1)] by blast
    ultimately show "s \<in> set rs" unfolding rs_def by (force simp: image_iff)
  qed
  have ch: "chan_at a1 s = (case chan_at a s of Some c \<Rightarrow> if ch_owner c = Some q then None else Some c | None \<Rightarrow> None)" for s
    using rs [of s] fold_clean_laws(1) [of rs "a\<lparr>io := io a @ IOA_EVENT_DEL (ti_lifetime_ev p)\<rparr>" s]
    by (auto simp: a1_def split: option.splits)
  have pm: "addr_to_perm a1 = addr_to_perm a" by (simp add: a1_def fold_clean_laws(2))
  have sl: "slot_at (addr_to_perm a1) q \<noteq> None" using perm_at_slot [OF p] pm by simp
  have s1: "alloc_shape a1" using sh by (simp add: a1_def fold_clean_laws(3))
  note ps = perm_store_laws [OF sl, of perm_zero]
  show P: "perm_at (turn_permission_clean q a) = (perm_at a)(q := None)"
    using ps(1) pm by (simp add: e perm_at_def)
  show C: "chan_at (turn_permission_clean q a) s = (case chan_at a s of Some c \<Rightarrow> if ch_owner c = Some q then None else Some c | None \<Rightarrow> None)" for s
    using ps(2) ch by (simp add: e)
  have live: "chan_at a s = Some c \<and> ch_owner c \<noteq> Some q" if "chan_at (turn_permission_clean q a) s = Some c" for s c
    using that C [of s] by (auto split: option.splits if_splits)
  have keep: "chan_at (turn_permission_clean q a) s = Some c" if "chan_at a s = Some c" "ch_owner c \<noteq> Some q" for s c
    using that C [of s] by simp
  have "links_ok (perm_at (turn_permission_clean q a)) (chan_at (turn_permission_clean q a))"
  proof (rule links_okI)
    fix t e assume h: "perm_at (turn_permission_clean q a) t = Some e"
    then have t: "perm_at a t = Some e" "t \<noteq> q" unfolding P by (auto split: if_splits)
    show "perm_ok t e" by (rule links_okD(1) [OF L t(1)])
    show "t = t'" if "perm_at (turn_permission_clean q a) t' = Some e'" "addr_eq_no_port (Some (ti_addr e)) (Some (ti_addr e'))" for t' e'
      using that links_okD(2) [OF L t(1)] unfolding P by (auto split: if_splits)
    fix k v assume "lm_map_get (ti_chns e) k = Some v"
    from links_okD(6) [OF L t(1) this] obtain s d where s: "chan_at a s = Some d" "v = ch_ptr s" "linked s d t e" "k = ucast (ch_port d)"
      by blast
    moreover have "ch_owner d \<noteq> Some q" using s(3) t(2) by (simp add: linked_def)
    ultimately show "\<exists>s d. chan_at (turn_permission_clean q a) s = Some d \<and> v = ch_ptr s \<and> linked s d t e \<and> k = ucast (ch_port d)"
      using keep by blast
  next
    fix s d assume h: "chan_at (turn_permission_clean q a) s = Some d"
    note o = live [OF h]
    show "chan_ok s d" using o links_okD(3) [OF L] by blast
    show "s = s'" if "chan_at (turn_permission_clean q a) s' = Some d'" "ch_chnum d = ch_chnum d'" for s' d'
      using that(2) o live [OF that(1)] links_okD(4) [OF L] by blast
    obtain t e where t: "perm_at a t = Some e" "linked s d t e" using o links_okD(5) [OF L] by blast
    moreover have "t \<noteq> q" using t(2) o by (auto simp: linked_def)
    ultimately show "\<exists>t e. perm_at (turn_permission_clean q a) t = Some e \<and> linked s d t e"
      unfolding P by (intro exI [of _ t] exI [of _ e]) simp
  qed
  moreover have "alloc_shape (turn_permission_clean q a)" using ps(3) [OF s1] by (simp add: e)
  ultimately show "alloc_inv (turn_permission_clean q a)" by (simp add: alloc_inv_def)
qed

end
