(* ===== verification/Alloc_Refine.thy ===== *)
theory Alloc_Refine
  imports Alloc_Laws
begin

text \<open>
  What the permissions and channels of an allocation promise: a set of permitted peer addresses and a partial map
  from channel numbers to peers, one to one, whose peers are permitted. Every sequence of requests and timeouts on a
  new allocation refines it.
\<close>

section \<open>The abstract allocation\<close>

text \<open>The view of the tables: permitted addresses, and the peer of a channel number.\<close>

definition permitted :: "allocation \<Rightarrow> ioa_addr \<Rightarrow> bool" where
  "permitted a x \<longleftrightarrow> allocation_get_permission a x \<noteq> None"

definition channel_peer :: "allocation \<Rightarrow> u16 \<Rightarrow> ioa_addr option" where
  "channel_peer a n = map_option (\<lambda>r. ch_peer_addr (ch_load a r)) (allocation_get_ch_info a n)"

datatype alloc_op =
    Create_permission ioa_addr
  | Channel_bind u16 ioa_addr
  | Channel_timeout u16
  | Permission_timeout ioa_addr

text \<open>
  The table updates that the requests and the timers of the server make: a permission is added when there is none, a
  channel is created when neither its number nor its peer is bound, and the timeouts delete what they name.
\<close>

fun alloc_step :: "alloc_op \<Rightarrow> allocation \<Rightarrow> allocation" where
  "alloc_step (Create_permission x) a =
     (case allocation_get_permission a x of Some q \<Rightarrow> a | None \<Rightarrow> snd (allocation_add_permission a x))"
| "alloc_step (Channel_bind n x) a =
     (case allocation_get_ch_info a n of
        Some r \<Rightarrow> a
      | None \<Rightarrow>
          (case allocation_get_ch_info_by_peer_addr a x of
             Some r \<Rightarrow> a
           | None \<Rightarrow> snd (allocation_get_new_ch_info a n x)))"
| "alloc_step (Channel_timeout n) a =
     (case allocation_get_ch_info a n of Some r \<Rightarrow> turn_channel_delete r a | None \<Rightarrow> a)"
| "alloc_step (Permission_timeout x) a =
     (case allocation_get_permission a x of Some q \<Rightarrow> turn_permission_clean q a | None \<Rightarrow> a)"

fun op_ok :: "alloc_op \<Rightarrow> bool" where
  "op_ok (Create_permission x) \<longleftrightarrow> True"
| "op_ok (Channel_bind n x) \<longleftrightarrow> ip_addr x \<and> addr_get_port (Some x) \<noteq> 0 \<and> STUN_VALID_CHANNEL n"
| "op_ok (Channel_timeout n) \<longleftrightarrow> True"
| "op_ok (Permission_timeout x) \<longleftrightarrow> True"

type_synonym alloc_view = "(ioa_addr \<Rightarrow> bool) \<times> (u16 \<Rightarrow> ioa_addr option)"

fun spec_step :: "alloc_op \<Rightarrow> alloc_view \<Rightarrow> alloc_view" where
  "spec_step (Create_permission x) (P, C) = (\<lambda>y. P y \<or> addr_eq_no_port (Some x) (Some y), C)"
| "spec_step (Channel_bind n x) (P, C) =
     (if C n \<noteq> None \<or> (\<exists>m y. C m = Some y \<and> addr_eq (Some y) (Some x)) then (P, C)
      else (\<lambda>y. P y \<or> addr_eq_no_port (Some x) (Some y), C(n \<mapsto> x)))"
| "spec_step (Channel_timeout n) (P, C) = (P, C(n := None))"
| "spec_step (Permission_timeout x) (P, C) =
     (\<lambda>y. P y \<and> \<not> addr_eq_no_port (Some x) (Some y),
      \<lambda>n. case C n of Some y \<Rightarrow> if addr_eq_no_port (Some x) (Some y) then None else Some y | None \<Rightarrow> None)"

definition alloc_view :: "allocation \<Rightarrow> alloc_view" where
  "alloc_view a = (permitted a, channel_peer a)"

lemma permitted_iff:
  "alloc_inv a \<Longrightarrow> permitted a x \<longleftrightarrow> (\<exists>q p. perm_at a q = Some p \<and> addr_eq_no_port (Some (ti_addr p)) (Some x))"
  unfolding permitted_def using get_permission_iff [of a x] by (metis not_Some_eq)

lemma channel_peer_iff:
  assumes "alloc_inv a"
  shows "channel_peer a n = Some y \<longleftrightarrow> (\<exists>r c. chan_at a r = Some c \<and> ch_chnum c = n \<and> ch_peer_addr c = y)"
proof -
  have "channel_peer a n = Some y \<longleftrightarrow> (\<exists>r. allocation_get_ch_info a n = Some r \<and> ch_peer_addr (ch_load a r) = y)"
    unfolding channel_peer_def by auto
  then show ?thesis unfolding get_ch_info_iff [OF assms] using ch_load_at by metis
qed

lemma channel_peer_None: "channel_peer a n = None \<longleftrightarrow> allocation_get_ch_info a n = None"
  by (simp add: channel_peer_def)

lemma channel_peer_eqI:
  assumes "alloc_inv a" "\<And>n y. (\<exists>r c. chan_at a r = Some c \<and> ch_chnum c = n \<and> ch_peer_addr c = y) \<longleftrightarrow> f n = Some y"
  shows "channel_peer a = f"
proof
  fix n
  show "channel_peer a n = f n" using channel_peer_iff [OF assms(1), of n] assms(2) [of n] by (cases "f n") (metis not_Some_eq)+
qed

lemma alloc_inv_init: "alloc_inv init_allocation"
proof -
  let ?p = "init_turn_permission_hashtable" and ?c = "chns init_allocation"
  have p: "slot_at ?p r = Some x \<Longrightarrow> x = perm_zero" for r x
    unfolding init_turn_permission_hashtable_def by (rule slot_at_init)
  have c: "slot_at ?c r = Some x \<Longrightarrow> x = ch_zero" for r x
    unfolding init_allocation_def by simp (rule slot_at_init)
  have "ch_ref_ok r" if "slot_at ?c r \<noteq> None" for r
    using that by (auto simp: slot_at_def init_allocation_def slots_of_def ch_ref_ok_def alloc_consts split: if_splits)
  then have "alloc_shape init_allocation"
    unfolding alloc_shape_def table_clean_def using p c
    by (simp add: init_allocation_def) (simp add: init_turn_permission_hashtable_def table_shape_init)
  moreover have "perm_at init_allocation r = None" for r
    using p [of r] by (auto simp: perm_at_def live_at_def init_allocation_def split: option.splits)
  moreover have "chan_at init_allocation r = None" for r
    using c [of r] by (auto simp: chan_at_def live_at_def split: option.splits)
  ultimately show ?thesis unfolding alloc_inv_def links_ok_def by simp
qed

section \<open>Every step refines the abstract step\<close>

text \<open>The elements of a partial function after an update.\<close>

lemma ex_upd_fresh:
  assumes "f r = None"
  shows "(\<exists>s c. (f(r \<mapsto> d)) s = Some c \<and> Q c) \<longleftrightarrow> Q d \<or> (\<exists>s c. f s = Some c \<and> Q c)"
proof
  assume "\<exists>s c. (f(r \<mapsto> d)) s = Some c \<and> Q c"
  then obtain s c where h: "(f(r \<mapsto> d)) s = Some c" "Q c" by blast
  then show "Q d \<or> (\<exists>s c. f s = Some c \<and> Q c)" by (cases "s = r") auto
next
  assume "Q d \<or> (\<exists>s c. f s = Some c \<and> Q c)"
  then show "\<exists>s c. (f(r \<mapsto> d)) s = Some c \<and> Q c"
  proof
    assume "Q d"
    then show ?thesis by (intro exI [of _ r] exI [of _ d]) simp
  next
    assume "\<exists>s c. f s = Some c \<and> Q c"
    then obtain s c where h: "f s = Some c" "Q c" by blast
    then have "s \<noteq> r" using assms by auto
    then show ?thesis using h by (intro exI [of _ s] exI [of _ c]) simp
  qed
qed

lemma ex_upd_None: "(\<exists>s c. (f(r := None)) s = Some c \<and> Q c) \<longleftrightarrow> (\<exists>s c. s \<noteq> r \<and> f s = Some c \<and> Q c)"
proof -
  have "(f(r := None)) s = Some c \<longleftrightarrow> s \<noteq> r \<and> f s = Some c" for s c by simp
  then show ?thesis by blast
qed

lemma step_create_ip:
  assumes "alloc_inv a" "ip_addr x"
  shows "alloc_inv (alloc_step (Create_permission x) a)"
    "alloc_view (alloc_step (Create_permission x) a) = spec_step (Create_permission x) (alloc_view a)"
proof -
  obtain q a1 p where p: "(case get_from_turn_permission_hashtable (addr_to_perm a) x of Some q \<Rightarrow> (q, a) | None \<Rightarrow> allocation_add_permission a x) = (q, a1)"
    "alloc_inv a1" "chan_at a1 = chan_at a" "perm_at a1 q = Some p" "addr_eq_no_port (Some (ti_addr p)) (Some x)"
    "\<And>s e. perm_at a1 s = Some e \<Longrightarrow> perm_at a s = Some e \<or> addr_eq_no_port (Some (ti_addr e)) (Some x)"
    "\<And>s e. perm_at a s = Some e \<Longrightarrow> perm_at a1 s = Some e"
    by (rule permission_for [OF assms], rule that)
  have e: "alloc_step (Create_permission x) a = a1"
    using p(1) by (auto simp: allocation_get_permission_def split: option.splits)
  show "alloc_inv (alloc_step (Create_permission x) a)" unfolding e by (rule p(2))
  have "permitted a1 y \<longleftrightarrow> permitted a y \<or> addr_eq_no_port (Some x) (Some y)" for y
    unfolding permitted_iff [OF p(2)] permitted_iff [OF assms(1)]
    using p(4-7) addr_eq_no_port_trans addr_eq_no_port_symD by meson
  moreover have "channel_peer a1 = channel_peer a"
    by (rule channel_peer_eqI [OF p(2)]) (simp add: p(3) channel_peer_iff [OF assms(1)])
  ultimately show "alloc_view (alloc_step (Create_permission x) a) = spec_step (Create_permission x) (alloc_view a)"
    unfolding e alloc_view_def by (simp add: fun_eq_iff)
qed

text \<open>An address that is not an IP address, which a malformed request leads to, gets a permission that no lookup finds.\<close>

lemma not_ip_no_eq: "\<not> ip_addr x \<Longrightarrow> \<not> addr_eq_no_port (Some y) (Some x)" "\<not> ip_addr x \<Longrightarrow> \<not> addr_eq_no_port (Some x) (Some y)"
  using addr_eq_no_port_Some addr_eq_no_port_symD by blast+

lemma add_not_ip:
  assumes "alloc_inv a" "\<not> ip_addr x" "allocation_add_permission a x = (q, a')"
  shows "allocation_get_permission a x = None" "alloc_inv a'" "alloc_view a' = alloc_view a"
proof -
  show n: "allocation_get_permission a x = None"
    using get_permission_iff [OF assms(1), of x] not_ip_no_eq(1) [OF assms(2)] by (metis not_Some_eq)
  note l = add_permission_laws [OF assms(1) n assms(3)]
  show "alloc_inv a'" by (rule l(4))
  have "permitted a' y \<longleftrightarrow> permitted a y" for y
    unfolding permitted_iff [OF l(4)] permitted_iff [OF assms(1)] l(2)
      ex_upd_fresh [where f = "perm_at a" and r = q, OF l(1), where Q = "\<lambda>p. addr_eq_no_port (Some (ti_addr p)) (Some y)"]
    using not_ip_no_eq(2) [OF assms(2)] by simp
  moreover have "channel_peer a' = channel_peer a"
    by (rule channel_peer_eqI [OF l(4)]) (simp add: l(3) channel_peer_iff [OF assms(1)])
  ultimately show "alloc_view a' = alloc_view a" unfolding alloc_view_def by (simp add: fun_eq_iff)
qed

lemma step_create:
  assumes "alloc_inv a"
  shows "alloc_inv (alloc_step (Create_permission x) a)"
    "alloc_view (alloc_step (Create_permission x) a) = spec_step (Create_permission x) (alloc_view a)"
proof -
  have "alloc_inv (alloc_step (Create_permission x) a) \<and>
    alloc_view (alloc_step (Create_permission x) a) = spec_step (Create_permission x) (alloc_view a)"
  proof (cases "ip_addr x")
    case False
    obtain q a' where ad: "allocation_add_permission a x = (q, a')" by fastforce
    note l = add_not_ip [OF assms False ad]
    have "alloc_step (Create_permission x) a = a'" by (simp add: l(1) ad)
    then show ?thesis using l(2,3) not_ip_no_eq(2) [OF False] by (simp add: alloc_view_def)
  qed (use assms step_create_ip in blast)
  then show "alloc_inv (alloc_step (Create_permission x) a)"
    "alloc_view (alloc_step (Create_permission x) a) = spec_step (Create_permission x) (alloc_view a)" by blast+
qed

lemma peer_bound_iff:
  assumes "alloc_inv a" "ip_addr x"
  shows "allocation_get_ch_info_by_peer_addr a x \<noteq> None \<longleftrightarrow>
    (\<exists>m y. channel_peer a m = Some y \<and> addr_eq (Some y) (Some x))"
proof -
  have "allocation_get_ch_info_by_peer_addr a x \<noteq> None \<longleftrightarrow>
      (\<exists>r c. chan_at a r = Some c \<and> addr_eq (Some (ch_peer_addr c)) (Some x))"
    using get_ch_info_by_peer_iff [OF assms] by (metis not_Some_eq)
  then show ?thesis unfolding channel_peer_iff [OF assms(1)] by metis
qed

lemma step_bind:
  assumes inv: "alloc_inv a" and x: "ip_addr x" "addr_get_port (Some x) \<noteq> 0" and n: "STUN_VALID_CHANNEL n"
  shows "alloc_inv (alloc_step (Channel_bind n x) a)"
    "alloc_view (alloc_step (Channel_bind n x) a) = spec_step (Channel_bind n x) (alloc_view a)"
proof -
  have "alloc_inv (alloc_step (Channel_bind n x) a) \<and>
    alloc_view (alloc_step (Channel_bind n x) a) = spec_step (Channel_bind n x) (alloc_view a)"
  proof (cases "allocation_get_ch_info a n = None \<and> allocation_get_ch_info_by_peer_addr a x = None")
    case False
    then have "alloc_step (Channel_bind n x) a = a" by (auto split: option.splits)
    moreover have "channel_peer a n \<noteq> None \<or> (\<exists>m y. channel_peer a m = Some y \<and> addr_eq (Some y) (Some x))"
      using False peer_bound_iff [OF inv x(1)] channel_peer_None [of a n] by blast
    then have "spec_step (Channel_bind n x) (alloc_view a) = alloc_view a"
      unfolding alloc_view_def spec_step.simps by (simp only: if_True)
    ultimately show ?thesis using inv by simp
  next
    case True
    obtain r a' q where r: "allocation_get_new_ch_info a n x = (r, a')" "alloc_inv a'" "chan_at a r = None"
      "chan_at a' = (chan_at a)(r \<mapsto> bound_channel n x q)"
      "\<And>y. (\<exists>s e. perm_at a' s = Some e \<and> addr_eq_no_port (Some (ti_addr e)) (Some y)) \<longleftrightarrow>
         (\<exists>s e. perm_at a s = Some e \<and> addr_eq_no_port (Some (ti_addr e)) (Some y)) \<or> addr_eq_no_port (Some x) (Some y)"
      by (rule new_ch_info_laws [OF inv x n conjunct1 [OF True] conjunct2 [OF True]], rule that)
    have e: "alloc_step (Channel_bind n x) a = a'" using True r(1) by simp
    have fr: "channel_peer a n = None" "\<not> (\<exists>m y. channel_peer a m = Some y \<and> addr_eq (Some y) (Some x))"
      using True peer_bound_iff [OF inv x(1)] channel_peer_None [of a n] by blast+
    have bc: "ch_chnum (bound_channel n x q) = n" "ch_peer_addr (bound_channel n x q) = x" by (simp_all add: bound_channel_def)
    have "channel_peer a' = (channel_peer a)(n \<mapsto> x)"
    proof (rule channel_peer_eqI [OF r(2)])
      fix m y
      have "(\<exists>s c. chan_at a' s = Some c \<and> ch_chnum c = m \<and> ch_peer_addr c = y) \<longleftrightarrow>
          (m = n \<and> y = x) \<or> (\<exists>s c. chan_at a s = Some c \<and> ch_chnum c = m \<and> ch_peer_addr c = y)"
        unfolding r(4) ex_upd_fresh [where f = "chan_at a" and r = r, OF r(3), where Q = "\<lambda>c. ch_chnum c = m \<and> ch_peer_addr c = y"] bc by blast
      also have "\<dots> \<longleftrightarrow> ((channel_peer a)(n \<mapsto> x)) m = Some y"
        unfolding channel_peer_iff [OF inv, symmetric] using fr(1) by auto
      finally show "(\<exists>s c. chan_at a' s = Some c \<and> ch_chnum c = m \<and> ch_peer_addr c = y) \<longleftrightarrow> ((channel_peer a)(n \<mapsto> x)) m = Some y" .
    qed
    moreover have "permitted a' y \<longleftrightarrow> permitted a y \<or> addr_eq_no_port (Some x) (Some y)" for y
      unfolding permitted_iff [OF r(2)] permitted_iff [OF inv] by (rule r(5))
    moreover have "spec_step (Channel_bind n x) (alloc_view a) =
        (\<lambda>y. permitted a y \<or> addr_eq_no_port (Some x) (Some y), (channel_peer a)(n \<mapsto> x))"
      unfolding alloc_view_def spec_step.simps using fr by (simp only: simp_thms if_False not_False_eq_True)
    ultimately show ?thesis using e r(2) by (simp add: alloc_view_def fun_eq_iff)
  qed
  then show "alloc_inv (alloc_step (Channel_bind n x) a)"
    "alloc_view (alloc_step (Channel_bind n x) a) = spec_step (Channel_bind n x) (alloc_view a)" by blast+
qed

lemma step_channel_timeout:
  assumes inv: "alloc_inv a"
  shows "alloc_inv (alloc_step (Channel_timeout n) a)"
    "alloc_view (alloc_step (Channel_timeout n) a) = spec_step (Channel_timeout n) (alloc_view a)"
proof -
  have "alloc_inv (alloc_step (Channel_timeout n) a) \<and>
    alloc_view (alloc_step (Channel_timeout n) a) = spec_step (Channel_timeout n) (alloc_view a)"
  proof (cases "allocation_get_ch_info a n")
    case None
    then have "channel_peer a n = None" by (simp add: channel_peer_None)
    then have "(channel_peer a)(n := None) = channel_peer a" by auto
    then show ?thesis using None inv by (simp add: alloc_view_def)
  next
    case (Some r)
    then obtain c where c: "chan_at a r = Some c" "ch_chnum c = n" using get_ch_info_iff [OF inv] by blast
    note d = channel_delete_laws [OF inv c(1)]
    have u: "s = r" if "chan_at a s = Some e" "ch_chnum e = n" for s e
      using that c inv links_okD(4) unfolding alloc_inv_def by blast
    have "channel_peer (turn_channel_delete r a) = (channel_peer a)(n := None)"
    proof (rule channel_peer_eqI [OF d(1)])
      fix m y
      have "(\<exists>s e. chan_at (turn_channel_delete r a) s = Some e \<and> ch_chnum e = m \<and> ch_peer_addr e = y) \<longleftrightarrow>
          m \<noteq> n \<and> (\<exists>s e. chan_at a s = Some e \<and> ch_chnum e = m \<and> ch_peer_addr e = y)"
        unfolding d(2) ex_upd_None using u c by (metis option.inject)
      then show "(\<exists>s e. chan_at (turn_channel_delete r a) s = Some e \<and> ch_chnum e = m \<and> ch_peer_addr e = y) \<longleftrightarrow>
          ((channel_peer a)(n := None)) m = Some y" unfolding channel_peer_iff [OF inv, symmetric] by simp
    qed
    moreover have "permitted (turn_channel_delete r a) = permitted a"
      by (rule ext) (simp only: permitted_iff [OF d(1)] permitted_iff [OF inv] d(3))
    ultimately show ?thesis using Some d(1) by (simp add: alloc_view_def)
  qed
  then show "alloc_inv (alloc_step (Channel_timeout n) a)"
    "alloc_view (alloc_step (Channel_timeout n) a) = spec_step (Channel_timeout n) (alloc_view a)" by blast+
qed

lemma step_permission_timeout:
  assumes inv: "alloc_inv a"
  shows "alloc_inv (alloc_step (Permission_timeout x) a)"
    "alloc_view (alloc_step (Permission_timeout x) a) = spec_step (Permission_timeout x) (alloc_view a)"
proof -
  have L: "links_ok (perm_at a) (chan_at a)" using inv by (simp add: alloc_inv_def)
  have own: "\<exists>q p. perm_at a q = Some p \<and> ch_owner c = Some q \<and> addr_eq_no_port (Some (ti_addr p)) (Some (ch_peer_addr c))"
    if "chan_at a s = Some c" for s c
    using links_okD(5) [OF L that] unfolding linked_def by blast
  have "alloc_inv (alloc_step (Permission_timeout x) a) \<and>
    alloc_view (alloc_step (Permission_timeout x) a) = spec_step (Permission_timeout x) (alloc_view a)"
  proof (cases "allocation_get_permission a x")
    case None
    have no: "\<not> addr_eq_no_port (Some (ti_addr p)) (Some x)" if "perm_at a q = Some p" for q p
      using get_permission_iff [OF inv, of x q] None that by auto
    have "permitted a y \<and> \<not> addr_eq_no_port (Some x) (Some y) \<longleftrightarrow> permitted a y" for y
      unfolding permitted_iff [OF inv] using no addr_eq_no_port_trans addr_eq_no_port_symD by meson
    moreover have "\<not> addr_eq_no_port (Some x) (Some y)" if h: "channel_peer a m = Some y" for m y
    proof -
      obtain s c where "chan_at a s = Some c" "ch_peer_addr c = y" using h channel_peer_iff [OF inv] by blast
      then show ?thesis using own no addr_eq_no_port_trans addr_eq_no_port_symD by meson
    qed
    then have "(case channel_peer a m of Some y \<Rightarrow> if addr_eq_no_port (Some x) (Some y) then None else Some y | None \<Rightarrow> None) =
        channel_peer a m" for m by (auto split: option.splits)
    ultimately show ?thesis using None inv by (simp add: alloc_view_def)
  next
    case (Some q)
    then obtain p where p: "perm_at a q = Some p" "addr_eq_no_port (Some (ti_addr p)) (Some x)"
      using get_permission_iff [OF inv] by blast
    note cl = permission_clean_laws [OF inv p(1)]
    have uq: "t = q" if "perm_at a t = Some e" "addr_eq_no_port (Some x) (Some (ti_addr e))" for t e
      using links_okD(2) [OF L p(1) that(1) addr_eq_no_port_trans [OF p(2) that(2)]] by simp
    have pm: "permitted (turn_permission_clean q a) y \<longleftrightarrow> permitted a y \<and> \<not> addr_eq_no_port (Some x) (Some y)" for y
    proof
      assume "permitted (turn_permission_clean q a) y"
      then obtain t e where t: "perm_at a t = Some e" "t \<noteq> q" "addr_eq_no_port (Some (ti_addr e)) (Some y)"
        unfolding permitted_iff [OF cl(1)] cl(2) ex_upd_None by blast
      then show "permitted a y \<and> \<not> addr_eq_no_port (Some x) (Some y)"
        using uq permitted_iff [OF inv] addr_eq_no_port_trans addr_eq_no_port_symD by meson
    next
      assume h: "permitted a y \<and> \<not> addr_eq_no_port (Some x) (Some y)"
      then obtain t e where t: "perm_at a t = Some e" "addr_eq_no_port (Some (ti_addr e)) (Some y)"
        using permitted_iff [OF inv] by blast
      have "t \<noteq> q" using t p h addr_eq_no_port_trans addr_eq_no_port_symD by (metis option.inject)
      then show "permitted (turn_permission_clean q a) y"
        unfolding permitted_iff [OF cl(1)] cl(2) using t by (intro exI [of _ t] exI [of _ e]) simp
    qed
    have ow: "ch_owner c = Some q \<longleftrightarrow> addr_eq_no_port (Some x) (Some (ch_peer_addr c))" if h: "chan_at a s = Some c" for s c
    proof -
      obtain t e where t: "perm_at a t = Some e" "ch_owner c = Some t" "addr_eq_no_port (Some (ti_addr e)) (Some (ch_peer_addr c))"
        using own [OF h] by blast
      show ?thesis using t p uq addr_eq_no_port_trans addr_eq_no_port_symD by (metis option.inject)
    qed
    have "channel_peer (turn_permission_clean q a) =
        (\<lambda>n. case channel_peer a n of Some y \<Rightarrow> if addr_eq_no_port (Some x) (Some y) then None else Some y | None \<Rightarrow> None)"
    proof (rule channel_peer_eqI [OF cl(1)])
      fix m y
      have "chan_at (turn_permission_clean q a) s = Some c \<longleftrightarrow> chan_at a s = Some c \<and> \<not> addr_eq_no_port (Some x) (Some (ch_peer_addr c))" for s c
        unfolding cl(3) using ow [of s] by (auto split: option.splits)
      then have "(\<exists>s c. chan_at (turn_permission_clean q a) s = Some c \<and> ch_chnum c = m \<and> ch_peer_addr c = y) \<longleftrightarrow>
          \<not> addr_eq_no_port (Some x) (Some y) \<and> channel_peer a m = Some y"
        unfolding channel_peer_iff [OF inv] by metis
      then show "(\<exists>s c. chan_at (turn_permission_clean q a) s = Some c \<and> ch_chnum c = m \<and> ch_peer_addr c = y) \<longleftrightarrow>
          (case channel_peer a m of Some y \<Rightarrow> if addr_eq_no_port (Some x) (Some y) then None else Some y | None \<Rightarrow> None) = Some y"
        by (auto split: option.splits)
    qed
    then show ?thesis using Some cl(1) pm by (simp add: alloc_view_def fun_eq_iff)
  qed
  then show "alloc_inv (alloc_step (Permission_timeout x) a)"
    "alloc_view (alloc_step (Permission_timeout x) a) = spec_step (Permission_timeout x) (alloc_view a)" by blast+
qed

lemma alloc_step_refines:
  assumes "alloc_inv a" "op_ok op"
  shows "alloc_inv (alloc_step op a)" "alloc_view (alloc_step op a) = spec_step op (alloc_view a)"
  using assms step_create step_bind step_channel_timeout step_permission_timeout
  by (cases op; simp del: alloc_step.simps spec_step.simps)+

lemma alloc_run_inv: "alloc_inv a \<Longrightarrow> list_all op_ok ops \<Longrightarrow> alloc_inv (fold alloc_step ops a)"
  by (induction ops arbitrary: a) (simp_all add: alloc_step_refines)

lemma alloc_run_view:
  "alloc_inv a \<Longrightarrow> list_all op_ok ops \<Longrightarrow> alloc_view (fold alloc_step ops a) = fold spec_step ops (alloc_view a)"
  by (induction ops arbitrary: a) (simp_all add: alloc_step_refines)

section \<open>Property\<close>

lemma alloc_view_init: "alloc_view init_allocation = (\<lambda>x. False, Map.empty)"
proof -
  have "perm_at init_allocation q = None" for q
    using slot_at_init [of TURN_PERMISSION_HASHTABLE_SIZE TURN_PERMISSION_ARRAY_SIZE perm_zero q]
    by (auto simp: perm_at_def live_at_def init_allocation_def init_turn_permission_hashtable_def split: option.splits)
  then have "\<not> permitted init_allocation x" for x unfolding permitted_iff [OF alloc_inv_init] by simp
  moreover have "chan_at init_allocation r = None" for r
    using slot_at_init [of CH_MAP_HASH_SIZE CH_MAP_ARRAY_SIZE ch_zero r]
    by (auto simp: chan_at_def live_at_def init_allocation_def split: option.splits)
  then have "channel_peer init_allocation = Map.empty" by (intro channel_peer_eqI [OF alloc_inv_init]) simp
  ultimately show ?thesis by (simp add: alloc_view_def fun_eq_iff)
qed

text \<open>\<^bold>\<open>C4\<close>: the hash tables of an allocation, with their linked permissions, channels and per-permission port maps,
  implement a set of permitted addresses and a partial map from channel numbers to peers. After any sequence of
  permissions created, channels bound to a peer with a nonzero port, and timeouts, the lookups of the code answer as
  the abstract sequence says; a permission that times out takes its channels with it, and a bind is refused when the
  number or the peer is already bound.\<close>

theorem alloc_refines:
  assumes "list_all op_ok ops"
  shows "alloc_view (fold alloc_step ops init_allocation) = fold spec_step ops (\<lambda>x. False, Map.empty)"
  using alloc_run_view [OF alloc_inv_init assms] by (simp only: alloc_view_init)

theorem alloc_refines_witness:
  "channel_peer (fold alloc_step
     [Create_permission (v4 1 0), Channel_bind 0x4000 (v4 1 80), Channel_bind 0x4001 (v4 1 81), Channel_bind 0x4002 (v4 2 80),
      Permission_timeout (v4 2 0), Channel_timeout 0x4001] init_allocation) = [0x4000 \<mapsto> v4 1 80]"
proof -
  let ?ops = "[Create_permission (v4 1 0), Channel_bind 0x4000 (v4 1 80), Channel_bind 0x4001 (v4 1 81), Channel_bind 0x4002 (v4 2 80),
      Permission_timeout (v4 2 0), Channel_timeout 0x4001]"
  have "list_all op_ok ?ops" by code_simp
  from alloc_refines [OF this] have "channel_peer (fold alloc_step ?ops init_allocation) = snd (fold spec_step ?ops (\<lambda>x. False, Map.empty))"
    by (metis alloc_view_def snd_conv)
  then show ?thesis by (simp add: fun_eq_iff v4_def addr_eq_def addr_eq_no_port_def AF_INET_def)
qed

end
