(* ===== verification/Alloc_Clear.thy ===== *)
theory Alloc_Clear
  imports Alloc_Refine "HOL-Library.Multiset"
begin

text \<open>
  Clearing the permissions and channels of an allocation, \<^verbatim>\<open>src/coturn/src/server/ns_turn_allocation.c\<close>. The timers and
  kernel channels that the tables hold, counted with multiplicity, together with what was already given back to the
  engine, are the same before and after every step: nothing is lost and nothing is released twice.
\<close>

section \<open>What the tables hold\<close>

definition owed :: "('a \<Rightarrow> alloc_io list) \<Rightarrow> ('k \<Rightarrow> 'a option) \<Rightarrow> alloc_io multiset" where
  "owed release f = (\<Sum>k \<in> dom f. mset (release (the (f k))))"

lemma owed_remove:
  assumes "finite (dom f)" "f k = Some x"
  shows "owed release f = mset (release x) + owed release (f(k := None))"
proof -
  have "owed release f = mset (release (the (f k))) + (\<Sum>j \<in> dom f - {k}. mset (release (the (f j))))"
    unfolding owed_def by (rule sum.remove) (use assms in auto)
  also have "(\<Sum>j \<in> dom f - {k}. mset (release (the (f j)))) = owed release (f(k := None))"
    unfolding owed_def by (rule sum.cong) auto
  finally show ?thesis using assms(2) by simp
qed

lemma owed_none: "(\<And>k. f k = None) \<Longrightarrow> owed release f = {#}"
  by (simp add: owed_def dom_def)

definition perm_release :: "turn_permission_info \<Rightarrow> alloc_io list" where
  "perm_release p = IOA_EVENT_DEL (ti_lifetime_ev p)"

definition ch_release :: "ch_info \<Rightarrow> alloc_io list" where
  "ch_release c = (if ch_kernel_channel c \<noteq> 0 then [Kernel_deleted (ch_kernel_channel c)] else []) @ IOA_EVENT_DEL (ch_lifetime_ev c)"

definition table_holds :: "allocation \<Rightarrow> alloc_io multiset" where
  "table_holds a = owed perm_release (perm_at a) + owed ch_release (chan_at a)"

definition balance :: "allocation \<Rightarrow> alloc_io multiset" where
  "balance a = mset (io a) + table_holds a"

lemma finite_live: "finite (dom (live_at used t))"
proof (rule finite_subset)
  show "dom (live_at used t) \<subseteq> (SIGMA i : {..<length t}. {..<length (slots_of (t ! i))})"
    by (auto simp: live_at_def slot_at_def split: if_splits)
qed simp

lemma finite_tables: "finite (dom (perm_at a))" "finite (dom (chan_at a))"
  by (simp_all add: perm_at_def chan_at_def finite_live)

section \<open>Clearing the tables\<close>

lemma ch_info_clean_balance:
  assumes "alloc_shape a"
  shows "balance (ch_info_clean r a) = balance a"
proof -
  have i: "io (ch_info_clean r a) = io a @ ch_release (ch_load a r)"
    by (simp add: ch_info_clean_def Let_def ch_release_def)
  show ?thesis
  proof (cases "chan_at a r")
    case None
    have "ch_allocated x \<or> x = ch_zero" if "slot_at (chns a) r = Some x" for x
      using alloc_shapeD(4) [OF assms] that unfolding table_clean_def by blast
    then have "ch_load a r = ch_zero"
      using None by (auto simp: chan_at_def live_at_def ch_load_def split: option.splits if_splits)
    then have "ch_release (ch_load a r) = []" by (simp add: ch_release_def ch_zero_def IOA_EVENT_DEL_def)
    then show ?thesis using None i by (simp add: balance_def table_holds_def ch_info_clean_laws fun_upd_idem)
  next
    case (Some c)
    then show ?thesis using i owed_remove [OF finite_tables(2) Some, of ch_release]
      by (simp add: balance_def table_holds_def ch_info_clean_laws ch_load_at [OF Some])
  qed
qed

lemma fold_clean_balance: "alloc_shape a \<Longrightarrow> balance (fold (\<lambda>r. ch_info_clean r) rs a) = balance a"
  by (induction rs arbitrary: a) (simp_all add: ch_info_clean_balance ch_info_clean_laws(4))

lemma permission_clean_balance:
  assumes inv: "alloc_inv a" and p: "perm_at a q = Some p"
  shows "balance (turn_permission_clean q a) = balance a"
proof -
  define a0 where "a0 = a\<lparr>io := io a @ IOA_EVENT_DEL (ti_lifetime_ev p)\<rparr>"
  define a1 where "a1 = fold (\<lambda>r. ch_info_clean r) (map (\<lambda>(k, v). ptr_ch v) (lm_entries (ti_chns p))) a0"
  have e: "turn_permission_clean q a = perm_store a1 q perm_zero"
    unfolding a1_def a0_def by (rule permission_clean_fold [OF inv p])
  have "alloc_shape a" using inv by (simp add: alloc_inv_def)
  then have "alloc_shape a0" by (simp add: alloc_shape_def a0_def)
  then have k: "balance a1 = balance a0" unfolding a1_def by (rule fold_clean_balance)
  have "balance a0 = balance a + mset (perm_release p)"
    by (simp add: a0_def balance_def table_holds_def perm_release_def perm_at_def chan_at_def)
  moreover have "balance a1 = balance (turn_permission_clean q a) + mset (perm_release p)"
  proof -
    have "addr_to_perm a1 = addr_to_perm a" unfolding a1_def fold_clean_laws(2) by (simp add: a0_def)
    then have P: "perm_at a1 = perm_at a" by (simp add: perm_at_def)
    have C: "chan_at (turn_permission_clean q a) = chan_at a1" "io (turn_permission_clean q a) = io a1"
      by (simp_all add: e chan_at_def perm_store_def)
    show ?thesis using owed_remove [OF finite_tables(1) p, of perm_release] permission_clean_laws(2) [OF assms]
      by (simp add: balance_def table_holds_def C P)
  qed
  ultimately show ?thesis using k by simp
qed

lemma perm_clean_used_laws:
  assumes "alloc_inv a"
  shows "alloc_inv (perm_clean_used r a)" "balance (perm_clean_used r a) = balance a"
    "perm_at (perm_clean_used r a) = (perm_at a)(r := None)"
proof -
  have "alloc_inv (perm_clean_used r a) \<and> balance (perm_clean_used r a) = balance a \<and>
    perm_at (perm_clean_used r a) = (perm_at a)(r := None)"
  proof (cases "perm_at a r")
    case None
    then have "\<not> ti_allocated (perm_load a r)"
      by (auto simp: perm_at_def live_at_def perm_load_def split: option.splits if_splits)
    then show ?thesis using assms None by (simp add: perm_clean_used_def fun_upd_idem)
  next
    case (Some p)
    then have "ti_allocated (perm_load a r)" using perm_load_at [OF Some] by (auto simp: perm_at_def dest: live_at_SomeD)
    then show ?thesis using permission_clean_laws(1,2) [OF assms Some] permission_clean_balance [OF assms Some]
      by (simp add: perm_clean_used_def)
  qed
  then show "alloc_inv (perm_clean_used r a)" "balance (perm_clean_used r a) = balance a"
    "perm_at (perm_clean_used r a) = (perm_at a)(r := None)" by blast+
qed

lemma free_perms_bucket:
  assumes "alloc_inv a"
  shows "alloc_inv (fold perm_clean_used rs a)" "balance (fold perm_clean_used rs a) = balance a"
    "perm_at (fold perm_clean_used rs a) q = (if q \<in> set rs then None else perm_at a q)"
proof -
  have "alloc_inv (fold perm_clean_used rs a) \<and> balance (fold perm_clean_used rs a) = balance a \<and>
    perm_at (fold perm_clean_used rs a) q = (if q \<in> set rs then None else perm_at a q)"
    using assms
  proof (induction rs arbitrary: a)
    case (Cons r rs)
    note s = perm_clean_used_laws [OF Cons.prems, of r]
    note IH = Cons.IH [OF s(1)]
    have "balance (fold perm_clean_used (r # rs) a) = balance a" using IH s(2) by simp
    moreover have "perm_at (fold perm_clean_used (r # rs) a) q = (if q \<in> set (r # rs) then None else perm_at a q)"
      using IH s(3) by simp
    ultimately show ?case using IH by simp
  qed simp
  then show "alloc_inv (fold perm_clean_used rs a)" "balance (fold perm_clean_used rs a) = balance a"
    "perm_at (fold perm_clean_used rs a) q = (if q \<in> set rs then None else perm_at a q)" by blast+
qed

text \<open>Dropping the extra slots of a bucket that holds nothing in use.\<close>

lemma free_extra_laws:
  assumes "table_shape n k t" "i < n" "\<And>r. fst r = i \<Longrightarrow> live_at used t r = None"
  shows "live_at used (table_free_extra i t) = live_at used t" "table_shape n k (table_free_extra i t)"
    "slot_at (table_free_extra i t) r \<noteq> None \<Longrightarrow> slot_at (table_free_extra i t) r = slot_at t r"
proof -
  have i: "i < length t" using assms(1,2) by (simp add: table_shape_def)
  have sl: "slot_at (table_free_extra i t) r = (if fst r = i \<and> snd r \<ge> length (main_slots (t ! i)) then None else slot_at t r)" for r
    using i by (auto simp: slot_at_def table_free_extra_def slots_of_def nth_list_update nth_append)
  then show "slot_at (table_free_extra i t) r \<noteq> None \<Longrightarrow> slot_at (table_free_extra i t) r = slot_at t r"
    by (auto split: if_splits)
  show "live_at used (table_free_extra i t) = live_at used t"
  proof
    fix r
    show "live_at used (table_free_extra i t) r = live_at used t r"
      using sl [of r] assms(3) [of r] by (auto simp: live_at_def split: if_splits)
  qed
  show "table_shape n k (table_free_extra i t)"
    using assms(1) i unfolding table_shape_def table_free_extra_def list_all_length by (auto simp: nth_list_update)
qed

lemma free_perms_extra:
  assumes "alloc_inv a" "i < TURN_PERMISSION_HASHTABLE_SIZE" "\<And>q. fst q = i \<Longrightarrow> perm_at a q = None"
  defines "b \<equiv> a\<lparr>addr_to_perm := table_free_extra i (addr_to_perm a)\<rparr>"
  shows "alloc_inv b" "perm_at b = perm_at a" "balance b = balance a"
proof -
  have sh: "alloc_shape a" using assms(1) by (simp add: alloc_inv_def)
  note fe = free_extra_laws [OF alloc_shapeD(1) [OF sh] assms(2), of ti_allocated]
  have l: "live_at ti_allocated (table_free_extra i (addr_to_perm a)) = live_at ti_allocated (addr_to_perm a)"
    by (rule fe(1)) (use assms(3) in \<open>simp add: perm_at_def\<close>)
  show P: "perm_at b = perm_at a" using l by (simp add: perm_at_def b_def)
  have C: "chan_at b = chan_at a" by (simp add: chan_at_def b_def)
  have "table_clean ti_allocated perm_zero (table_free_extra i (addr_to_perm a))"
    unfolding table_clean_def
  proof (intro allI impI)
    fix r x
    assume h: "slot_at (table_free_extra i (addr_to_perm a)) r = Some x"
    then have "slot_at (addr_to_perm a) r = Some x" using fe(3) [of r] assms(3) by (simp add: perm_at_def)
    then show "ti_allocated x \<or> x = perm_zero" using alloc_shapeD(2) [OF sh] unfolding table_clean_def by blast
  qed
  moreover have "table_shape TURN_PERMISSION_HASHTABLE_SIZE TURN_PERMISSION_ARRAY_SIZE (table_free_extra i (addr_to_perm a))"
    by (rule fe(2)) (use assms(3) in \<open>simp add: perm_at_def\<close>)
  ultimately have "alloc_shape b" using sh by (simp add: alloc_shape_def b_def)
  then show "alloc_inv b" using assms(1) by (simp add: alloc_inv_def P C)
  have "io b = io a" by (simp add: b_def)
  then show "balance b = balance a" by (simp add: balance_def table_holds_def P C)
qed

lemma free_perms_laws:
  assumes "alloc_inv a"
  shows "alloc_inv (free_turn_permission_hashtable a)" "balance (free_turn_permission_hashtable a) = balance a"
    "perm_at (free_turn_permission_hashtable a) q = None"
proof -
  define f where "f = (\<lambda>i a. let a = fold perm_clean_used (table_refs (addr_to_perm a) i) a
       in a\<lparr>addr_to_perm := table_free_extra i (addr_to_perm a)\<rparr>)"
  have "alloc_inv (fold f [0..<n] a) \<and> balance (fold f [0..<n] a) = balance a \<and>
      (\<forall>q. fst q < n \<longrightarrow> perm_at (fold f [0..<n] a) q = None)" if "n \<le> TURN_PERMISSION_HASHTABLE_SIZE" for n
    using that
  proof (induction n)
    case (Suc n)
    define b where "b = fold f [0..<n] a"
    have IH: "alloc_inv b" "balance b = balance a" "\<And>q. fst q < n \<Longrightarrow> perm_at b q = None"
      using Suc unfolding b_def by auto
    define c where "c = fold perm_clean_used (table_refs (addr_to_perm b) n) b"
    note fb = free_perms_bucket [OF IH(1), of "table_refs (addr_to_perm b) n", folded c_def]
    have none: "perm_at c q = None" if "fst q = n" for q
    proof (cases "q \<in> set (table_refs (addr_to_perm b) n)")
      case False
      then have "slot_at (addr_to_perm b) q = None" using that by (cases q) (auto simp: table_refs_def slot_at_def)
      then show ?thesis using fb(3) [of q] False by (simp add: perm_at_def live_at_def)
    qed (simp add: fb(3))
    note fe = free_perms_extra [OF fb(1) _ none, of n]
    have e: "fold f [0..<Suc n] a = c\<lparr>addr_to_perm := table_free_extra n (addr_to_perm c)\<rparr>"
      by (simp add: b_def [symmetric]) (simp add: c_def f_def Let_def)
    have n: "n < TURN_PERMISSION_HASHTABLE_SIZE" using Suc.prems by simp
    have "perm_at c q = None" if "fst q < Suc n" for q
      using that none [of q] IH(3) [of q] fb(3) [of q] by (cases "fst q = n") auto
    then show ?case unfolding e
      using fe(1) [OF n] fe(2) [OF n] fe(3) [OF n] IH(2) fb(2) by simp
  qed (simp add: assms)
  from this [of TURN_PERMISSION_HASHTABLE_SIZE] have
    r: "alloc_inv (free_turn_permission_hashtable a)" "balance (free_turn_permission_hashtable a) = balance a"
      "\<And>q. fst q < TURN_PERMISSION_HASHTABLE_SIZE \<Longrightarrow> perm_at (free_turn_permission_hashtable a) q = None"
    unfolding free_turn_permission_hashtable_def f_def [symmetric] by auto
  show "alloc_inv (free_turn_permission_hashtable a)" "balance (free_turn_permission_hashtable a) = balance a" by (rule r)+
  show "perm_at (free_turn_permission_hashtable a) q = None"
  proof (cases "fst q < TURN_PERMISSION_HASHTABLE_SIZE")
    case False
    then show ?thesis using r(1)
      by (auto simp: alloc_inv_def alloc_shape_def table_shape_def perm_at_def live_at_def slot_at_def)
  qed (rule r(3))
qed

text \<open>Once the permissions are gone no channel is left, so \<^verbatim>\<open>ch_map_clean\<close> only frees memory.\<close>

lemma no_perms_no_channels:
  assumes "alloc_inv a" "\<And>q. perm_at a q = None"
  shows "chan_at a r = None"
  using assms links_okD(5) [of "perm_at a" "chan_at a" r] unfolding alloc_inv_def by (metis not_Some_eq)

lemma fold_unchanged: "(\<And>r. r \<in> set rs \<Longrightarrow> f r a = a) \<Longrightarrow> fold f rs a = a"
  by (induction rs) auto

lemma ch_clean_used_free: "chan_at a r = None \<Longrightarrow> ch_clean_used r a = a"
  by (auto simp: ch_clean_used_def chan_at_def live_at_def ch_load_def split: option.splits if_splits)

lemma ch_map_clean_laws:
  assumes "alloc_shape a" "\<And>r. chan_at a r = None"
  shows "chan_at (ch_map_clean a) r = None" "addr_to_perm (ch_map_clean a) = addr_to_perm a" "io (ch_map_clean a) = io a"
proof -
  define f where "f = (\<lambda>i a. let a = fold ch_clean_used (table_refs (chns a) i) a in a\<lparr>chns := table_free_extra i (chns a)\<rparr>)"
  have "(\<forall>r. chan_at (fold f [0..<n] a) r = None) \<and> addr_to_perm (fold f [0..<n] a) = addr_to_perm a \<and> io (fold f [0..<n] a) = io a \<and>
     table_shape CH_MAP_HASH_SIZE CH_MAP_ARRAY_SIZE (chns (fold f [0..<n] a))" if "n \<le> CH_MAP_HASH_SIZE" for n
    using that
  proof (induction n)
    case (Suc n)
    define b where "b = fold f [0..<n] a"
    have IH: "\<And>r. chan_at b r = None" "addr_to_perm b = addr_to_perm a" "io b = io a"
      "table_shape CH_MAP_HASH_SIZE CH_MAP_ARRAY_SIZE (chns b)" using Suc unfolding b_def by auto
    have "fold ch_clean_used (table_refs (chns b) n) b = b" by (rule fold_unchanged) (simp add: ch_clean_used_free IH(1))
    then have e: "fold f [0..<Suc n] a = b\<lparr>chns := table_free_extra n (chns b)\<rparr>" by (simp add: b_def [symmetric]) (simp add: f_def Let_def)
    have n: "n < CH_MAP_HASH_SIZE" using Suc.prems by simp
    have l: "live_at ch_allocated (chns b) r = None" for r using IH(1) by (simp add: chan_at_def)
    note fe = free_extra_laws [OF IH(4) n, of ch_allocated, OF l]
    show ?case unfolding e using fe(1,2) l IH(2,3) by (simp add: chan_at_def)
  qed (use assms in \<open>simp add: alloc_shapeD(3)\<close>)
  from this [of CH_MAP_HASH_SIZE] show "chan_at (ch_map_clean a) r = None" "addr_to_perm (ch_map_clean a) = addr_to_perm a"
    "io (ch_map_clean a) = io a" unfolding ch_map_clean_def f_def [symmetric] by blast+
qed

text \<open>Both tables cleared: what they held has been given back, each item once.\<close>

lemma tables_cleared:
  assumes "alloc_inv a"
  defines "b \<equiv> ch_map_clean (free_turn_permission_hashtable a)"
  shows "perm_at b q = None" "chan_at b r = None" "mset (io b) = mset (io a) + table_holds a"
proof -
  note fp = free_perms_laws [OF assms(1)]
  note nc = no_perms_no_channels [OF fp(1,3)]
  have sh: "alloc_shape (free_turn_permission_hashtable a)" using fp(1) by (simp add: alloc_inv_def)
  note cc = ch_map_clean_laws [OF sh nc, folded b_def]
  show "perm_at b q = None" using fp(3) [of q] cc(2) by (simp add: perm_at_def)
  show "chan_at b r = None" by (rule cc(1))
  have "table_holds (free_turn_permission_hashtable a) = {#}"
    unfolding table_holds_def by (simp add: owed_none fp(3) nc)
  then show "mset (io b) = mset (io a) + table_holds a" using fp(2) by (simp add: balance_def cc(3))
qed

end
