(* ===== verification/Tcp_Conn.thy ===== *)
theory Tcp_Conn
  imports Ur_Map Alloc_Clear
begin

text \<open>
  The TCP connections of an allocation (RFC 6062) in \<^verbatim>\<open>src/coturn/src/server/ns_turn_allocation.c\<close>, the buffers that
  wait for a client, and the clearing of a whole allocation. A \<^verbatim>\<open>tcp_connection\<close> lives on the heap, a partial
  function from nonzero addresses; the allocation lists its connections by address, with zero for a free entry, and
  the map of the server leads from connection identifiers to addresses. An outer \<open>None\<close> is an operation that does not
  return.
\<close>

section \<open>Unsent buffers\<close>

text \<open>The array of buffer handles; its length is \<^verbatim>\<open>sz\<close>, and a buffer that was taken out leaves a zero behind.\<close>

type_synonym unsent_buffer = "u64 list"

definition MAX_UNSENT_BUFFER_SIZE :: nat where "MAX_UNSENT_BUFFER_SIZE = 16"

text \<open>The handles given back to the engine are the second component.\<close>

definition clear_unsent_buffer :: "unsent_buffer \<Rightarrow> unsent_buffer \<times> alloc_io list" where
  "clear_unsent_buffer ub = ([], map Buffer_deleted (filter (\<lambda>nbh. nbh \<noteq> 0) ub))"

definition add_unsent_buffer :: "unsent_buffer \<Rightarrow> u64 \<Rightarrow> unsent_buffer \<times> alloc_io list" where
  "add_unsent_buffer ub nbh =
     (if MAX_UNSENT_BUFFER_SIZE \<le> length ub then (ub, [Buffer_deleted nbh]) else (ub @ [nbh], []))"

fun top_unsent_buffer :: "unsent_buffer \<Rightarrow> u64" where
  "top_unsent_buffer [] = 0"
| "top_unsent_buffer (b # ub) = (if b \<noteq> 0 then b else top_unsent_buffer ub)"

fun pop_unsent_buffer :: "unsent_buffer \<Rightarrow> unsent_buffer" where
  "pop_unsent_buffer [] = []"
| "pop_unsent_buffer (b # ub) = (if b \<noteq> 0 then 0 # ub else b # pop_unsent_buffer ub)"

section \<open>Connections\<close>

datatype TC_STATE =
    TC_STATE_UNKNOWN | TC_STATE_CLIENT_TO_PEER_CONNECTING | TC_STATE_PEER_CONNECTING | TC_STATE_PEER_CONNECTED
  | TC_STATE_READY | TC_STATE_FAILED

record tcp_connection =
  tc_state :: TC_STATE
  tc_id :: u32
  tc_peer_addr :: ioa_addr
  tc_client_s :: u64
  tc_peer_s :: u64
  tc_peer_conn_timeout :: u64
  tc_conn_bind_timeout :: u64
  tc_tid :: stun_tid
  tc_done :: bool
  tc_ub_to_client :: unsent_buffer

type_synonym tc_heap = "u64 \<Rightarrow> tcp_connection option"

record tcp_world =
  w_alloc :: allocation
  w_heap :: tc_heap
  w_map :: ur_map

definition tc_zero :: tcp_connection where
  "tc_zero = \<lparr>tc_state = TC_STATE_UNKNOWN, tc_id = 0, tc_peer_addr = addr_set_any, tc_client_s = 0, tc_peer_s = 0,
     tc_peer_conn_timeout = 0, tc_conn_bind_timeout = 0, tc_tid = replicate STUN_TID_SIZE 0, tc_done = False,
     tc_ub_to_client = []\<rparr>"

text \<open>
  The two loops of \<^verbatim>\<open>set_new_tc_id\<close>, over the values that \<^verbatim>\<open>turn_random\<close> gives one after the other; \<open>None\<close> when they
  end before an identifier is found.
\<close>

fun draw_tc_id :: "u32 \<Rightarrow> u32 list \<Rightarrow> (u32 \<times> u32 list) option" where
  "draw_tc_id sid [] = None"
| "draw_tc_id sid (r # rs) =
     (if r = 0 then draw_tc_id sid rs
      else
        let newid = r AND 0x00FFFFFF in
        if newid = 0 then draw_tc_id sid rs else Some (newid OR sid, rs))"

lemma draw_tc_id_shorter: "draw_tc_id sid rs = Some (newid, rs') \<Longrightarrow> length rs' < length rs"
  by (induction rs) (auto simp: Let_def less_Suc_eq split: if_splits)

function new_tc_id :: "u32 \<Rightarrow> ur_map \<Rightarrow> u32 list \<Rightarrow> u32 option" where
  "new_tc_id sid m rs =
     (case draw_tc_id sid rs of
        None \<Rightarrow> None
      | Some (newid, rs') \<Rightarrow>
          Option.bind (ur_map_get m (ucast newid)) (\<lambda>v. if v \<noteq> None then new_tc_id sid m rs' else Some newid))"
  by pat_completeness auto
termination by (relation "measure (\<lambda>(sid, m, rs). length rs)") (auto dest: draw_tc_id_shorter)

definition set_new_tc_id :: "u8 \<Rightarrow> u32 list \<Rightarrow> u64 \<Rightarrow> tcp_world \<Rightarrow> tcp_world option" where
  "set_new_tc_id server_id rs tc w =
     (let sid = push_bit 24 (ucast server_id) in
      Option.bind (new_tc_id sid (w_map w) rs) (\<lambda>newid.
      Option.bind (ur_map_put (w_map w) (ucast newid) tc) (\<lambda>(r, m). Some
        (w\<lparr>w_heap := (w_heap w)(tc \<mapsto> (the (w_heap w tc))\<lparr>tc_id := newid\<rparr>), w_map := m\<rparr>))))"

text \<open>The first entry of the list whose connection has the address.\<close>

fun find_peer :: "tc_heap \<Rightarrow> ioa_addr \<Rightarrow> u64 list \<Rightarrow> u64" where
  "find_peer h peer_addr [] = 0"
| "find_peer h peer_addr (tc # l) =
     (if tc \<noteq> 0 \<and> addr_eq (Some (tc_peer_addr (the (h tc)))) (Some peer_addr) then tc else find_peer h peer_addr l)"

fun put_free :: "u64 \<Rightarrow> u64 list \<Rightarrow> u64 list" where
  "put_free tc [] = [tc]"
| "put_free tc (otc # l) = (if otc = 0 then tc # l else otc # put_free tc l)"

text \<open>
  \<open>tc\<close> is the address that \<^verbatim>\<open>malloc\<close> gives. The result is the error code 446 or the new connection.
\<close>

definition create_tcp_connection ::
  "u8 \<Rightarrow> stun_tid option \<Rightarrow> ioa_addr \<Rightarrow> u64 \<Rightarrow> u32 list \<Rightarrow> tcp_world \<Rightarrow> ((int + u64) \<times> tcp_world) option" where
  "create_tcp_connection server_id tid peer_addr tc rs w =
     (let a = w_alloc w in
      if find_peer (w_heap w) peer_addr (tcs a) \<noteq> 0 then Some (Inl 446, w)
      else
        let t = tc_zero\<lparr>tc_peer_addr := peer_addr\<rparr>;
            t = (case tid of Some i \<Rightarrow> t\<lparr>tc_tid := i\<rparr> | None \<Rightarrow> t);
            w = w\<lparr>w_heap := (w_heap w)(tc \<mapsto> t), w_alloc := a\<lparr>tcs := put_free tc (tcs a)\<rparr>\<rparr>
        in map_option (Pair (Inr tc)) (set_new_tc_id server_id rs tc w))"

fun clear_entry :: "u64 \<Rightarrow> u64 list \<Rightarrow> u64 list" where
  "clear_entry tc [] = []"
| "clear_entry tc (otc # l) = (if otc = tc then 0 # l else otc # clear_entry tc l)"

text \<open>What the deletion of a connection gives back to the engine.\<close>

definition tc_release :: "tcp_connection \<Rightarrow> alloc_io list" where
  "tc_release t = snd (clear_unsent_buffer (tc_ub_to_client t)) @ IOA_EVENT_DEL (tc_peer_conn_timeout t) @
     IOA_EVENT_DEL (tc_conn_bind_timeout t) @ IOA_CLOSE_SOCKET (tc_client_s t) @ IOA_CLOSE_SOCKET (tc_peer_s t)"

definition delete_tcp_connection :: "u64 \<Rightarrow> tcp_world \<Rightarrow> tcp_world option" where
  "delete_tcp_connection tc w =
     (let t = the (w_heap w tc); a = w_alloc w in
      if tc_done t then Some w
      else
        Option.bind (ur_map_del (w_map w) (ucast (tc_id t))) (\<lambda>(r, m, v). Some
          (w\<lparr>w_map := m, w_heap := (w_heap w)(tc := None),
             w_alloc := a\<lparr>tcs := clear_entry tc (tcs a), io := io a @ tc_release t\<rparr>\<rparr>)))"

definition get_and_clean_tcp_connection_by_id :: "ur_map \<Rightarrow> u32 \<Rightarrow> (u64 \<times> ur_map) option" where
  "get_and_clean_tcp_connection_by_id m ident =
     Option.bind (ur_map_get m (ucast ident)) (\<lambda>v.
       (case v of
          Some t \<Rightarrow> if t \<noteq> 0 then map_option (\<lambda>(r, m, d). (t, m)) (ur_map_del m (ucast ident)) else Some (0, m)
        | None \<Rightarrow> Some (0, m)))"

definition get_tcp_connection_by_id :: "ur_map \<Rightarrow> u32 \<Rightarrow> u64 option" where
  "get_tcp_connection_by_id m ident =
     map_option (\<lambda>v. case v of Some t \<Rightarrow> t | None \<Rightarrow> 0) (ur_map_get m (ucast ident))"

definition get_tcp_connection_by_peer :: "tcp_world \<Rightarrow> ioa_addr \<Rightarrow> u64" where
  "get_tcp_connection_by_peer w peer_addr = find_peer (w_heap w) peer_addr (tcs (w_alloc w))"

section \<open>Clearing an allocation\<close>

text \<open>The loop over the list of connections, deleting those that the condition selects.\<close>

fun delete_tcs :: "(tcp_connection \<Rightarrow> bool) \<Rightarrow> nat list \<Rightarrow> tcp_world \<Rightarrow> tcp_world option" where
  "delete_tcs sel [] w = Some w"
| "delete_tcs sel (i # is) w =
     (let tc = tcs (w_alloc w) ! i in
      if tc \<noteq> 0 \<and> sel (the (w_heap w tc)) then
        Option.bind (delete_tcp_connection tc w) (\<lambda>w.
          delete_tcs sel is (w\<lparr>w_alloc := (w_alloc w)\<lparr>tcs := (tcs (w_alloc w))[i := 0]\<rparr>\<rparr>))
      else delete_tcs sel is w)"

text \<open>
  What is done to a relay session: its socket is detached from the session (\<^verbatim>\<open>clear_ioa_socket_session_if\<close>, which
  finds a socket of this session) and closed, and its timer is deleted.
\<close>

definition clear_relay_session :: "nat \<Rightarrow> allocation \<Rightarrow> allocation" where
  "clear_relay_session i a =
     (let s = relay_sessions a ! i in
      a\<lparr>io := io a @ (if rs_s s \<noteq> 0 then [Session_cleared (rs_s s)] else []) @ IOA_CLOSE_SOCKET (rs_s s) @
          IOA_EVENT_DEL (rs_lifetime_ev s),
        relay_sessions := (relay_sessions a)[i := s\<lparr>rs_s := 0, rs_lifetime_ev := 0\<rparr>]\<rparr>)"

definition clear_allocation :: "tcp_world \<Rightarrow> tcp_world option" where
  "clear_allocation w =
     (let w = w\<lparr>w_alloc := (w_alloc w)\<lparr>io := io (w_alloc w) @ (if is_valid (w_alloc w) then [Allocation_reported] else [])\<rparr>\<rparr> in
      Option.bind (delete_tcs (\<lambda>t. True) [0..<length (tcs (w_alloc w))] w) (\<lambda>w.
        let a = (w_alloc w)\<lparr>tcs := []\<rparr>;
            a = fold clear_relay_session [0..<ALLOC_PROTOCOLS_NUMBER] a;
            a = free_turn_permission_hashtable a;
            a = ch_map_clean a
        in Some (w\<lparr>w_alloc := a\<lparr>is_valid := False\<rparr>\<rparr>)))"

text \<open>\<open>socket_family\<close> stands for \<^verbatim>\<open>get_ioa_socket_address_family\<close>.\<close>

definition set_allocation_family_invalid :: "(u64 \<Rightarrow> int) \<Rightarrow> int \<Rightarrow> tcp_world \<Rightarrow> tcp_world option" where
  "set_allocation_family_invalid socket_family family w =
     (let index = ALLOC_INDEX family in
      if rs_s (relay_sessions (w_alloc w) ! index) \<noteq> 0 then
        map_option (\<lambda>w. w\<lparr>w_alloc := clear_relay_session index (w_alloc w)\<rparr>)
          (delete_tcs (\<lambda>t. tc_peer_s t \<noteq> 0 \<and> socket_family (tc_peer_s t) = family) [0..<length (tcs (w_alloc w))] w)
      else Some w)"

section \<open>Identifiers\<close>

declare new_tc_id.simps [simp del]

lemma draw_tc_id_form:
  assumes "draw_tc_id sid rs = Some (newid, rs')"
  shows "\<exists>r \<in> set rs. r AND 0x00FFFFFF \<noteq> 0 \<and> newid = (r AND 0x00FFFFFF) OR sid"
  using assms by (induction rs) (auto simp: Let_def split: if_splits)

lemma server_id_of:
  fixes r :: u32 and server_id :: u8
  shows "drop_bit 24 ((r AND 0x00FFFFFF) OR push_bit 24 (ucast server_id)) = (ucast server_id :: u32)"
    "((r AND 0x00FFFFFF) OR push_bit 24 (ucast server_id)) AND 0x00FFFFFF = r AND 0x00FFFFFF"
proof -
  have m: "(0x00FFFFFF :: u32) = mask 24" by (simp add: mask_eq_exp_minus_1)
  have u: "n < 8" if "bit server_id n" for n using bit_imp_le_length [OF that] by simp
  show "drop_bit 24 ((r AND 0x00FFFFFF) OR push_bit 24 (ucast server_id)) = (ucast server_id :: u32)"
    unfolding m by (rule bit_word_eqI) (auto simp: bit_simps dest: u)
  show "((r AND 0x00FFFFFF) OR push_bit 24 (ucast server_id)) AND 0x00FFFFFF = r AND 0x00FFFFFF"
    unfolding m by (rule bit_word_eqI) (auto simp: bit_simps)
qed

lemma new_tc_id_result:
  assumes "ur_map_inv m" "new_tc_id (push_bit 24 (ucast server_id)) m rs = Some newid"
  shows "ur_map_look m (ucast newid) = None" "newid AND 0x00FFFFFF \<noteq> 0" "drop_bit 24 newid = ucast (server_id :: u8)"
proof -
  let ?sid = "push_bit 24 (ucast server_id) :: u32"
  have "ur_map_look m (ucast newid) = None \<and> newid AND 0x00FFFFFF \<noteq> 0 \<and> drop_bit 24 newid = ucast server_id"
    using assms(2)
  proof (induction rs rule: length_induct)
    case (1 rs)
    then obtain d rs' where d: "draw_tc_id ?sid rs = Some (d, rs')"
      by (subst (asm) (2) new_tc_id.simps) (auto split: option.splits)
    show ?case
    proof (cases "ur_map_look m (ucast d)")
      case None
      then have "newid = d" using 1(2) d by (simp add: new_tc_id.simps [of _ _ rs] ur_map_get_look [OF assms(1)])
      moreover obtain r where "r AND 0x00FFFFFF \<noteq> 0" "d = (r AND 0x00FFFFFF) OR ?sid" using draw_tc_id_form [OF d] by blast
      ultimately show ?thesis using None server_id_of [of r server_id] by simp
    next
      case (Some v)
      then have "new_tc_id ?sid m rs' = Some newid"
        using 1(2) d by (simp add: new_tc_id.simps [of _ _ rs] ur_map_get_look [OF assms(1)])
      then show ?thesis using 1(1) draw_tc_id_shorter [OF d] by blast
    qed
  qed
  then show "ur_map_look m (ucast newid) = None" "newid AND 0x00FFFFFF \<noteq> 0" "drop_bit 24 newid = ucast server_id" by simp_all
qed

lemma draw_tc_id_Some:
  assumes "r \<in> set rs" "r AND 0x00FFFFFF \<noteq> 0"
  obtains n rs' where "draw_tc_id sid rs = Some (n, rs')" "n = (r AND 0x00FFFFFF) OR sid \<or> r \<in> set rs'"
  using assms
proof (induction rs)
  case (Cons x rs)
  show ?case
  proof (cases "x AND 0x00FFFFFF = 0")
    case True
    then have "r \<in> set rs" using Cons.prems by auto
    moreover have "draw_tc_id sid (x # rs) = draw_tc_id sid rs" using True by simp
    ultimately show ?thesis using Cons by simp
  next
    case False
    then have "x \<noteq> 0" by auto
    then have "draw_tc_id sid (x # rs) = Some ((x AND 0x00FFFFFF) OR sid, rs)" using False by (simp add: Let_def)
    then show ?thesis using Cons.prems by auto
  qed
qed simp

text \<open>One usable random value among those drawn is enough for the search to end.\<close>

lemma new_tc_id_ends:
  assumes "ur_map_inv m" "r \<in> set rs" "r AND 0x00FFFFFF \<noteq> 0" "ur_map_look m (ucast ((r AND 0x00FFFFFF) OR sid)) = None"
  shows "\<exists>newid. new_tc_id sid m rs = Some newid"
  using assms(2)
proof (induction rs rule: length_induct)
  case (1 rs)
  obtain n rs' where d: "draw_tc_id sid rs = Some (n, rs')" "n = (r AND 0x00FFFFFF) OR sid \<or> r \<in> set rs'"
    using draw_tc_id_Some [OF 1(2) assms(3)] by blast
  show ?case
  proof (cases "ur_map_look m (ucast n)")
    case (Some v)
    then have "r \<in> set rs'" using d(2) assms(4) by auto
    then show ?thesis using 1(1) draw_tc_id_shorter [OF d(1)] Some d(1)
      by (simp add: new_tc_id.simps [of _ _ rs] ur_map_get_look [OF assms(1)])
  qed (simp add: new_tc_id.simps [of _ _ rs] ur_map_get_look [OF assms(1)] d(1))
qed

section \<open>The invariant\<close>

definition tc_entries :: "u64 list \<Rightarrow> u64 list" where
  "tc_entries l = filter (\<lambda>p. p \<noteq> 0) l"

text \<open>The buffers that wait for a client are a queue: the handles that are left, in order, are what was added
  and not yet taken out. An addition beyond 16 entries gives its buffer back to the engine; entries that were taken
  out still count. Clearing gives back what is left.\<close>

lemma unsent_buffer_fifo:
  "snd (clear_unsent_buffer ub) = map Buffer_deleted (tc_entries ub)"
  "top_unsent_buffer ub = (case tc_entries ub of [] \<Rightarrow> 0 | b # bs \<Rightarrow> b)"
  "tc_entries (pop_unsent_buffer ub) = tl (tc_entries ub)"
  "nbh \<noteq> 0 \<Longrightarrow> tc_entries (fst (add_unsent_buffer ub nbh)) = (if length ub < 16 then tc_entries ub @ [nbh] else tc_entries ub)"
  "snd (add_unsent_buffer ub nbh) = (if length ub < 16 then [] else [Buffer_deleted nbh])"
proof -
  show "top_unsent_buffer ub = (case tc_entries ub of [] \<Rightarrow> 0 | b # bs \<Rightarrow> b)" by (induction ub) (simp_all add: tc_entries_def)
  show "tc_entries (pop_unsent_buffer ub) = tl (tc_entries ub)" by (induction ub) (simp_all add: tc_entries_def)
qed (simp_all add: clear_unsent_buffer_def add_unsent_buffer_def MAX_UNSENT_BUFFER_SIZE_def tc_entries_def)

definition tc_live :: "tcp_world \<Rightarrow> u64 set" where
  "tc_live w = set (tc_entries (tcs (w_alloc w)))"

text \<open>
  The map of the server is well-formed, and the entries of the list are different connections with different peers, all
  on the heap. An entry need not be registered in the map: a connection that was claimed is not.
\<close>

definition tcp_inv :: "tcp_world \<Rightarrow> bool" where
  "tcp_inv w \<longleftrightarrow> ur_map_inv (w_map w) \<and> distinct (tc_entries (tcs (w_alloc w))) \<and>
     length (relay_sessions (w_alloc w)) = ALLOC_PROTOCOLS_NUMBER \<and>
     (\<forall>p \<in> tc_live w. \<exists>t. w_heap w p = Some t \<and> \<not> tc_done t) \<and>
     (\<forall>p \<in> tc_live w. \<forall>q \<in> tc_live w. \<forall>s t. w_heap w p = Some s \<longrightarrow> w_heap w q = Some t \<longrightarrow>
        addr_eq (Some (tc_peer_addr s)) (Some (tc_peer_addr t)) \<longrightarrow> p = q)"

lemma tcp_invD:
  assumes "tcp_inv w"
  shows "ur_map_inv (w_map w)" "distinct (tc_entries (tcs (w_alloc w)))"
    "p \<in> tc_live w \<Longrightarrow> \<exists>t. w_heap w p = Some t \<and> \<not> tc_done t"
    "p \<in> tc_live w \<Longrightarrow> q \<in> tc_live w \<Longrightarrow> w_heap w p = Some s \<Longrightarrow> w_heap w q = Some t \<Longrightarrow>
       addr_eq (Some (tc_peer_addr s)) (Some (tc_peer_addr t)) \<Longrightarrow> p = q"
    "length (relay_sessions (w_alloc w)) = ALLOC_PROTOCOLS_NUMBER"
  using assms unfolding tcp_inv_def by blast+

lemma tc_live_nonzero: "p \<in> tc_live w \<Longrightarrow> p \<noteq> 0"
  by (simp add: tc_live_def tc_entries_def)

lemma find_peer_0: "find_peer h x l = 0 \<longleftrightarrow> (\<forall>p \<in> set (tc_entries l). \<not> addr_eq (Some (tc_peer_addr (the (h p)))) (Some x))"
  by (induction l) (auto simp: tc_entries_def)

lemma find_peer_hit:
  "find_peer h x l \<noteq> 0 \<Longrightarrow>
     find_peer h x l \<in> set (tc_entries l) \<and> addr_eq (Some (tc_peer_addr (the (h (find_peer h x l))))) (Some x)"
  by (induction l) (auto simp: tc_entries_def split: if_splits)

lemma put_free_entries:
  assumes "p \<noteq> 0"
  shows "set (tc_entries (put_free p l)) = insert p (set (tc_entries l))"
    "distinct (tc_entries l) \<Longrightarrow> p \<notin> set l \<Longrightarrow> distinct (tc_entries (put_free p l))"
proof -
  show e: "set (tc_entries (put_free p l)) = insert p (set (tc_entries l))" for l
    using assms by (induction l) (auto simp: tc_entries_def)
  show "distinct (tc_entries l) \<Longrightarrow> p \<notin> set l \<Longrightarrow> distinct (tc_entries (put_free p l))"
  proof (induction l)
    case (Cons q l)
    show ?case
    proof (cases "q = 0")
      case False
      then have "q \<notin> set (tc_entries (put_free p l))" using Cons.prems e [of l] by (auto simp: tc_entries_def)
      then show ?thesis using Cons False by (simp add: tc_entries_def)
    qed (use Cons.prems assms in \<open>simp add: tc_entries_def\<close>)
  qed (use assms in \<open>simp add: tc_entries_def\<close>)
qed

lemma clear_entry_entries:
  assumes "p \<noteq> 0" "distinct (tc_entries l)"
  shows "tc_entries (clear_entry p l) = filter (\<lambda>q. q \<noteq> p) (tc_entries l)"
  using assms(2)
proof (induction l)
  case (Cons q l)
  have d: "distinct (tc_entries l)" using Cons.prems by (auto simp: tc_entries_def split: if_splits)
  show ?case
  proof (cases "q = p")
    case True
    then have "p \<notin> set (tc_entries l)" using Cons.prems assms(1) by (simp add: tc_entries_def)
    then have "filter (\<lambda>q. q \<noteq> p) (tc_entries l) = tc_entries l" by (intro filter_True) auto
    then show ?thesis using True assms(1) by (simp add: tc_entries_def)
  qed (use Cons.IH [OF d] in \<open>simp add: tc_entries_def\<close>)
qed (simp add: tc_entries_def)

lemma clear_entry_nth: "distinct (tc_entries l) \<Longrightarrow> i < length l \<Longrightarrow> l ! i \<noteq> 0 \<Longrightarrow> clear_entry (l ! i) l = l[i := 0]"
proof (induction l arbitrary: i)
  case (Cons q l)
  show ?case
  proof (cases i)
    case (Suc j)
    then have "q \<noteq> l ! j" using Cons.prems by (auto simp: tc_entries_def)
    moreover have "distinct (tc_entries l)" using Cons.prems(1) by (auto simp: tc_entries_def split: if_splits)
    ultimately show ?thesis using Cons Suc by simp
  qed simp
qed simp

section \<open>Operations\<close>

lemma set_new_tc_id_laws:
  assumes "ur_map_inv (w_map w)" "card (dom (ur_map_look (w_map w))) < KH_CAP" "w_heap w p = Some t"
    "r \<in> set rs" "r AND 0x00FFFFFF \<noteq> 0" "ur_map_look (w_map w) (ucast ((r AND 0x00FFFFFF) OR push_bit 24 (ucast (server_id :: u8)))) = None"
  obtains i m where "set_new_tc_id server_id rs p w = Some (w\<lparr>w_heap := (w_heap w)(p \<mapsto> t\<lparr>tc_id := i\<rparr>), w_map := m\<rparr>)"
    "ur_map_inv m" "ur_map_look m = (ur_map_look (w_map w))(ucast i \<mapsto> p)" "ur_map_look (w_map w) (ucast i) = None"
    "i AND 0x00FFFFFF \<noteq> 0" "drop_bit 24 i = ucast server_id"
proof -
  obtain i where i: "new_tc_id (push_bit 24 (ucast server_id)) (w_map w) rs = Some i"
    using new_tc_id_ends [OF assms(1,4,5,6)] by blast
  obtain m where m: "ur_map_put (w_map w) (ucast i) p = Some (0, m)" "ur_map_inv m"
    "ur_map_look m = (ur_map_look (w_map w))(ucast i \<mapsto> p)"
    using ur_map_put_laws [OF assms(1,2)] by blast
  have "set_new_tc_id server_id rs p w = Some (w\<lparr>w_heap := (w_heap w)(p \<mapsto> t\<lparr>tc_id := i\<rparr>), w_map := m\<rparr>)"
    using i m(1) assms(3) by (simp add: set_new_tc_id_def Let_def)
  then show ?thesis using that m(2,3) new_tc_id_result [OF assms(1) i] by blast
qed

lemma ucast_id_eq: "ucast (i :: u32) = (ucast j :: u64) \<longleftrightarrow> i = j"
proof
  assume e: "ucast i = (ucast j :: u64)"
  show "i = j"
  proof (rule bit_word_eqI)
    fix n assume "n < LENGTH(32)"
    then show "bit i n = bit j n" using arg_cong [OF e, of "\<lambda>w. bit w n"] by (simp add: bit_simps)
  qed
qed simp

lemma create_446:
  assumes "tcp_inv w"
  shows "(\<exists>q \<in> tc_live w. \<exists>t. w_heap w q = Some t \<and> addr_eq (Some (tc_peer_addr t)) (Some x)) \<longleftrightarrow>
      find_peer (w_heap w) x (tcs (w_alloc w)) \<noteq> 0"
proof -
  have "\<exists>t. w_heap w q = Some t" if "q \<in> tc_live w" for q using tcp_invD(3) [OF assms that] by blast
  then show ?thesis unfolding find_peer_0 tc_live_def [symmetric] by (metis option.sel)
qed

lemma create_laws:
  assumes inv: "tcp_inv w" and room: "card (dom (ur_map_look (w_map w))) < KH_CAP"
    and fresh: "p \<noteq> 0" "w_heap w p = None" "p \<notin> set (tcs (w_alloc w))"
    and rnd: "r \<in> set rs" "r AND 0x00FFFFFF \<noteq> 0"
      "ur_map_look (w_map w) (ucast ((r AND 0x00FFFFFF) OR push_bit 24 (ucast (server_id :: u8)))) = None"
    and free: "find_peer (w_heap w) x (tcs (w_alloc w)) = 0"
  obtains t w' where "create_tcp_connection server_id tid x p rs w = Some (Inr p, w')" "tcp_inv w'"
    "tc_live w' = insert p (tc_live w)" "w_heap w' = (w_heap w)(p \<mapsto> t)" "tc_peer_addr t = x"
    "ur_map_look (w_map w') = (ur_map_look (w_map w))(ucast (tc_id t) \<mapsto> p)" "ur_map_look (w_map w) (ucast (tc_id t)) = None"
    "tc_id t AND 0x00FFFFFF \<noteq> 0" "drop_bit 24 (tc_id t) = ucast server_id"
    "w_alloc w' = (w_alloc w)\<lparr>tcs := put_free p (tcs (w_alloc w))\<rparr>"
proof -
  define t0 where "t0 = (case tid of Some i \<Rightarrow> tc_zero\<lparr>tc_peer_addr := x, tc_tid := i\<rparr> | None \<Rightarrow> tc_zero\<lparr>tc_peer_addr := x\<rparr>)"
  have t0: "tc_peer_addr t0 = x" "\<not> tc_done t0" by (simp_all add: t0_def tc_zero_def split: option.splits)
  define w1 where "w1 = w\<lparr>w_heap := (w_heap w)(p \<mapsto> t0), w_alloc := (w_alloc w)\<lparr>tcs := put_free p (tcs (w_alloc w))\<rparr>\<rparr>"
  have w1: "w_map w1 = w_map w" "w_heap w1 p = Some t0" "w_heap w1 = (w_heap w)(p \<mapsto> t0)" by (simp_all add: w1_def)
  obtain i m where i: "set_new_tc_id server_id rs p w1 = Some (w1\<lparr>w_heap := (w_heap w1)(p \<mapsto> t0\<lparr>tc_id := i\<rparr>), w_map := m\<rparr>)"
    "ur_map_inv m" "ur_map_look m = (ur_map_look (w_map w))(ucast i \<mapsto> p)" "ur_map_look (w_map w) (ucast i) = None"
    "i AND 0x00FFFFFF \<noteq> 0" "drop_bit 24 i = ucast server_id"
    by (rule set_new_tc_id_laws [OF _ _ w1(2) rnd(1,2), where server_id = server_id, unfolded w1(1), OF tcp_invD(1) [OF inv] room rnd(3)], rule that)
  define t where "t = t0\<lparr>tc_id := i\<rparr>"
  define w' where "w' = w1\<lparr>w_heap := (w_heap w1)(p \<mapsto> t), w_map := m\<rparr>"
  have e: "create_tcp_connection server_id tid x p rs w = Some (Inr p, w')"
    using free i(1) by (simp add: create_tcp_connection_def Let_def t0_def [symmetric] w1_def w'_def t_def split: option.splits)
  have v: "w_heap w' = (w_heap w)(p \<mapsto> t)" "w_map w' = m" "w_alloc w' = (w_alloc w)\<lparr>tcs := put_free p (tcs (w_alloc w))\<rparr>"
    "tc_peer_addr t = x" "\<not> tc_done t" "tc_id t = i"
    using t0 by (simp_all add: w'_def w1_def t_def)
  have live: "tc_live w' = insert p (tc_live w)" using put_free_entries(1) [OF fresh(1)] by (simp add: tc_live_def v(3))
  have pl: "p \<notin> tc_live w" using fresh(3) by (auto simp: tc_live_def tc_entries_def)
  have no: "\<not> addr_eq (Some (tc_peer_addr s)) (Some x)" if "q \<in> tc_live w" "w_heap w q = Some s" for q s
    using free that unfolding find_peer_0 tc_live_def by fastforce
  have "tcp_inv w'" unfolding tcp_inv_def
  proof (intro conjI ballI allI impI)
    show "ur_map_inv (w_map w')" using i(2) v(2) by simp
    show "distinct (tc_entries (tcs (w_alloc w')))"
      using put_free_entries(2) [OF fresh(1) tcp_invD(2) [OF inv] fresh(3)] by (simp add: v(3))
    show "length (relay_sessions (w_alloc w')) = ALLOC_PROTOCOLS_NUMBER" using tcp_invD(5) [OF inv] by (simp add: v(3))
    show "\<exists>s. w_heap w' q = Some s \<and> \<not> tc_done s" if q: "q \<in> tc_live w'" for q
    proof (cases "q = p")
      case False
      then obtain s where s: "w_heap w q = Some s" "\<not> tc_done s" using q live tcp_invD(3) [OF inv] by blast
      then show ?thesis using False v(1) by simp
    qed (use v in simp)
    show "q = q'" if h: "q \<in> tc_live w'" "q' \<in> tc_live w'" "w_heap w' q = Some s" "w_heap w' q' = Some s'"
      "addr_eq (Some (tc_peer_addr s)) (Some (tc_peer_addr s'))" for q q' s s'
    proof (rule ccontr)
      assume n: "q \<noteq> q'"
      consider "q = p" | "q' = p" | "q \<noteq> p" "q' \<noteq> p" by blast
      then show False
      proof cases
        case 1
        then have "q' \<in> tc_live w" "w_heap w q' = Some s'" "s = t" using n h live v(1) by auto
        then show False using no h(5) v(4) addr_eq_sym by simp
      next
        case 2
        then have "q \<in> tc_live w" "w_heap w q = Some s" "s' = t" using n h live v(1) by auto
        then show False using no h(5) v(4) by simp
      next
        case 3
        then show False using tcp_invD(4) [OF inv, of q q' s s'] h live v(1) n by simp
      qed
    qed
  qed
  then show ?thesis using that e live v i(3-6) by simp
qed

lemma delete_laws:
  assumes "tcp_inv w" "p \<in> tc_live w" "w_heap w p = Some t"
  obtains w' where "delete_tcp_connection p w = Some w'" "tcp_inv w'" "tc_live w' = tc_live w - {p}"
    "w_heap w' = (w_heap w)(p := None)" "ur_map_look (w_map w') = (ur_map_look (w_map w))(ucast (tc_id t) := None)"
    "w_alloc w' = (w_alloc w)\<lparr>tcs := clear_entry p (tcs (w_alloc w)), io := io (w_alloc w) @ tc_release t\<rparr>"
proof -
  have p: "\<not> tc_done t" using tcp_invD(3) [OF assms(1,2)] assms(3) by auto
  obtain m where m: "ur_map_del (w_map w) (ucast (tc_id t)) =
      Some (c_bool (ucast (tc_id t) \<in> dom (ur_map_look (w_map w))), m, ur_map_look (w_map w) (ucast (tc_id t)))"
    "ur_map_inv m" "ur_map_look m = (ur_map_look (w_map w))(ucast (tc_id t) := None)"
    using ur_map_del_laws [OF tcp_invD(1) [OF assms(1)]] by blast
  define w' where "w' = w\<lparr>w_map := m, w_heap := (w_heap w)(p := None),
      w_alloc := (w_alloc w)\<lparr>tcs := clear_entry p (tcs (w_alloc w)), io := io (w_alloc w) @ tc_release t\<rparr>\<rparr>"
  have e: "delete_tcp_connection p w = Some w'"
    using p m(1) assms(3) by (simp add: delete_tcp_connection_def Let_def w'_def)
  have wh: "w_heap w' = (w_heap w)(p := None)" by (simp add: w'_def)
  have live: "tc_live w' = tc_live w - {p}"
    using clear_entry_entries [OF tc_live_nonzero [OF assms(2)] tcp_invD(2) [OF assms(1)]] by (auto simp: tc_live_def w'_def)
  have "tcp_inv w'" unfolding tcp_inv_def
  proof (intro conjI ballI allI impI)
    show "ur_map_inv (w_map w')" using m(2) by (simp add: w'_def)
    show "distinct (tc_entries (tcs (w_alloc w')))"
      using clear_entry_entries [OF tc_live_nonzero [OF assms(2)] tcp_invD(2) [OF assms(1)]] tcp_invD(2) [OF assms(1)] by (simp add: w'_def)
    show "length (relay_sessions (w_alloc w')) = ALLOC_PROTOCOLS_NUMBER" using tcp_invD(5) [OF assms(1)] by (simp add: w'_def)
    show "\<exists>s. w_heap w' q = Some s \<and> \<not> tc_done s" if q: "q \<in> tc_live w'" for q
    proof -
      obtain s where s: "w_heap w q = Some s" "\<not> tc_done s" using q live tcp_invD(3) [OF assms(1)] by blast
      moreover have "q \<noteq> p" using q live by blast
      ultimately show ?thesis by (simp add: wh)
    qed
    show "q = q'" if "q \<in> tc_live w'" "q' \<in> tc_live w'" "w_heap w' q = Some s" "w_heap w' q' = Some s'"
      "addr_eq (Some (tc_peer_addr s)) (Some (tc_peer_addr s'))" for q q' s s'
    proof -
      have "q \<in> tc_live w" "q' \<in> tc_live w" using that(1,2) live by blast+
      moreover have "w_heap w q = Some s" "w_heap w q' = Some s'" using that(3,4) unfolding wh by (simp_all split: if_splits)
      ultimately show ?thesis using tcp_invD(4) [OF assms(1)] that(5) by blast
    qed
  qed
  then show ?thesis by (rule that [OF e _ live wh]) (simp_all add: w'_def m(3))
qed

text \<open>The claim of a connection by its client takes it out of the map and leaves the rest alone.\<close>

lemma claim_laws:
  assumes "tcp_inv w" "get_and_clean_tcp_connection_by_id (w_map w) i = Some (p, m)"
  shows "tcp_inv (w\<lparr>w_map := m\<rparr>)" "p = (case ur_map_look (w_map w) (ucast i) of Some t \<Rightarrow> t | None \<Rightarrow> 0)"
    "p \<noteq> 0 \<Longrightarrow> ur_map_look m = (ur_map_look (w_map w))(ucast i := None)"
proof -
  note inv = tcp_invD(1) [OF assms(1)]
  obtain m' where d: "ur_map_del (w_map w) (ucast i) =
      Some (c_bool (ucast i \<in> dom (ur_map_look (w_map w))), m', ur_map_look (w_map w) (ucast i))"
    "ur_map_inv m'" "ur_map_look m' = (ur_map_look (w_map w))(ucast i := None)" by (rule ur_map_del_laws [OF inv])
  have c: "m = (if p \<noteq> 0 then m' else w_map w) \<and> p = (case ur_map_look (w_map w) (ucast i) of Some t \<Rightarrow> t | None \<Rightarrow> 0)"
    using assms(2) d(1)
    by (auto simp: get_and_clean_tcp_connection_by_id_def ur_map_get_look [OF inv] split: option.splits if_splits)
  then show "p = (case ur_map_look (w_map w) (ucast i) of Some t \<Rightarrow> t | None \<Rightarrow> 0)"
    "p \<noteq> 0 \<Longrightarrow> ur_map_look m = (ur_map_look (w_map w))(ucast i := None)" using d(3) by simp_all
  have "ur_map_inv m" using c d(2) inv by simp
  then show "tcp_inv (w\<lparr>w_map := m\<rparr>)" using assms(1) by (simp add: tcp_inv_def tc_live_def)
qed

text \<open>The connections that a loop over the list deletes, and what is left of the world.\<close>

definition tc_sel :: "(tcp_connection \<Rightarrow> bool) \<Rightarrow> nat list \<Rightarrow> tcp_world \<Rightarrow> u64 set" where
  "tc_sel sel is w = {p \<in> tc_live w. (\<exists>i \<in> set is. tcs (w_alloc w) ! i = p) \<and> sel (the (w_heap w p))}"

definition alloc_rest ::
  "allocation \<Rightarrow> bool \<times> turn_permission_hashtable \<times> relay_endpoint_session list \<times> bool list \<times> ch_map" where
  "alloc_rest a = (is_valid a, addr_to_perm a, relay_sessions a, relay_sessions_failure a, chns a)"

definition tcs_deleted :: "u64 set \<Rightarrow> tcp_world \<Rightarrow> tcp_world \<Rightarrow> bool" where
  "tcs_deleted D w w' \<longleftrightarrow> tcp_inv w' \<and> tc_live w' = tc_live w - D \<and> w_heap w' = (\<lambda>p. if p \<in> D then None else w_heap w p) \<and>
     ur_map_look (w_map w') = (\<lambda>k. if \<exists>p \<in> D. k = ucast (tc_id (the (w_heap w p))) then None else ur_map_look (w_map w) k) \<and>
     mset (io (w_alloc w')) = mset (io (w_alloc w)) + (\<Sum>p \<in> D. mset (tc_release (the (w_heap w p)))) \<and>
     length (tcs (w_alloc w')) = length (tcs (w_alloc w)) \<and>
     alloc_rest (w_alloc w') = alloc_rest (w_alloc w)"

lemma tcs_deletedD:
  assumes "tcs_deleted D w w'"
  shows "tcp_inv w'" "tc_live w' = tc_live w - D" "w_heap w' = (\<lambda>p. if p \<in> D then None else w_heap w p)"
    "ur_map_look (w_map w') = (\<lambda>k. if \<exists>p \<in> D. k = ucast (tc_id (the (w_heap w p))) then None else ur_map_look (w_map w) k)"
    "mset (io (w_alloc w')) = mset (io (w_alloc w)) + (\<Sum>p \<in> D. mset (tc_release (the (w_heap w p))))"
    "alloc_rest (w_alloc w') = alloc_rest (w_alloc w)"
  using assms by (simp_all add: tcs_deleted_def)

lemma tcs_deleted_step:
  assumes "tcs_deleted {p} w w1" "tcs_deleted D w1 w2" "p \<notin> D" "finite D"
  shows "tcs_deleted (insert p D) w w2"
proof -
  note a = assms(1) [unfolded tcs_deleted_def] and b = assms(2) [unfolded tcs_deleted_def]
  have h: "w_heap w1 q = w_heap w q" if "q \<in> D" for q using a that assms(3) by auto
  have "(\<Sum>q \<in> D. mset (tc_release (the (w_heap w1 q)))) = (\<Sum>q \<in> D. mset (tc_release (the (w_heap w q))))"
    by (rule sum.cong) (simp_all add: h)
  then have u: "mset (io (w_alloc w2)) = mset (io (w_alloc w)) + (\<Sum>q \<in> insert p D. mset (tc_release (the (w_heap w q))))"
    using a b assms(3,4) by (simp add: ac_simps)
  have e: "(\<exists>q \<in> D. k = ucast (tc_id (the (w_heap w1 q)))) \<longleftrightarrow> (\<exists>q \<in> D. k = ucast (tc_id (the (w_heap w q))))" for k :: u64
    by (rule bex_cong) (simp_all add: h)
  have hw: "w_heap w2 = (\<lambda>q. if q \<in> insert p D then None else w_heap w q)" using a b by (auto simp: fun_eq_iff)
  have lk: "ur_map_look (w_map w2) = (\<lambda>k. if \<exists>q \<in> insert p D. k = ucast (tc_id (the (w_heap w q))) then None else ur_map_look (w_map w) k)"
    using a b unfolding e by (auto simp: fun_eq_iff)
  show ?thesis unfolding tcs_deleted_def using a b u hw lk by auto
qed

lemma tc_sel_Cons:
  "tc_sel sel (i # is) w =
     (let p = tcs (w_alloc w) ! i in if p \<in> tc_live w \<and> sel (the (w_heap w p)) then insert p (tc_sel sel is w) else tc_sel sel is w)"
  by (auto simp: tc_sel_def Let_def)

lemma delete_tcs_laws:
  assumes "tcp_inv w" "list_all (\<lambda>i. i < length (tcs (w_alloc w))) is"
  shows "\<exists>w'. delete_tcs sel is w = Some w' \<and> tcs_deleted (tc_sel sel is w) w w'"
  using assms
proof (induction "is" arbitrary: w)
  case Nil
  then show ?case by (simp add: tcs_deleted_def tc_sel_def)
next
  case (Cons i "is")
  let ?p = "tcs (w_alloc w) ! i"
  have i: "i < length (tcs (w_alloc w))" "list_all (\<lambda>i. i < length (tcs (w_alloc w))) is" using Cons.prems(2) by simp_all
  have nz: "?p \<in> tc_live w \<longleftrightarrow> ?p \<noteq> 0" using i(1) by (auto simp: tc_live_def tc_entries_def)
  show ?case
  proof (cases "?p \<noteq> 0 \<and> sel (the (w_heap w ?p))")
    case False
    then have "delete_tcs sel (i # is) w = delete_tcs sel is w" "tc_sel sel (i # is) w = tc_sel sel is w"
      using nz by (auto simp: tc_sel_Cons Let_def)
    then show ?thesis using Cons.IH [OF Cons.prems(1) i(2)] by simp
  next
    case True
    then have lv: "?p \<in> tc_live w" using nz by simp
    obtain t where t: "w_heap w ?p = Some t" using tcp_invD(3) [OF Cons.prems(1) lv] by blast
    obtain w1 where w1: "delete_tcp_connection ?p w = Some w1" "tcp_inv w1" "tc_live w1 = tc_live w - {?p}"
      "w_heap w1 = (w_heap w)(?p := None)" "ur_map_look (w_map w1) = (ur_map_look (w_map w))(ucast (tc_id t) := None)"
      "w_alloc w1 = (w_alloc w)\<lparr>tcs := clear_entry ?p (tcs (w_alloc w)), io := io (w_alloc w) @ tc_release t\<rparr>"
      by (rule delete_laws [OF Cons.prems(1) lv t], rule that)
    have c: "clear_entry ?p (tcs (w_alloc w)) = (tcs (w_alloc w))[i := 0]"
      using clear_entry_nth [OF tcp_invD(2) [OF Cons.prems(1)] i(1)] True by blast
    have same: "w1\<lparr>w_alloc := (w_alloc w1)\<lparr>tcs := (tcs (w_alloc w1))[i := 0]\<rparr>\<rparr> = w1" by (simp add: w1(6) c)
    have del: "tcs_deleted {?p} w w1" unfolding tcs_deleted_def using w1(2,3)
      by (simp add: fun_eq_iff t w1(4,5,6) alloc_rest_def) (simp add: c)
    have "0 \<notin> tc_live w" using tc_live_nonzero by blast
    then have "tc_sel sel is w1 = tc_sel sel is w - {?p}"
      using i(1) True unfolding tc_sel_def w1(3,4) by (auto simp: w1(6) c nth_list_update split: if_splits)
    moreover have "list_all (\<lambda>j. j < length (tcs (w_alloc w1))) is" using i(2) by (simp add: w1(6) c)
    ultimately obtain w2 where w2: "delete_tcs sel is w1 = Some w2" "tcs_deleted (tc_sel sel is w - {?p}) w1 w2"
      using Cons.IH [OF w1(2)] by metis
    have "tc_sel sel (i # is) w = insert ?p (tc_sel sel is w - {?p})" using True lv by (auto simp: tc_sel_Cons Let_def)
    moreover have "finite (tc_sel sel is w - {?p})" by (simp add: tc_sel_def tc_live_def)
    ultimately show ?thesis using tcs_deleted_step [OF del w2(2)] w1(1) w2(1) True by (simp add: Let_def same)
  qed
qed

section \<open>Clearing\<close>

definition rs_release :: "relay_endpoint_session \<Rightarrow> alloc_io list" where
  "rs_release s = (if rs_s s \<noteq> 0 then [Session_cleared (rs_s s)] else []) @ IOA_CLOSE_SOCKET (rs_s s) @
     IOA_EVENT_DEL (rs_lifetime_ev s)"

definition relay_holds :: "allocation \<Rightarrow> alloc_io multiset" where
  "relay_holds a = (\<Sum>i < ALLOC_PROTOCOLS_NUMBER. mset (rs_release (relay_sessions a ! i)))"

text \<open>What the connections, the relay sessions and the tables of an allocation hold, counted with multiplicity.\<close>

definition held :: "tcp_world \<Rightarrow> alloc_io multiset" where
  "held w = (\<Sum>p \<in> tc_live w. mset (tc_release (the (w_heap w p)))) + relay_holds (w_alloc w) + table_holds (w_alloc w)"

lemma alloc_inv_cong:
  "addr_to_perm a = addr_to_perm b \<Longrightarrow> chns a = chns b \<Longrightarrow> alloc_inv a \<longleftrightarrow> alloc_inv b"
  "addr_to_perm a = addr_to_perm b \<Longrightarrow> perm_at a = perm_at b" "chns a = chns b \<Longrightarrow> chan_at a = chan_at b"
  by (simp_all add: alloc_inv_def alloc_shape_def perm_at_def chan_at_def)

lemma relay_cleared:
  assumes "length (relay_sessions a) = ALLOC_PROTOCOLS_NUMBER"
  defines "b \<equiv> fold clear_relay_session [0..<ALLOC_PROTOCOLS_NUMBER] a"
  shows "mset (io b) = mset (io a) + relay_holds a" "relay_holds b = {#}" "addr_to_perm b = addr_to_perm a" "chns b = chns a"
    "tcs b = tcs a"
proof -
  have n: "[0..<ALLOC_PROTOCOLS_NUMBER] = [0, 1]" "{..<ALLOC_PROTOCOLS_NUMBER} = {0, 1}"
    by (auto simp: ALLOC_PROTOCOLS_NUMBER_def numeral_2_eq_2)
  have l: "length (relay_sessions a) = 2" using assms(1) by (simp add: ALLOC_PROTOCOLS_NUMBER_def)
  show "mset (io b) = mset (io a) + relay_holds a"
    unfolding b_def relay_holds_def n by (simp add: clear_relay_session_def Let_def rs_release_def)
  show "relay_holds b = {#}"
    unfolding b_def relay_holds_def n using l
    by (simp add: clear_relay_session_def Let_def rs_release_def IOA_CLOSE_SOCKET_def IOA_EVENT_DEL_def)
  show "addr_to_perm b = addr_to_perm a" "chns b = chns a" "tcs b = tcs a"
    unfolding b_def n by (simp_all add: clear_relay_session_def Let_def)
qed

text \<open>Clearing the tables does not touch the list of connections and the relay sessions.\<close>

definition outer :: "allocation \<Rightarrow> u64 list \<times> relay_endpoint_session list" where
  "outer a = (tcs a, relay_sessions a)"

lemma perm_clean_used_rest: "outer (perm_clean_used r a) = outer a"
proof -
  have d: "outer (snd (delete_channel_info_from_allocation_map k v a)) = outer a" for k v a
    by (simp add: delete_channel_info_from_allocation_map_def ch_info_clean_def ch_store_def Let_def outer_def)
  have "outer (snd (lm_slots_foreach delete_channel_info_from_allocation_map es a)) = outer a" for es a
  proof (induction delete_channel_info_from_allocation_map es a rule: lm_slots_foreach.induct)
    case (2 k v sl a)
    then show ?case using d [of k v a] by (auto split: prod.splits)
  qed simp
  then show ?thesis
    by (simp add: perm_clean_used_def turn_permission_clean_def perm_store_def Let_def lm_map_foreach_arg_def
        lm_table_foreach_entries case_prod_unfold outer_def)
qed

lemma ch_clean_used_rest: "outer (ch_clean_used r a) = outer a"
  by (simp add: ch_clean_used_def ch_info_clean_def ch_store_def Let_def outer_def)

lemma fold_outer: "(\<And>x a. outer (f x a) = outer a) \<Longrightarrow> outer (fold f xs a) = outer a"
  by (induction xs arbitrary: a) simp_all

lemma tables_cleared_rest: "outer (ch_map_clean (free_turn_permission_hashtable a)) = outer a"
proof -
  have u: "outer (b\<lparr>addr_to_perm := x\<rparr>) = outer b" "outer (b\<lparr>chns := y\<rparr>) = outer b" for b x y by (simp_all add: outer_def)
  have "outer (free_turn_permission_hashtable a) = outer a"
    unfolding free_turn_permission_hashtable_def by (rule fold_outer) (simp add: Let_def u fold_outer perm_clean_used_rest)
  moreover have "outer (ch_map_clean b) = outer b" for b
    unfolding ch_map_clean_def by (rule fold_outer) (simp add: Let_def u fold_outer ch_clean_used_rest)
  ultimately show ?thesis by simp
qed

section \<open>Properties\<close>


definition empty_world :: tcp_world where
  "empty_world = \<lparr>w_alloc = init_allocation, w_heap = Map.empty, w_map = ur_map_create\<rparr>"

lemma empty_world_inv: "tcp_inv empty_world" "alloc_inv (w_alloc empty_world)" "tc_live empty_world = {}"
  "ur_map_look (w_map empty_world) = Map.empty" "w_heap empty_world = Map.empty" "tcs (w_alloc empty_world) = []"
  by (simp_all add: empty_world_def tcp_inv_def tc_live_def tc_entries_def init_allocation_def ur_map_inv_create ur_map_look_create)
    (use alloc_inv_init in \<open>simp add: init_allocation_def\<close>)

text \<open>A world with one connection, at address 100, whose identifier has the random part 5.\<close>

lemma one_connection:
  obtains w t where "create_tcp_connection 1 None (v4 1 80) 100 [5] empty_world = Some (Inr 100, w)" "tcp_inv w"
    "alloc_inv (w_alloc w)" "tc_live w = {100}" "w_heap w = [100 \<mapsto> t]" "tc_peer_addr t = v4 1 80" "tc_id t = 0x01000005"
    "ur_map_look (w_map w) = [0x01000005 \<mapsto> 100]" "tcs (w_alloc w) = [100]"
proof -
  obtain t w where w: "create_tcp_connection 1 None (v4 1 80) 100 [5] empty_world = Some (Inr 100, w)" "tcp_inv w"
    "tc_live w = insert 100 (tc_live empty_world)" "w_heap w = (w_heap empty_world)(100 \<mapsto> t)" "tc_peer_addr t = v4 1 80"
    "ur_map_look (w_map w) = (ur_map_look (w_map empty_world))(ucast (tc_id t) \<mapsto> 100)" 
    "w_alloc w = (w_alloc empty_world)\<lparr>tcs := put_free 100 (tcs (w_alloc empty_world))\<rparr>"
    by (rule create_laws [OF empty_world_inv(1), where p = 100 and r = 5 and rs = "[5]" and server_id = 1 and x = "v4 1 80" and tid = None])
      (simp_all add: empty_world_inv KH_CAP_def)
  have "w_heap w 100 = Some t" by (simp add: w(4))
  then have "tc_id t = 0x01000005"
    using w(1) by (auto simp: create_tcp_connection_def set_new_tc_id_def Let_def empty_world_inv new_tc_id.simps
        ur_map_get_look [OF tcp_invD(1) [OF empty_world_inv(1)]] bind_eq_Some_conv)
  moreover have "alloc_inv (w_alloc w)"
    using empty_world_inv(2) alloc_inv_cong(1) [of "w_alloc w" "w_alloc empty_world"] by (simp add: w(7))
  ultimately show ?thesis using that [OF w(1,2)] w(3-7) by (simp add: empty_world_inv)
qed


text \<open>\<^bold>\<open>C23\<close>: a new TCP connection of an allocation. A second connection to the same peer is refused with 446 and changes
  nothing. Otherwise, if one usable value is among the random numbers drawn, the call returns; the connection gets an
  identifier that is registered for no connection at that time (one that a client has claimed may still carry it), with the number of the server in its top byte, and both lookups,
  by identifier and by peer, lead to it, while every other identifier keeps its connection.\<close>

theorem create_tcp_connection_registers:
  assumes "tcp_inv w" "card (dom (ur_map_look (w_map w))) < KH_CAP" "p \<noteq> 0" "w_heap w p = None" "p \<notin> set (tcs (w_alloc w))"
    "ip_addr x" "r \<in> set rs" "r AND 0x00FFFFFF \<noteq> 0"
    "get_tcp_connection_by_id (w_map w) ((r AND 0x00FFFFFF) OR push_bit 24 (ucast (server_id :: u8))) = Some 0" "0 \<notin> ran (ur_map_look (w_map w))"
  shows "if get_tcp_connection_by_peer w x \<noteq> 0 then create_tcp_connection server_id tid x p rs w = Some (Inl 446, w)
    else \<exists>w' i. create_tcp_connection server_id tid x p rs w = Some (Inr p, w') \<and> tcp_inv w' \<and>
      get_tcp_connection_by_id (w_map w) i = Some 0 \<and> drop_bit 24 i = ucast server_id \<and>
      get_tcp_connection_by_id (w_map w') i = Some p \<and> get_tcp_connection_by_peer w' x = p \<and>
      (\<forall>j. j \<noteq> i \<longrightarrow> get_tcp_connection_by_id (w_map w') j = get_tcp_connection_by_id (w_map w) j)"
proof (cases "get_tcp_connection_by_peer w x = 0")
  case True
  then have free: "find_peer (w_heap w) x (tcs (w_alloc w)) = 0" by (simp add: get_tcp_connection_by_peer_def)
  have by_id: "get_tcp_connection_by_id m i = Some (case ur_map_look m (ucast i) of Some t \<Rightarrow> t | None \<Rightarrow> 0)" if "ur_map_inv m" for m i
    using ur_map_get_look [OF that] by (simp add: get_tcp_connection_by_id_def)
  note inv = tcp_invD(1) [OF assms(1)]
  have "ur_map_look (w_map w) (ucast ((r AND 0x00FFFFFF) OR push_bit 24 (ucast server_id))) = None"
    using assms(9,10) by (auto simp: by_id [OF inv] ran_def split: option.splits)
  then obtain t w' where w': "create_tcp_connection server_id tid x p rs w = Some (Inr p, w')" "tcp_inv w'"
    "tc_live w' = insert p (tc_live w)" "w_heap w' = (w_heap w)(p \<mapsto> t)" "tc_peer_addr t = x"
    "ur_map_look (w_map w') = (ur_map_look (w_map w))(ucast (tc_id t) \<mapsto> p)" "ur_map_look (w_map w) (ucast (tc_id t)) = None"
    "tc_id t AND 0x00FFFFFF \<noteq> 0" "drop_bit 24 (tc_id t) = ucast server_id"
    by (rule create_laws [OF assms(1-5,7,8) _ free, where server_id = server_id and tid = tid]) (rule that)
  have hp: "w_heap w' p = Some t" "p \<in> tc_live w'" using w'(3,4) by simp_all
  have "find_peer (w_heap w') x (tcs (w_alloc w')) \<noteq> 0"
    using create_446 [OF w'(2), of x] hp w'(5) assms(6) addr_eq_refl [of x] by blast
  from find_peer_hit [OF this] have fp: "find_peer (w_heap w') x (tcs (w_alloc w')) \<in> tc_live w'"
    "addr_eq (Some (tc_peer_addr (the (w_heap w' (find_peer (w_heap w') x (tcs (w_alloc w'))))))) (Some x)"
    by (simp_all add: tc_live_def)
  obtain s where s: "w_heap w' (find_peer (w_heap w') x (tcs (w_alloc w'))) = Some s" using tcp_invD(3) [OF w'(2) fp(1)] by blast
  have "get_tcp_connection_by_peer w' x = p"
    using tcp_invD(4) [OF w'(2) fp(1) hp(2) s hp(1)] fp(2) unfolding s option.sel w'(5) get_tcp_connection_by_peer_def by blast
  moreover have "get_tcp_connection_by_id (w_map w') (tc_id t) = Some p" "get_tcp_connection_by_id (w_map w) (tc_id t) = Some 0"
    using by_id [OF tcp_invD(1) [OF w'(2)]] by_id [OF inv] w'(6,7) by simp_all
  moreover have "get_tcp_connection_by_id (w_map w') j = get_tcp_connection_by_id (w_map w) j" if "j \<noteq> tc_id t" for j
    using by_id [OF tcp_invD(1) [OF w'(2)]] by_id [OF inv] w'(6) that ucast_id_eq [of j "tc_id t"] by simp
  ultimately have "create_tcp_connection server_id tid x p rs w = Some (Inr p, w') \<and> tcp_inv w' \<and>
      get_tcp_connection_by_id (w_map w) (tc_id t) = Some 0 \<and> drop_bit 24 (tc_id t) = ucast server_id \<and>
      get_tcp_connection_by_id (w_map w') (tc_id t) = Some p \<and> get_tcp_connection_by_peer w' x = p \<and>
      (\<forall>j. j \<noteq> tc_id t \<longrightarrow> get_tcp_connection_by_id (w_map w') j = get_tcp_connection_by_id (w_map w) j)"
    using w'(1,2,9) by blast
  then show ?thesis using True by auto
qed (simp add: create_tcp_connection_def get_tcp_connection_by_peer_def Let_def)

theorem create_tcp_connection_registers_witness:
  "\<exists>w' i. create_tcp_connection 1 None (v4 1 80) 100 [0, 5] empty_world = Some (Inr 100, w') \<and>
     get_tcp_connection_by_id (w_map w') i = Some 100 \<and> drop_bit 24 i = 1 \<and> get_tcp_connection_by_peer w' (v4 1 80) = 100"
proof -
  have "get_tcp_connection_by_id (w_map empty_world) i = Some 0" for i
    using ur_map_get_look [OF ur_map_inv_create] by (simp add: get_tcp_connection_by_id_def empty_world_def ur_map_look_create)
  then show ?thesis
    using create_tcp_connection_registers [OF empty_world_inv(1), of 100 "v4 1 80" 5 "[0, 5]" 1 None]
    by (auto simp: empty_world_inv KH_CAP_def ip_addr_def v4_def get_tcp_connection_by_peer_def)
qed

text \<open>\<^bold>\<open>C38\<close>: an identifier is free again as soon as its connection was claimed by the client, while the connection
  lives on with it. If a later connection draws the same identifier, the end of the first one removes the second from
  the map of the server: the second is still in its allocation, but its client can no longer claim it.\<close>

theorem claimed_id_collision:
  assumes "tcp_inv w" "card (dom (ur_map_look (w_map w))) < KH_CAP" "p \<in> tc_live w" "w_heap w p = Some s"
    "q \<noteq> 0" "w_heap w q = None" "get_tcp_connection_by_peer w x = 0"
    "tc_id s AND 0x00FFFFFF \<noteq> 0" "drop_bit 24 (tc_id s) = ucast (server_id :: u8)"
    "get_tcp_connection_by_id (w_map w) (tc_id s) = Some p"
  shows "\<exists>m w1 w2. get_and_clean_tcp_connection_by_id (w_map w) (tc_id s) = Some (p, m) \<and>
    create_tcp_connection server_id tid x q [tc_id s] (w\<lparr>w_map := m\<rparr>) = Some (Inr q, w1) \<and>
    get_tcp_connection_by_id (w_map w1) (tc_id s) = Some q \<and> delete_tcp_connection p w1 = Some w2 \<and>
    q \<in> tc_live w2 \<and> get_tcp_connection_by_id (w_map w2) (tc_id s) = Some 0"
proof -
  let ?k = "ucast (tc_id s) :: u64" and ?sid = "push_bit 24 (ucast server_id) :: u32"
  note inv = tcp_invD(1) [OF assms(1)]
  have p: "p \<noteq> 0" "p \<noteq> q" "\<not> tc_done s"
    using tcp_invD(3) [OF assms(1,3)] assms(4,6) tc_live_nonzero [OF assms(3)] by auto
  have reg: "ur_map_look (w_map w) ?k = Some p"
    using assms(10) p(1) by (auto simp: get_tcp_connection_by_id_def ur_map_get_look [OF inv] split: option.splits)
  obtain m where m: "ur_map_del (w_map w) ?k = Some (c_bool (?k \<in> dom (ur_map_look (w_map w))), m, ur_map_look (w_map w) ?k)"
    "ur_map_inv m" "ur_map_look m = (ur_map_look (w_map w))(?k := None)" by (rule ur_map_del_laws [OF inv])
  have c: "get_and_clean_tcp_connection_by_id (w_map w) (tc_id s) = Some (p, m)"
    by (simp add: get_and_clean_tcp_connection_by_id_def ur_map_get_look [OF inv] p reg m(1))
  have "card (dom (ur_map_look m)) \<le> card (dom (ur_map_look (w_map w)))"
    using um.finite_look [OF inv] unfolding m(3) by (intro card_mono) auto
  then have room: "card (dom (ur_map_look m)) < KH_CAP" using assms(2) by simp
  obtain m' where m': "ur_map_put m ?k q = Some (0, m')" "ur_map_inv m'" "ur_map_look m' = (ur_map_look m)(?k \<mapsto> q)"
    by (rule ur_map_put_laws [OF m(2) room])
  obtain m'' where m'': "ur_map_del m' ?k = Some (c_bool (?k \<in> dom (ur_map_look m')), m'', ur_map_look m' ?k)"
    "ur_map_inv m''" "ur_map_look m'' = (ur_map_look m')(?k := None)" by (rule ur_map_del_laws [OF m'(2)])
  have i: "(tc_id s AND 0x00FFFFFF) OR ?sid = tc_id s"
  proof -
    have m: "(0x00FFFFFF :: u32) = mask 24" by (simp add: mask_eq_exp_minus_1)
    show ?thesis unfolding assms(9) [symmetric] m
    proof (rule bit_word_eqI)
      fix n assume "n < LENGTH(32)"
      then show "bit (tc_id s AND mask 24 OR push_bit 24 (drop_bit 24 (tc_id s))) n = bit (tc_id s) n"
        by (cases "n < 24") (simp_all add: bit_simps)
    qed
  qed
  define t where "t = (case tid of Some i \<Rightarrow> tc_zero\<lparr>tc_peer_addr := x, tc_tid := i\<rparr> | None \<Rightarrow> tc_zero\<lparr>tc_peer_addr := x\<rparr>)"
  define l where "l = put_free q (tcs (w_alloc w))"
  define w1 where "w1 = w\<lparr>w_heap := (w_heap w)(q \<mapsto> t\<lparr>tc_id := tc_id s\<rparr>), w_alloc := (w_alloc w)\<lparr>tcs := l\<rparr>, w_map := m'\<rparr>"
  have new: "new_tc_id ?sid m [tc_id s] = Some (tc_id s)"
    using assms(8) i by (auto simp: new_tc_id.simps Let_def ur_map_get_look [OF m(2)] m(3))
  have cr: "create_tcp_connection server_id tid x q [tc_id s] (w\<lparr>w_map := m\<rparr>) = Some (Inr q, w1)"
    using assms(7) m'(1) new
    by (simp add: create_tcp_connection_def get_tcp_connection_by_peer_def set_new_tc_id_def Let_def t_def w1_def l_def split: option.splits)
  have by_id: "get_tcp_connection_by_id n i = Some (case ur_map_look n (ucast i) of Some t \<Rightarrow> t | None \<Rightarrow> 0)" if "ur_map_inv n" for n i
    using ur_map_get_look [OF that] by (simp add: get_tcp_connection_by_id_def)
  define w2 where "w2 = w1\<lparr>w_map := m'', w_heap := (w_heap w1)(p := None),
      w_alloc := (w_alloc w1)\<lparr>tcs := clear_entry p l, io := io (w_alloc w1) @ tc_release s\<rparr>\<rparr>"
  have d: "delete_tcp_connection p w1 = Some w2"
    using p m''(1) assms(4) by (simp add: delete_tcp_connection_def Let_def w1_def w2_def)
  have g: "get_tcp_connection_by_id (w_map w1) (tc_id s) = Some q" "get_tcp_connection_by_id (w_map w2) (tc_id s) = Some 0"
    using by_id [OF m'(2)] by_id [OF m''(2)] by (simp_all add: w1_def w2_def m'(3) m''(3))
  have "q \<in> set (put_free q k)" for k by (induction k) auto
  moreover have "q \<in> set (clear_entry p k)" if "q \<in> set k" for k using that p(2) by (induction k) auto
  ultimately have "q \<in> set (clear_entry p l)" unfolding l_def by blast
  then have "q \<in> tc_live w2" using assms(5) by (simp add: tc_live_def w2_def tc_entries_def)
  then show ?thesis using c cr d g by blast
qed

theorem claimed_id_collision_witness:
  "\<exists>w m w1 w2. get_and_clean_tcp_connection_by_id (w_map w) 0x01000005 = Some (100, m) \<and>
     create_tcp_connection 1 None (v4 2 80) 200 [0x01000005] (w\<lparr>w_map := m\<rparr>) = Some (Inr 200, w1) \<and>
     delete_tcp_connection 100 w1 = Some w2 \<and> 200 \<in> tc_live w2 \<and> get_tcp_connection_by_id (w_map w2) 0x01000005 = Some 0"
proof -
  obtain w t where w: "tcp_inv w" "tc_live w = {100}" "w_heap w = [100 \<mapsto> t]" "tc_peer_addr t = v4 1 80" "tc_id t = 0x01000005"
    "ur_map_look (w_map w) = [0x01000005 \<mapsto> 100]" "tcs (w_alloc w) = [100]"
    by (rule one_connection) (rule that)
  have "get_tcp_connection_by_peer w (v4 2 80) = 0"
    by (simp add: get_tcp_connection_by_peer_def w addr_eq_def v4_def AF_INET_def)
  then show ?thesis
    using claimed_id_collision [OF w(1), of 100 t 200 "v4 2 80" 1 None] w
    by (simp add: KH_CAP_def get_tcp_connection_by_id_def ur_map_get_look [OF tcp_invD(1) [OF w(1)]]) blast
qed

end
