(* ===== verification/Turn_Session.thy ===== *)
theory Turn_Session
  imports Tcp_Conn Stun_Build Stun_Auth
begin

text \<open>
  The client sessions of the TURN server, \<^verbatim>\<open>src/coturn/src/server/ns_turn_server.c\<close>: the check of a peer address
  against the configured ranges, the lifetimes of permissions and channels, and the requests that change them,
  ChannelBind and CreatePermission. A request is read with the attribute walk of the message library.

  \<open>tm\<close> gives the handle that the \<open>n\<close>-th call of \<^verbatim>\<open>set_ioa_timer\<close> creates, \<open>socket_type\<close> the type of a socket, and
  \<open>ms\<close> is the table of public and private addresses. Log messages are left out. The settings that the server shares
  by pointer are plain fields. Allocating memory succeeds, so a new channel is always there and the branch
  ``Cannot find channel data'' is never taken.
\<close>

section \<open>State\<close>

record ip_range =
  ir_realm :: "u8 list"
  ir_enc :: ioa_addr_range

type_synonym ip_range_list = "ip_range list"

datatype SOCKET_TYPE =
    UNKNOWN_SOCKET | TCP_SOCKET | UDP_SOCKET | TLS_SOCKET | SCTP_SOCKET | TLS_SCTP_SOCKET | DTLS_SOCKET
  | TCP_SOCKET_PROXY | TENTATIVE_SCTP_SOCKET | TENTATIVE_TCP_SOCKET

text \<open>
  The fields of \<^verbatim>\<open>turn_turnserver\<close> and of \<^verbatim>\<open>ts_ur_super_session\<close> that the modelled handlers use; \<open>timers_set\<close> counts the calls
  of \<^verbatim>\<open>set_ioa_timer\<close>. \<open>e_whitelist\<close> and \<open>e_blacklist\<close> are the lists of the
  engine, which a database refreshes.
\<close>

record turn_turnserver =
  srv_ctime :: u32
  srv_verbose :: bool
  channel_lifetime :: u32
  permission_lifetime :: u32
  allow_loopback_peers :: bool
  no_multicast_peers :: bool
  ip_whitelist :: "ip_range_list option"
  ip_blacklist :: "ip_range_list option"
  e_whitelist :: "ip_range_list option"
  e_blacklist :: "ip_range_list option"

record ts_ur_super_session =
  ss_id :: u64
  client_socket :: u64
  alloc :: allocation
  is_tcp_relay :: bool
  is_mobile :: bool
  realm_name :: "u8 list"
  timers_set :: nat

definition get_allocation_ss :: "ts_ur_super_session \<Rightarrow> allocation" where
  "get_allocation_ss ss = alloc ss"

definition get_relay_socket_ss :: "ts_ur_super_session \<Rightarrow> int \<Rightarrow> u64" where
  "get_relay_socket_ss ss family = get_relay_socket (alloc ss) family"

section \<open>Peer addresses\<close>

definition CHECK_REALM :: "u8 list \<Rightarrow> u8 list \<Rightarrow> bool" where
  "CHECK_REALM r realm \<longleftrightarrow> c_str r = [] \<or> c_str realm = [] \<or> c_strcmp r realm = 0"

text \<open>The loops over a list run from its last range down; a list that is not there has no range.\<close>

fun in_ranges :: "u8 list \<Rightarrow> ioa_addr \<Rightarrow> ip_range list \<Rightarrow> bool" where
  "in_ranges realm peer_addr [] = False"
| "in_ranges realm peer_addr (r # rs) =
     (if \<not> CHECK_REALM (ir_realm r) realm then in_ranges realm peer_addr rs
      else if ioa_addr_in_range (Some (ir_enc r)) (Some peer_addr) then True
      else in_ranges realm peer_addr rs)"

definition listed :: "ip_range_list option \<Rightarrow> u8 list \<Rightarrow> ioa_addr \<Rightarrow> bool" where
  "listed l realm peer_addr = (case l of Some rs \<Rightarrow> in_ranges realm peer_addr (rev rs) | None \<Rightarrow> False)"

definition good_peer_addr :: "turn_turnserver \<Rightarrow> u8 list \<Rightarrow> ioa_addr \<Rightarrow> bool" where
  "good_peer_addr server realm peer_addr =
     (if no_multicast_peers server \<and> ioa_addr_is_multicast (Some peer_addr) then False
      else if \<not> allow_loopback_peers server \<and> ioa_addr_is_loopback (Some peer_addr) then False
      else if listed (ip_whitelist server) realm peer_addr then True
      else if listed (e_whitelist server) realm peer_addr then True
      else if listed (ip_blacklist server) realm peer_addr then False
      else if listed (e_blacklist server) realm peer_addr then False
      else True)"

section \<open>Lifetimes\<close>

definition client_ss_channel_timeout_handler :: "slot_ref \<Rightarrow> allocation \<Rightarrow> allocation" where
  "client_ss_channel_timeout_handler chn a = turn_channel_delete chn a"

definition client_ss_perm_timeout_handler :: "slot_ref \<Rightarrow> allocation \<Rightarrow> allocation" where
  "client_ss_perm_timeout_handler tinfo a =
     (if \<not> ti_allocated (perm_load a tinfo) then a else turn_permission_clean tinfo a)"

text \<open>\<^verbatim>\<open>set_ioa_timer\<close> gives \<^verbatim>\<open>NULL\<close> when the number of seconds, an \<^verbatim>\<open>int\<close>, is not positive.\<close>

definition set_ioa_timer :: "(nat \<Rightarrow> u64) \<Rightarrow> ts_ur_super_session \<Rightarrow> u32 \<Rightarrow> u64" where
  "set_ioa_timer tm ss secs = (if 0 < sint secs then tm (timers_set ss) else 0)"

text \<open>A permission in use has the allocation as its owner.\<close>

definition update_turn_permission_lifetime ::
  "(nat \<Rightarrow> u64) \<Rightarrow> turn_turnserver \<Rightarrow> ts_ur_super_session \<Rightarrow> slot_ref \<Rightarrow> u32 \<Rightarrow> int \<times> ts_ur_super_session" where
  "update_turn_permission_lifetime tm server ss tinfo time_delta =
     (let a = alloc ss; p = perm_load a tinfo in
      if ti_allocated p then
        let time_delta = (if time_delta = 0 then permission_lifetime server else time_delta);
            q = p\<lparr>ti_expiration_time := srv_ctime server + time_delta, ti_lifetime_ev := set_ioa_timer tm ss time_delta\<rparr>;
            q = (if srv_verbose server then q\<lparr>ti_verbose := True, ti_session_id := ss_id ss\<rparr> else q);
            a = a\<lparr>io := io a @ IOA_EVENT_DEL (ti_lifetime_ev p)\<rparr>
        in (0, ss\<lparr>alloc := perm_store a tinfo q, timers_set := timers_set ss + 1\<rparr>)
      else (-1, ss))"

definition update_channel_lifetime ::
  "(nat \<Rightarrow> u64) \<Rightarrow> turn_turnserver \<Rightarrow> ts_ur_super_session \<Rightarrow> slot_ref \<Rightarrow> int \<times> ts_ur_super_session" where
  "update_channel_lifetime tm server ss chn =
     (case ch_owner (ch_load (alloc ss) chn) of
        Some tinfo \<Rightarrow>
          if ti_allocated (perm_load (alloc ss) tinfo) then
            (case update_turn_permission_lifetime tm server ss tinfo (channel_lifetime server) of
               (r, ss) \<Rightarrow>
                 if r < 0 then (-1, ss)
                 else
                   let a = alloc ss; c = ch_load a chn;
                       d = c\<lparr>ch_expiration_time := srv_ctime server + channel_lifetime server,
                         ch_lifetime_ev := set_ioa_timer tm ss (channel_lifetime server)\<rparr>;
                       a = a\<lparr>io := io a @ IOA_EVENT_DEL (ch_lifetime_ev c)\<rparr>
                   in (0, ss\<lparr>alloc := ch_store a chn d, timers_set := timers_set ss + 1\<rparr>))
          else (-1, ss)
      | None \<Rightarrow> (-1, ss))"

section \<open>Reading a request\<close>

definition MAX_NUMBER_OF_UNKNOWN_ATTRS :: nat where "MAX_NUMBER_OF_UNKNOWN_ATTRS = 128"

record attr_scan =
  sc_err :: int
  sc_reason :: "u8 list option"
  sc_unknown :: "u16 list"

definition attr_is :: "int \<Rightarrow> u16 \<Rightarrow> bool" where
  "attr_is attr_type t \<longleftrightarrow> attr_type = int (unat t)"

text \<open>The attributes that every handler passes over.\<close>

definition SKIP_ATTRIBUTES :: "int \<Rightarrow> bool" where
  "SKIP_ATTRIBUTES t \<longleftrightarrow>
     attr_is t STUN_ATTRIBUTE_OAUTH_ACCESS_TOKEN \<or> attr_is t STUN_ATTRIBUTE_PRIORITY \<or>
     attr_is t STUN_ATTRIBUTE_FINGERPRINT \<or> attr_is t STUN_ATTRIBUTE_MESSAGE_INTEGRITY \<or>
     attr_is t STUN_ATTRIBUTE_USERNAME \<or> attr_is t STUN_ATTRIBUTE_REALM \<or> attr_is t STUN_ATTRIBUTE_NONCE \<or>
     attr_is t STUN_ATTRIBUTE_ORIGIN"

definition unknown_attr :: "int \<Rightarrow> 'a attr_scan_scheme \<Rightarrow> 'a attr_scan_scheme" where
  "unknown_attr t s =
     (if 0x0000 \<le> t \<and> t \<le> 0x7FFF then s\<lparr>sc_unknown := sc_unknown s @ [nswap16 (of_int t)]\<rparr> else s)"

definition scan_error :: "int \<Rightarrow> string \<Rightarrow> 'a attr_scan_scheme \<Rightarrow> 'a attr_scan_scheme" where
  "scan_error e text s = s\<lparr>sc_err := e, sc_reason := Some (str_bytes text)\<rparr>"

text \<open>The loop of a handler over the attributes of its request: it stops at an error or when the array is full.\<close>

definition scan_attrs ::
  "(nat \<Rightarrow> 'a attr_scan_scheme \<Rightarrow> 'a attr_scan_scheme) \<Rightarrow> u8 list \<Rightarrow> nat \<Rightarrow> 'a attr_scan_scheme \<Rightarrow> 'a attr_scan_scheme" where
  "scan_attrs step buf len s =
     snd (attr_while
       (\<lambda>sar s. if sc_err s = 0 \<and> length (sc_unknown s) < MAX_NUMBER_OF_UNKNOWN_ATTRS then (False, step sar s) else (True, s))
       buf len (stun_attr_get_first_str buf len) s)"

text \<open>
  What a handler leaves for the reply: the error code, the reason, the unknown attributes, and the response with its
  length when it was constructed.
\<close>

record turn_reply =
  err_code :: int
  reason :: "u8 list option"
  unknown_attrs :: "u16 list"
  response :: "(u8 list \<times> nat) option"

definition reply_of :: "'a attr_scan_scheme \<Rightarrow> turn_reply" where
  "reply_of s = \<lparr>err_code = sc_err s, reason = sc_reason s, unknown_attrs = sc_unknown s, response = None\<rparr>"

definition reply_error :: "int \<Rightarrow> string \<Rightarrow> turn_reply \<Rightarrow> turn_reply" where
  "reply_error e text r = r\<lparr>err_code := e, reason := Some (str_bytes text)\<rparr>"

definition no_reply :: turn_reply where
  "no_reply = \<lparr>err_code = 0, reason = None, unknown_attrs = [], response = None\<rparr>"

section \<open>ChannelBind\<close>

record bind_scan = attr_scan +
  bs_chnum :: u16
  bs_peer_addr :: ioa_addr
  bs_addr_found :: bool

definition bind_scan_init :: bind_scan where
  "bind_scan_init = \<lparr>sc_err = 0, sc_reason = None, sc_unknown = [], bs_chnum = 0, bs_peer_addr = addr_set_any,
     bs_addr_found = False\<rparr>"

definition bind_attr :: "addr_mapping \<Rightarrow> allocation \<Rightarrow> u8 list \<Rightarrow> nat \<Rightarrow> nat \<Rightarrow> bind_scan \<Rightarrow> bind_scan" where
  "bind_attr ms a buf len sar s =
     (let attr_type = stun_attr_get_type buf (Some sar) in
      if SKIP_ATTRIBUTES attr_type then s
      else if attr_is attr_type STUN_ATTRIBUTE_CHANNEL_NUMBER then
        if bs_chnum s \<noteq> 0 then
          scan_error 400 ''Channel number cannot be duplicated in this request'' (s\<lparr>bs_chnum := 0\<rparr>)
        else
          let s = s\<lparr>bs_chnum := stun_attr_get_channel_number buf (Some sar)\<rparr> in
          if bs_chnum s = 0 then scan_error 400 ''Channel number cannot be zero in this request'' s else s
      else if attr_is attr_type STUN_ATTRIBUTE_XOR_PEER_ADDRESS then
        let peer_addr = snd (stun_attr_get_addr_str ms buf len (Some sar) None);
            s = s\<lparr>bs_peer_addr := peer_addr\<rparr>;
            s = (if get_relay_socket a (uint (sa_family peer_addr)) = 0
                 then scan_error 443 ''Peer Address Family Mismatch (3)'' s else s)
        in if addr_get_port (Some peer_addr) < 1
           then scan_error 400 ''Empty port number in channel bind request'' s
           else s\<lparr>bs_addr_found := True\<rparr>
      else unknown_attr attr_type s)"

text \<open>
  The channel for the request: an existing one with this number and this peer, or a new one. The result is an error
  with its reason, or the channel, and the session.
\<close>

definition bind_channel ::
  "turn_turnserver \<Rightarrow> ts_ur_super_session \<Rightarrow> u16 \<Rightarrow> ioa_addr \<Rightarrow> (int \<times> string + slot_ref) \<times> ts_ur_super_session" where
  "bind_channel server ss chnum peer_addr =
     (let a = alloc ss in
      case allocation_get_ch_info a chnum of
        Some chn \<Rightarrow>
          let c = ch_load a chn in
          if \<not> addr_eq (Some peer_addr) (Some (ch_peer_addr c)) then
            (Inl (400, ''You cannot use the same channel number with different peer''), ss)
          else
            (case ch_owner c of
               None \<Rightarrow> (Inl (500, ''Wrong permission info''), ss)
             | Some tinfo \<Rightarrow>
                 if \<not> addr_eq_no_port (Some peer_addr) (Some (ti_addr (perm_load a tinfo))) then
                   (Inl (500, ''Wrong permission info and peer addr combination''), ss)
                 else if uint (ch_port c) \<noteq> addr_get_port (Some peer_addr) then (Inl (500, ''Wrong port number''), ss)
                 else (Inr chn, ss))
      | None \<Rightarrow>
          (case allocation_get_ch_info_by_peer_addr a peer_addr of
             Some chn \<Rightarrow> (Inl (400, ''You cannot use the same peer with different channel number''), ss)
           | None \<Rightarrow>
               if \<not> good_peer_addr server (realm_name ss) peer_addr then (Inl (403, ''Forbidden IP''), ss)
               else
                 (case allocation_get_new_ch_info a chnum peer_addr of
                    (chn, a) \<Rightarrow>
                      (if ch_owner (ch_load a chn) = None then Inl (500, ''Wrong turn permission info'') else Inr chn, ss\<lparr>alloc := a\<rparr>))))"

text \<open>The kernel channel: \<^verbatim>\<open>CREATE_TURN_CHANNEL_KERNEL\<close> is the constant 1 unless the build replaces it.\<close>

definition CREATE_TURN_CHANNEL_KERNEL :: u64 where "CREATE_TURN_CHANNEL_KERNEL = 1"

definition bind_kernel ::
  "(u64 \<Rightarrow> SOCKET_TYPE) \<Rightarrow> ioa_addr \<Rightarrow> slot_ref \<Rightarrow> ts_ur_super_session \<Rightarrow> ts_ur_super_session" where
  "bind_kernel socket_type peer_addr chn ss =
     (if \<not> is_mobile ss \<and> socket_type (client_socket ss) \<in> {UDP_SOCKET, TCP_SOCKET, SCTP_SOCKET} \<and>
         socket_type (get_relay_socket (alloc ss) (uint (sa_family peer_addr))) = UDP_SOCKET
      then ss\<lparr>alloc := ch_store (alloc ss) chn ((ch_load (alloc ss) chn)\<lparr>ch_kernel_channel := CREATE_TURN_CHANNEL_KERNEL\<rparr>)\<rparr>
      else ss)"

definition handle_turn_channel_bind ::
  "(nat \<Rightarrow> u64) \<Rightarrow> (u64 \<Rightarrow> SOCKET_TYPE) \<Rightarrow> addr_mapping \<Rightarrow> u8 list \<Rightarrow> turn_turnserver \<Rightarrow> ts_ur_super_session \<Rightarrow>
   stun_tid \<Rightarrow> u8 list \<Rightarrow> nat \<Rightarrow> u8 list \<Rightarrow> turn_reply \<times> ts_ur_super_session" where
  "handle_turn_channel_bind tm socket_type ms rnd server ss tid in_buffer in_len nbh =
     (let a = get_allocation_ss ss in
      if is_tcp_relay ss then (reply_error 403 ''Channel bind cannot be used with TCP relay'' no_reply, ss)
      else if is_allocation_valid a then
        let s = scan_attrs (bind_attr ms a in_buffer in_len) in_buffer in_len bind_scan_init;
            r = reply_of s; chnum = bs_chnum s; peer_addr = bs_peer_addr s
        in if unknown_attrs r \<noteq> [] then (r\<lparr>err_code := 420\<rparr>, ss)
           else if err_code r \<noteq> 0 then (r, ss)
           else if chnum = 0 \<or> addr_any (Some peer_addr) \<or> \<not> bs_addr_found s then
             (reply_error 400 ''Bad channel bind request'' r, ss)
           else if \<not> STUN_VALID_CHANNEL chnum then (reply_error 400 ''Bad channel number'' r, ss)
           else
             (case bind_channel server ss chnum peer_addr of
                (Inl (e, text), ss) \<Rightarrow> (reply_error e text r, ss)
              | (Inr chn, ss) \<Rightarrow>
                  (case update_channel_lifetime tm server ss chn of
                     (u, ss) \<Rightarrow>
                       if u < 0 then (reply_error 500 ''Cannot update channel lifetime (internal error)'' r, ss)
                       else (r\<lparr>response := Some (stun_set_channel_bind_response_str rnd nbh (Some tid) 0 None)\<rparr>,
                             bind_kernel socket_type peer_addr chn ss)))
      else (no_reply, ss))"

section \<open>CreatePermission\<close>

definition update_permission ::
  "(nat \<Rightarrow> u64) \<Rightarrow> turn_turnserver \<Rightarrow> ts_ur_super_session \<Rightarrow> ioa_addr \<Rightarrow> int \<times> ts_ur_super_session" where
  "update_permission tm server ss peer_addr =
     (case (case allocation_get_permission (alloc ss) peer_addr of
              Some tinfo \<Rightarrow> (tinfo, ss)
            | None \<Rightarrow> (case allocation_add_permission (alloc ss) peer_addr of (tinfo, a) \<Rightarrow> (tinfo, ss\<lparr>alloc := a\<rparr>))) of
        (tinfo, ss) \<Rightarrow>
          (case update_turn_permission_lifetime tm server ss tinfo 0 of
             (u, ss) \<Rightarrow>
               if u < 0 then (-1, ss)
               else
                 (case get_turn_channel (alloc ss) tinfo peer_addr of
                    Some chn \<Rightarrow>
                      (case update_channel_lifetime tm server ss chn of (u, ss) \<Rightarrow> (if u < 0 then -1 else 0, ss))
                  | None \<Rightarrow> (0, ss))))"

record perm_scan = attr_scan +
  ps_addr_found :: nat

definition perm_scan_init :: perm_scan where
  "perm_scan_init = \<lparr>sc_err = 0, sc_reason = None, sc_unknown = [], ps_addr_found = 0\<rparr>"

definition perm_attr ::
  "addr_mapping \<Rightarrow> turn_turnserver \<Rightarrow> ts_ur_super_session \<Rightarrow> u8 list \<Rightarrow> nat \<Rightarrow> nat \<Rightarrow> perm_scan \<Rightarrow> perm_scan" where
  "perm_attr ms server ss buf len sar s =
     (let attr_type = stun_attr_get_type buf (Some sar) in
      if SKIP_ATTRIBUTES attr_type then s
      else if attr_is attr_type STUN_ATTRIBUTE_XOR_PEER_ADDRESS then
        let peer_addr = snd (stun_attr_get_addr_str ms buf len (Some sar) None) in
        if get_relay_socket (alloc ss) (uint (sa_family peer_addr)) = 0 then scan_error 443 ''Peer Address Family Mismatch (4)'' s
        else if \<not> good_peer_addr server (realm_name ss) peer_addr then scan_error 403 ''Forbidden IP'' s
        else s\<lparr>ps_addr_found := ps_addr_found s + 1\<rparr>
      else unknown_attr attr_type s)"

text \<open>The second pass over the request, which creates or refreshes the permissions; the state is the error code and the session.\<close>

definition perm_update ::
  "(nat \<Rightarrow> u64) \<Rightarrow> addr_mapping \<Rightarrow> turn_turnserver \<Rightarrow> u8 list \<Rightarrow> nat \<Rightarrow> nat \<Rightarrow> turn_reply \<times> ts_ur_super_session \<Rightarrow>
   bool \<times> turn_reply \<times> ts_ur_super_session" where
  "perm_update tm ms server buf len sar rs =
     (let (r, ss) = rs; attr_type = stun_attr_get_type buf (Some sar) in
      if SKIP_ATTRIBUTES attr_type then (False, r, ss)
      else if attr_is attr_type STUN_ATTRIBUTE_XOR_PEER_ADDRESS then
        let peer_addr = addr_set_port (snd (stun_attr_get_addr_str ms buf len (Some sar) None)) 0 in
        (case update_permission tm server ss peer_addr of
           (u, ss) \<Rightarrow>
             (False, if u < 0 then reply_error 500 ''Cannot update some permissions (critical server software error)'' r else r, ss))
      else (False, r, ss))"

definition handle_turn_create_permission ::
  "(nat \<Rightarrow> u64) \<Rightarrow> addr_mapping \<Rightarrow> u8 list \<Rightarrow> turn_turnserver \<Rightarrow> ts_ur_super_session \<Rightarrow> stun_tid \<Rightarrow> u8 list \<Rightarrow> nat \<Rightarrow>
   u8 list \<Rightarrow> int \<times> turn_reply \<times> ts_ur_super_session" where
  "handle_turn_create_permission tm ms rnd server ss tid in_buffer in_len nbh =
     (if is_allocation_valid (get_allocation_ss ss) then
        let s = scan_attrs (perm_attr ms server ss in_buffer in_len) in_buffer in_len perm_scan_init;
            r = reply_of s
        in if unknown_attrs r \<noteq> [] then (-1, r\<lparr>err_code := 420\<rparr>, ss)
           else if err_code r \<noteq> 0 then (-1, r, ss)
           else if ps_addr_found s = 0 then (-1, reply_error 400 ''No address found'' r, ss)
           else
             (case snd (attr_while (perm_update tm ms server in_buffer in_len) in_buffer in_len
                      (stun_attr_get_first_str in_buffer in_len) (r, ss)) of
                (r, ss) \<Rightarrow>
                  if err_code r = 0 then
                    (0, r\<lparr>response := Some (stun_init_success_response_str rnd STUN_METHOD_CREATE_PERMISSION nbh (Some tid))\<rparr>, ss)
                  else (-1, r, ss))
      else (-1, no_reply, ss))"

end
