(* ===== verification/Session_Laws.thy ===== *)
theory Session_Laws
  imports Turn_Session
begin

text \<open>
  The lemmas on the session handlers: changing a timer keeps the links between permissions and channels, the peer
  check depends on the IP address alone, and what the loop over the attributes of a request leaves behind.
\<close>

section \<open>Changes that keep the links\<close>

definition perm_key :: "turn_permission_info \<Rightarrow> ioa_addr \<times> lm_map" where
  "perm_key p = (ti_addr p, ti_chns p)"

definition chan_key :: "ch_info \<Rightarrow> u16 \<times> u16 \<times> ioa_addr \<times> slot_ref option" where
  "chan_key c = (ch_chnum c, ch_port c, ch_peer_addr c, ch_owner c)"

definition same_links :: "allocation \<Rightarrow> allocation \<Rightarrow> bool" where
  "same_links a b \<longleftrightarrow> (\<forall>q. map_option perm_key (perm_at a q) = map_option perm_key (perm_at b q)) \<and>
     (\<forall>r. map_option chan_key (chan_at a r) = map_option chan_key (chan_at b r))"

lemma same_links_refl: "same_links a a"
  by (simp add: same_links_def)

lemma same_links_sym: "same_links a b \<Longrightarrow> same_links b a"
  unfolding same_links_def by metis

lemma same_links_trans: "same_links a b \<Longrightarrow> same_links b c \<Longrightarrow> same_links a c"
  unfolding same_links_def by metis

lemma same_perm:
  assumes "same_links a b" "perm_at b q = Some p"
  obtains p' where "perm_at a q = Some p'" "ti_addr p' = ti_addr p" "ti_chns p' = ti_chns p"
proof -
  have "map_option perm_key (perm_at a q) = Some (perm_key p)" using assms unfolding same_links_def by (metis option.simps(9))
  then obtain p' where "perm_at a q = Some p'" "perm_key p' = perm_key p" by blast
  then show ?thesis using that by (simp add: perm_key_def)
qed

lemma same_chan:
  assumes "same_links a b" "chan_at b r = Some c"
  obtains c' where "chan_at a r = Some c'" "ch_chnum c' = ch_chnum c" "ch_port c' = ch_port c"
    "ch_peer_addr c' = ch_peer_addr c" "ch_owner c' = ch_owner c"
proof -
  have "map_option chan_key (chan_at a r) = Some (chan_key c)" using assms unfolding same_links_def by (metis option.simps(9))
  then obtain c' where "chan_at a r = Some c'" "chan_key c' = chan_key c" by blast
  then show ?thesis using that by (simp add: chan_key_def)
qed

lemma linked_cong:
  assumes "ti_addr p' = ti_addr p" "ti_chns p' = ti_chns p" "ch_port c' = ch_port c" "ch_peer_addr c' = ch_peer_addr c"
    "ch_owner c' = ch_owner c"
  shows "linked r c' q p' \<longleftrightarrow> linked r c q p"
  using assms by (simp add: linked_def)

lemma same_links_ok:
  assumes s: "same_links a b" and L: "links_ok (perm_at a) (chan_at a)"
  shows "links_ok (perm_at b) (chan_at b)"
proof (rule links_okI)
  fix q p assume "perm_at b q = Some p"
  then obtain p' where p': "perm_at a q = Some p'" "ti_addr p' = ti_addr p" "ti_chns p' = ti_chns p" by (rule same_perm [OF s])
  then show "perm_ok q p" using links_okD(1) [OF L p'(1)] by (simp add: perm_ok_def)
next
  fix q p q1 p1
  assume h: "perm_at b q = Some p" "perm_at b q1 = Some p1" "addr_eq_no_port (Some (ti_addr p)) (Some (ti_addr p1))"
  obtain p' where p': "perm_at a q = Some p'" "ti_addr p' = ti_addr p" "ti_chns p' = ti_chns p" by (rule same_perm [OF s h(1)])
  obtain p1' where p1': "perm_at a q1 = Some p1'" "ti_addr p1' = ti_addr p1" "ti_chns p1' = ti_chns p1" by (rule same_perm [OF s h(2)])
  show "q = q1" using links_okD(2) [OF L p'(1) p1'(1)] h(3) p'(2) p1'(2) by simp
next
  fix r c assume h: "chan_at b r = Some c"
  obtain c' where c': "chan_at a r = Some c'" "ch_chnum c' = ch_chnum c" "ch_port c' = ch_port c"
    "ch_peer_addr c' = ch_peer_addr c" "ch_owner c' = ch_owner c" by (rule same_chan [OF s h])
  show "chan_ok r c" using links_okD(3) [OF L c'(1)] unfolding chan_ok_def c'(2) c'(3) c'(4) .
next
  fix r c r1 c1 assume h: "chan_at b r = Some c" "chan_at b r1 = Some c1" "ch_chnum c = ch_chnum c1"
  obtain c' where c': "chan_at a r = Some c'" "ch_chnum c' = ch_chnum c" by (rule same_chan [OF s h(1)])
  obtain c1' where c1': "chan_at a r1 = Some c1'" "ch_chnum c1' = ch_chnum c1" by (rule same_chan [OF s h(2)])
  show "r = r1" using links_okD(4) [OF L c'(1) c1'(1)] h(3) c'(2) c1'(2) by simp
next
  fix r c assume h: "chan_at b r = Some c"
  obtain c' where c': "chan_at a r = Some c'" "ch_chnum c' = ch_chnum c" "ch_port c' = ch_port c"
    "ch_peer_addr c' = ch_peer_addr c" "ch_owner c' = ch_owner c" by (rule same_chan [OF s h])
  obtain q p where p: "perm_at a q = Some p" "linked r c' q p" using links_okD(5) [OF L c'(1)] by blast
  obtain p' where p': "perm_at b q = Some p'" "ti_addr p' = ti_addr p" "ti_chns p' = ti_chns p"
    by (rule same_perm [OF same_links_sym [OF s] p(1)])
  have "linked r c q p'" using p(2) linked_cong [of p' p c c' r q] p' c' by simp
  then show "\<exists>q p. perm_at b q = Some p \<and> linked r c q p" using p'(1) by blast
next
  fix q p k v assume h: "perm_at b q = Some p" "lm_map_get (ti_chns p) k = Some v"
  obtain p' where p': "perm_at a q = Some p'" "ti_addr p' = ti_addr p" "ti_chns p' = ti_chns p" by (rule same_perm [OF s h(1)])
  have "lm_map_get (ti_chns p') k = Some v" using h(2) p'(3) by simp
  then obtain r c where c: "chan_at a r = Some c" "v = ch_ptr r" "linked r c q p'" "k = ucast (ch_port c)"
    using links_okD(6) [OF L p'(1)] by blast
  obtain c' where c': "chan_at b r = Some c'" "ch_chnum c' = ch_chnum c" "ch_port c' = ch_port c"
    "ch_peer_addr c' = ch_peer_addr c" "ch_owner c' = ch_owner c" by (rule same_chan [OF same_links_sym [OF s] c(1)])
  have "linked r c' q p" using c(3) linked_cong [of p p' c' c r q] p' c' by simp
  then show "\<exists>r c. chan_at b r = Some c \<and> v = ch_ptr r \<and> linked r c q p \<and> k = ucast (ch_port c)"
    using c'(1,3) c(2,4) by (intro exI [of _ r] exI [of _ c']) simp
qed

lemma same_links_view:
  assumes s: "same_links a b" and inv: "alloc_inv a" "alloc_inv b"
  shows "alloc_view b = alloc_view a"
proof -
  have "permitted b x \<longleftrightarrow> permitted a x" for x
    unfolding permitted_iff [OF inv(1)] permitted_iff [OF inv(2)]
    using same_perm [OF s] same_perm [OF same_links_sym [OF s]] by metis
  moreover have "channel_peer b = channel_peer a"
  proof (rule channel_peer_eqI [OF inv(2)])
    fix n y
    have "(\<exists>r c. chan_at b r = Some c \<and> ch_chnum c = n \<and> ch_peer_addr c = y) \<longleftrightarrow>
        (\<exists>r c. chan_at a r = Some c \<and> ch_chnum c = n \<and> ch_peer_addr c = y)"
      using same_chan [OF s] same_chan [OF same_links_sym [OF s]] by metis
    then show "(\<exists>r c. chan_at b r = Some c \<and> ch_chnum c = n \<and> ch_peer_addr c = y) \<longleftrightarrow> channel_peer a n = Some y"
      unfolding channel_peer_iff [OF inv(1)] .
  qed
  ultimately show ?thesis by (simp add: alloc_view_def fun_eq_iff)
qed

text \<open>Storing a permission or a channel with other timers.\<close>

lemma touch_perm:
  assumes "alloc_inv a" "perm_at a q = Some p" "perm_key p' = perm_key p" "ti_allocated p'"
  shows "alloc_inv (perm_store (a\<lparr>io := x\<rparr>) q p')" "same_links a (perm_store (a\<lparr>io := x\<rparr>) q p')"
    "perm_at (perm_store (a\<lparr>io := x\<rparr>) q p') q = Some p'" "chan_at (perm_store (a\<lparr>io := x\<rparr>) q p') = chan_at a"
proof -
  have sl: "slot_at (addr_to_perm (a\<lparr>io := x\<rparr>)) q \<noteq> None" using perm_at_slot [OF assms(2)] by simp
  note st = perm_store_laws [OF sl, of p']
  show s: "same_links a (perm_store (a\<lparr>io := x\<rparr>) q p')" unfolding same_links_def st(1,2) using assms(2-4) by simp
  show "perm_at (perm_store (a\<lparr>io := x\<rparr>) q p') q = Some p'" unfolding st(1) using assms(4) by simp
  show "chan_at (perm_store (a\<lparr>io := x\<rparr>) q p') = chan_at a" unfolding st(2) by simp
  have "alloc_shape (perm_store (a\<lparr>io := x\<rparr>) q p')" using st(3) assms(1,4) by (simp add: alloc_inv_def)
  then show "alloc_inv (perm_store (a\<lparr>io := x\<rparr>) q p')" using same_links_ok [OF s] assms(1) by (simp add: alloc_inv_def)
qed

lemma touch_chan:
  assumes "alloc_inv a" "chan_at a r = Some c" "chan_key c' = chan_key c" "ch_allocated c'"
  shows "alloc_inv (ch_store (a\<lparr>io := x\<rparr>) r c')" "same_links a (ch_store (a\<lparr>io := x\<rparr>) r c')"
    "chan_at (ch_store (a\<lparr>io := x\<rparr>) r c') r = Some c'"
proof -
  have sl: "slot_at (chns (a\<lparr>io := x\<rparr>)) r \<noteq> None" using chan_at_slot [OF assms(2)] by simp
  note st = ch_store_laws [OF sl, of c']
  show s: "same_links a (ch_store (a\<lparr>io := x\<rparr>) r c')" unfolding same_links_def st(1,2) using assms(2-4) by simp
  show "chan_at (ch_store (a\<lparr>io := x\<rparr>) r c') r = Some c'" unfolding st(1) using assms(4) by simp
  have "alloc_shape (ch_store (a\<lparr>io := x\<rparr>) r c')" using st(3) assms(1,4) by (simp add: alloc_inv_def)
  then show "alloc_inv (ch_store (a\<lparr>io := x\<rparr>) r c')" using same_links_ok [OF s] assms(1) by (simp add: alloc_inv_def)
qed

lemma perm_at_used: "perm_at a q = Some p \<Longrightarrow> ti_allocated p"
  by (auto simp: perm_at_def dest: live_at_SomeD)

lemma chan_at_used: "chan_at a r = Some c \<Longrightarrow> ch_allocated c"
  by (auto simp: chan_at_def dest: live_at_SomeD)

section \<open>Lifetimes\<close>

text \<open>The parts of a session that the handlers of permissions and channels do not touch.\<close>

definition session_rest :: "ts_ur_super_session \<Rightarrow> ts_ur_super_session" where
  "session_rest ss = ss\<lparr>alloc := init_allocation, timers_set := 0\<rparr>"

definition relays :: "allocation \<Rightarrow> bool \<times> relay_endpoint_session list \<times> bool list" where
  "relays a = (is_valid a, relay_sessions a, relay_sessions_failure a)"

lemma relays_store [simp]:
  "relays (perm_store a q p) = relays a" "relays (ch_store a r c) = relays a" "relays (a\<lparr>io := x\<rparr>) = relays a"
  by (simp_all add: relays_def perm_store_def ch_store_def)

definition kept :: "ts_ur_super_session \<Rightarrow> ts_ur_super_session \<Rightarrow> bool" where
  "kept ss ss' \<longleftrightarrow> alloc_inv (alloc ss') \<and> same_links (alloc ss) (alloc ss') \<and> session_rest ss' = session_rest ss \<and>
     relays (alloc ss') = relays (alloc ss)"

lemma kept_trans: "kept a b \<Longrightarrow> kept b c \<Longrightarrow> kept a c"
  unfolding kept_def using same_links_trans by metis

lemma kept_view: "alloc_inv (alloc ss) \<Longrightarrow> kept ss ss' \<Longrightarrow> alloc_view (alloc ss') = alloc_view (alloc ss)"
  unfolding kept_def using same_links_view by blast

lemma update_perm_lifetime_kept:
  assumes "alloc_inv (alloc ss)" "perm_at (alloc ss) q = Some p"
  obtains ss' where "update_turn_permission_lifetime tm server ss q d = (0, ss')" "kept ss ss'" "chan_at (alloc ss') = chan_at (alloc ss)"
proof -
  let ?a = "alloc ss"
  define d' where "d' = (if d = 0 then permission_lifetime server else d)"
  define p1 where "p1 = p\<lparr>ti_expiration_time := srv_ctime server + d', ti_lifetime_ev := set_ioa_timer tm ss d'\<rparr>"
  define p2 where "p2 = (if srv_verbose server then p1\<lparr>ti_verbose := True, ti_session_id := ss_id ss\<rparr> else p1)"
  define a2 where "a2 = perm_store (?a\<lparr>io := io ?a @ IOA_EVENT_DEL (ti_lifetime_ev p)\<rparr>) q p2"
  define ss' where "ss' = ss\<lparr>alloc := a2, timers_set := timers_set ss + 1\<rparr>"
  have k: "perm_key p2 = perm_key p" "ti_allocated p2" using perm_at_used [OF assms(2)] by (simp_all add: p2_def p1_def perm_key_def)
  note t = touch_perm [OF assms k, of "io ?a @ IOA_EVENT_DEL (ti_lifetime_ev p)", folded a2_def]
  have "update_turn_permission_lifetime tm server ss q d = (0, ss')"
    using perm_at_used [OF assms(2)]
    by (simp add: update_turn_permission_lifetime_def perm_load_at [OF assms(2)] Let_def ss'_def a2_def p2_def p1_def d'_def)
  moreover have "kept ss ss'" using t(1,2) by (simp add: kept_def ss'_def session_rest_def a2_def)
  ultimately show ?thesis using that t(4) by (simp add: ss'_def)
qed

lemma update_chan_lifetime_kept:
  assumes "alloc_inv (alloc ss)" "chan_at (alloc ss) r = Some c"
  obtains ss' where "update_channel_lifetime tm server ss r = (0, ss')" "kept ss ss'"
proof -
  have L: "links_ok (perm_at (alloc ss)) (chan_at (alloc ss))" using assms(1) by (simp add: alloc_inv_def)
  obtain q p where q: "perm_at (alloc ss) q = Some p" "ch_owner c = Some q"
    using links_okD(5) [OF L assms(2)] by (auto simp: linked_def)
  obtain s1 where s1: "update_turn_permission_lifetime tm server ss q (channel_lifetime server) = (0, s1)" "kept ss s1"
    "chan_at (alloc s1) = chan_at (alloc ss)" by (rule update_perm_lifetime_kept [OF assms(1) q(1)])
  have c1: "chan_at (alloc s1) r = Some c" "alloc_inv (alloc s1)" using s1(2,3) assms(2) by (simp_all add: kept_def)
  let ?a = "alloc s1"
  define d where "d = c\<lparr>ch_expiration_time := srv_ctime server + channel_lifetime server, ch_lifetime_ev := set_ioa_timer tm s1 (channel_lifetime server)\<rparr>"
  define a2 where "a2 = ch_store (?a\<lparr>io := io ?a @ IOA_EVENT_DEL (ch_lifetime_ev c)\<rparr>) r d"
  define s2 where "s2 = s1\<lparr>alloc := a2, timers_set := timers_set s1 + 1\<rparr>"
  have k: "chan_key d = chan_key c" "ch_allocated d" using chan_at_used [OF assms(2)] by (simp_all add: d_def chan_key_def)
  note t = touch_chan [OF c1(2,1) k, of "io ?a @ IOA_EVENT_DEL (ch_lifetime_ev c)", folded a2_def]
  have "update_channel_lifetime tm server ss r = (0, s2)"
    using perm_at_used [OF q(1)]
    by (simp add: update_channel_lifetime_def ch_load_at [OF assms(2)] q(2) perm_load_at [OF q(1)] s1(1) ch_load_at [OF c1(1)] Let_def
        s2_def a2_def d_def)
  moreover have "kept s1 s2" using t(1,2) by (simp add: kept_def s2_def session_rest_def a2_def)
  ultimately show ?thesis using that kept_trans [OF s1(2)] by blast
qed

section \<open>The peer check\<close>

lemma addr_less_eq_cong:
  assumes "addr_eq_no_port (Some x) (Some y)"
  shows "addr_less_eq p (Some x) = addr_less_eq p (Some y)" "addr_less_eq (Some x) p = addr_less_eq (Some y) p"
  using assms by (auto simp: addr_eq_no_port_Some ip_addr_def addr_less_eq_def AF_INET_def AF_INET6_def split: option.splits)

lemma in_range_cong:
  "addr_eq_no_port (Some x) (Some y) \<Longrightarrow> ioa_addr_in_range r (Some x) = ioa_addr_in_range r (Some y)"
  by (simp add: ioa_addr_in_range_def addr_less_eq_cong [of x y] split: option.splits)

lemma in_ranges_cong:
  "addr_eq_no_port (Some x) (Some y) \<Longrightarrow> in_ranges realm x rs = in_ranges realm y rs"
  by (induction rs) (simp_all add: in_range_cong [of x y])

lemma good_peer_cong:
  assumes "addr_eq_no_port (Some x) (Some y)"
  shows "good_peer_addr server realm x = good_peer_addr server realm y"
proof -
  have "ioa_addr_is_multicast (Some x) = ioa_addr_is_multicast (Some y)" "ioa_addr_is_loopback (Some x) = ioa_addr_is_loopback (Some y)"
    using assms by (auto simp: addr_eq_no_port_Some ip_addr_def ioa_addr_is_multicast_def ioa_addr_is_loopback_def AF_INET_def AF_INET6_def)
  then show ?thesis
    by (simp add: good_peer_addr_def listed_def in_ranges_cong [OF assms] split: option.splits)
qed

lemma in_ranges_iff:
  "in_ranges realm x rs \<longleftrightarrow> (\<exists>r \<in> set rs. CHECK_REALM (ir_realm r) realm \<and> ioa_addr_in_range (Some (ir_enc r)) (Some x))"
  by (induction rs) auto

section \<open>Reading a request\<close>

lemma list_while_inv:
  assumes "I s" "\<And>p s. p \<in> set ps \<Longrightarrow> I s \<Longrightarrow> I (snd (body p s))"
  shows "I (snd (list_while body ps s))"
  using assms
proof (induction ps arbitrary: s)
  case (Cons p ps)
  obtain b s' where b: "body p s = (b, s')" by fastforce
  then have "I s'" using Cons.prems(2) [of p s] Cons.prems(1) by simp
  then show ?case using Cons b by (cases b) simp_all
qed simp

lemma scan_attrs_inv:
  assumes "I s" "\<And>p s. p \<in> set (msg_offs buf len) \<Longrightarrow> I s \<Longrightarrow> sc_err s = 0 \<Longrightarrow> I (step p s)"
  shows "I (scan_attrs step buf len s)"
  unfolding scan_attrs_def attr_while_msg by (rule list_while_inv) (use assms in auto)

definition peer_attr :: "addr_mapping \<Rightarrow> u8 list \<Rightarrow> nat \<Rightarrow> ioa_addr \<Rightarrow> bool" where
  "peer_attr ms buf len x \<longleftrightarrow> (\<exists>p \<in> set (msg_offs buf len). attr_is (stun_attr_get_type buf (Some p)) STUN_ATTRIBUTE_XOR_PEER_ADDRESS \<and>
     x = snd (stun_attr_get_addr_str ms buf len (Some p) None))"

lemma port_ip: "1 \<le> addr_get_port (Some x) \<Longrightarrow> ip_addr x"
  by (auto simp: addr_get_port_def ip_addr_def split: if_splits)

lemma channel_number_valid: "stun_attr_get_channel_number buf attr \<noteq> 0 \<Longrightarrow> STUN_VALID_CHANNEL (stun_attr_get_channel_number buf attr)"
  by (auto simp: stun_attr_get_channel_number_def Let_def split: option.splits if_splits)

definition number_attr :: "u8 list \<Rightarrow> nat \<Rightarrow> u16 \<Rightarrow> bool" where
  "number_attr buf len n \<longleftrightarrow> (\<exists>p \<in> set (msg_offs buf len). attr_is (stun_attr_get_type buf (Some p)) STUN_ATTRIBUTE_CHANNEL_NUMBER \<and>
     n = stun_attr_get_channel_number buf (Some p))"

definition bind_scan_ok :: "addr_mapping \<Rightarrow> allocation \<Rightarrow> u8 list \<Rightarrow> nat \<Rightarrow> bind_scan \<Rightarrow> bool" where
  "bind_scan_ok ms a buf len s \<longleftrightarrow> sc_err s = 0 \<longrightarrow>
     (bs_chnum s \<noteq> 0 \<longrightarrow> STUN_VALID_CHANNEL (bs_chnum s) \<and> number_attr buf len (bs_chnum s)) \<and>
     (bs_addr_found s \<longrightarrow> peer_attr ms buf len (bs_peer_addr s) \<and> 1 \<le> addr_get_port (Some (bs_peer_addr s)) \<and>
        get_relay_socket a (uint (sa_family (bs_peer_addr s))) \<noteq> 0)"

lemma bind_scan_laws: "bind_scan_ok ms a buf len (scan_attrs (bind_attr ms a buf len) buf len bind_scan_init)"
proof (rule scan_attrs_inv)
  show "bind_scan_ok ms a buf len bind_scan_init" by (simp add: bind_scan_ok_def bind_scan_init_def)
  fix p s
  assume p: "p \<in> set (msg_offs buf len)" "bind_scan_ok ms a buf len s" "sc_err s = 0"
  let ?t = "stun_attr_get_type buf (Some p)"
  define x where "x = snd (stun_attr_get_addr_str ms buf len (Some p) None)"
  have px: "peer_attr ms buf len x" if "attr_is ?t STUN_ATTRIBUTE_XOR_PEER_ADDRESS" using that p(1) unfolding peer_attr_def x_def by blast
  consider "SKIP_ATTRIBUTES ?t" | "\<not> SKIP_ATTRIBUTES ?t" "attr_is ?t STUN_ATTRIBUTE_CHANNEL_NUMBER"
    | "\<not> SKIP_ATTRIBUTES ?t" "\<not> attr_is ?t STUN_ATTRIBUTE_CHANNEL_NUMBER" "attr_is ?t STUN_ATTRIBUTE_XOR_PEER_ADDRESS"
    | "\<not> SKIP_ATTRIBUTES ?t" "\<not> attr_is ?t STUN_ATTRIBUTE_CHANNEL_NUMBER" "\<not> attr_is ?t STUN_ATTRIBUTE_XOR_PEER_ADDRESS" by blast
  then show "bind_scan_ok ms a buf len (bind_attr ms a buf len p s)"
  proof cases
    case 1
    then show ?thesis using p(2) by (simp add: bind_attr_def)
  next
    case 2
    then have "number_attr buf len (stun_attr_get_channel_number buf (Some p))" using p(1) unfolding number_attr_def by blast
    then show ?thesis using 2 p(2,3) channel_number_valid [of buf "Some p"]
      by (simp add: bind_attr_def bind_scan_ok_def scan_error_def Let_def)
  next
    case 3
    then show ?thesis using p(2,3) px
      by (simp add: bind_attr_def bind_scan_ok_def scan_error_def Let_def x_def [symmetric])
  next
    case 4
    then show ?thesis using p(2,3) by (simp add: bind_attr_def bind_scan_ok_def unknown_attr_def Let_def)
  qed
qed

section \<open>ChannelBind\<close>

lemma relays_add [simp]: "relays (snd (allocation_add_permission a x)) = relays a"
  by (simp add: allocation_add_permission_def relays_def split: prod.splits)

lemma relays_new_ch [simp]: "relays (snd (allocation_get_new_ch_info a n x)) = relays a"
proof -
  obtain q a1 where q: "(case get_from_turn_permission_hashtable (addr_to_perm a) x of Some q \<Rightarrow> (q, a) | None \<Rightarrow> allocation_add_permission a x) = (q, a1)"
    by fastforce
  then have "relays a1 = relays a" by (auto split: option.splits dest: arg_cong [of _ _ "\<lambda>z. relays (snd z)"])
  then show ?thesis by (simp add: allocation_get_new_ch_info_def q relays_def Let_def perm_store_def ch_store_def split: prod.splits)
qed

definition bound_to :: "allocation \<Rightarrow> slot_ref \<Rightarrow> u16 \<Rightarrow> ioa_addr \<Rightarrow> bool" where
  "bound_to a r n x \<longleftrightarrow> (\<exists>c. chan_at a r = Some c \<and> ch_chnum c = n \<and> addr_eq (Some (ch_peer_addr c)) (Some x))"

text \<open>An existing channel of the number, for this peer, is taken; a new one is bound only to a peer that passes the check.\<close>

lemma session_bind_old:
  assumes inv: "alloc_inv (alloc ss)" and r: "allocation_get_ch_info (alloc ss) n = Some r"
    and b: "bind_channel server ss n x = (res, ss')"
  shows "ss' = ss" "res = Inr r' \<Longrightarrow> bound_to (alloc ss) r' n x"
proof -
  obtain c where c: "chan_at (alloc ss) r = Some c" "ch_chnum c = n" using get_ch_info_iff [OF inv] r by blast
  show "ss' = ss" using b by (auto simp: bind_channel_def r Let_def split: if_splits option.splits)
  show "bound_to (alloc ss) r' n x" if "res = Inr r'"
    using b that c addr_eq_sym unfolding bound_to_def
    by (auto simp: bind_channel_def r Let_def ch_load_at [OF c(1)] split: if_splits option.splits)
qed

lemma session_bind_new:
  assumes inv: "alloc_inv (alloc ss)" and x: "ip_addr x" "addr_get_port (Some x) \<noteq> 0" and n: "STUN_VALID_CHANNEL n"
    and no: "allocation_get_ch_info (alloc ss) n = None"
    and b: "bind_channel server ss n x = (Inr r, ss')"
  shows "alloc_inv (alloc ss')" "session_rest ss' = session_rest ss" "relays (alloc ss') = relays (alloc ss)"
    "bound_to (alloc ss') r n x" "good_peer_addr server (realm_name ss) x"
    "alloc_view (alloc ss') = spec_step (Channel_bind n x) (alloc_view (alloc ss))"
proof -
  have np: "allocation_get_ch_info_by_peer_addr (alloc ss) x = None" and g: "good_peer_addr server (realm_name ss) x"
    using b no by (auto simp: bind_channel_def Let_def split: option.splits if_splits)
  obtain r0 a' q where a': "allocation_get_new_ch_info (alloc ss) n x = (r0, a')" "alloc_inv a'"
    "chan_at a' = (chan_at (alloc ss))(r0 \<mapsto> bound_channel n x q)"
    by (rule new_ch_info_laws [OF inv x n no np], rule that)
  have ch: "chan_at a' r0 = Some (bound_channel n x q)" using a'(3) by simp
  have bc: "ch_chnum (bound_channel n x q) = n" "ch_peer_addr (bound_channel n x q) = x" by (simp_all add: bound_channel_def)
  have e: "r = r0" "ss' = ss\<lparr>alloc := a'\<rparr>" using b no np g a'(1) by (auto simp: bind_channel_def Let_def split: if_splits)
  show "alloc_inv (alloc ss')" "session_rest ss' = session_rest ss" using a'(2) by (simp_all add: e session_rest_def)
  show "relays (alloc ss') = relays (alloc ss)" using relays_new_ch [of "alloc ss" n x] by (simp add: e a'(1))
  show "bound_to (alloc ss') r n x" using ch bc x(1) unfolding bound_to_def by (simp add: e)
  show "good_peer_addr server (realm_name ss) x" by (rule g)
  have "alloc_step (Channel_bind n x) (alloc ss) = a'" using no np a'(1) by simp
  then show "alloc_view (alloc ss') = spec_step (Channel_bind n x) (alloc_view (alloc ss))"
    using step_bind(2) [OF inv x n] by (simp add: e del: alloc_step.simps)
qed

lemma session_bind_fail:
  assumes inv: "alloc_inv (alloc ss)" and x: "ip_addr x" "addr_get_port (Some x) \<noteq> 0" and n: "STUN_VALID_CHANNEL n"
    and b: "bind_channel server ss n x = (Inl e, ss')"
  shows "ss' = ss"
proof (cases "allocation_get_ch_info (alloc ss) n")
  case None
  show ?thesis
  proof (cases "allocation_get_ch_info_by_peer_addr (alloc ss) x = None \<and> good_peer_addr server (realm_name ss) x")
    case True
    obtain r0 a' q where a': "allocation_get_new_ch_info (alloc ss) n x = (r0, a')"
      "chan_at a' = (chan_at (alloc ss))(r0 \<mapsto> bound_channel n x q)"
      using True by (blast intro: new_ch_info_laws [OF inv x n None])
    have "chan_at a' r0 = Some (bound_channel n x q)" using a'(2) by simp
    then have "ch_owner (ch_load a' r0) = Some q" by (simp add: ch_load_at bound_channel_def)
    then show ?thesis using b None True a'(1) by (simp add: bind_channel_def Let_def)
  qed (use b None in \<open>auto simp: bind_channel_def Let_def split: option.splits if_splits\<close>)
qed (use session_bind_old [OF inv _ b] in blast)

lemma bound_to_view:
  assumes "alloc_inv a" "bound_to a r n x"
  shows "permitted a x" "\<exists>y. channel_peer a n = Some y \<and> addr_eq (Some y) (Some x)"
proof -
  obtain c where c: "chan_at a r = Some c" "ch_chnum c = n" "addr_eq (Some (ch_peer_addr c)) (Some x)"
    using assms(2) by (auto simp: bound_to_def)
  obtain q p where p: "perm_at a q = Some p" "addr_eq_no_port (Some (ti_addr p)) (Some (ch_peer_addr c))"
    using links_okD(5) [where P = "perm_at a" and C = "chan_at a", OF _ c(1)] assms(1) unfolding alloc_inv_def linked_def by blast
  show "permitted a x"
    unfolding permitted_iff [OF assms(1)] using p addr_eq_no_port_trans [OF p(2) addr_eq_no_portI [OF c(3)]] by blast
  show "\<exists>y. channel_peer a n = Some y \<and> addr_eq (Some y) (Some x)" using channel_peer_iff [OF assms(1)] c by blast
qed

lemma bind_kernel_kept:
  assumes "alloc_inv (alloc ss)" "chan_at (alloc ss) r = Some c"
  shows "kept ss (bind_kernel st x r ss)"
proof -
  define c' where "c' = c\<lparr>ch_kernel_channel := CREATE_TURN_CHANNEL_KERNEL\<rparr>"
  have k: "chan_key c' = chan_key c" "ch_allocated c'" using chan_at_used [OF assms(2)] by (simp_all add: c'_def chan_key_def)
  note t = touch_chan [OF assms k, of "io (alloc ss)"]
  show ?thesis using t(1,2) assms(1)
    by (simp add: bind_kernel_def kept_def ch_load_at [OF assms(2)] c'_def [symmetric] session_rest_def same_links_refl)
qed

lemma kept_chan: "kept ss ss' \<Longrightarrow> bound_to (alloc ss) r n x \<Longrightarrow> bound_to (alloc ss') r n x"
  unfolding kept_def bound_to_def using same_chan [OF same_links_sym] by metis

lemma kept_refl: "alloc_inv (alloc ss) \<Longrightarrow> kept ss ss"
  by (simp add: kept_def same_links_refl)

text \<open>What a request that binds a channel does, from a channel that was found or made.\<close>

lemma bind_finish:
  assumes inv: "alloc_inv (alloc ss)" and b: "bound_to (alloc ss) r n x"
  obtains s1 where "update_channel_lifetime tm server ss r = (0, s1)" "kept ss (bind_kernel st x r s1)"
    "bound_to (alloc (bind_kernel st x r s1)) r n x"
proof -
  obtain c where c: "chan_at (alloc ss) r = Some c" using b by (auto simp: bound_to_def)
  obtain s1 where s1: "update_channel_lifetime tm server ss r = (0, s1)" "kept ss s1" by (rule update_chan_lifetime_kept [OF inv c])
  have i1: "alloc_inv (alloc s1)" using s1(2) by (simp add: kept_def)
  obtain c1 where c1: "chan_at (alloc s1) r = Some c1" using kept_chan [OF s1(2) b] by (auto simp: bound_to_def)
  note k = kept_trans [OF s1(2) bind_kernel_kept [OF i1 c1, of st x]]
  show ?thesis by (rule that [OF s1(1) k kept_chan [OF k b]])
qed

text \<open>A bind for a number that is in use with the same peer leaves the abstract allocation as it is.\<close>

lemma spec_bind_old: "C n \<noteq> None \<Longrightarrow> spec_step (Channel_bind n x) (P, C) = (P, C)"
  by simp

definition bind_done ::
  "addr_mapping \<Rightarrow> turn_turnserver \<Rightarrow> ts_ur_super_session \<Rightarrow> u8 list \<Rightarrow> nat \<Rightarrow> ts_ur_super_session \<Rightarrow> u16 \<Rightarrow> ioa_addr \<Rightarrow> bool" where
  "bind_done ms server ss buf len ss' n x \<longleftrightarrow> number_attr buf len n \<and> peer_attr ms buf len x \<and> STUN_VALID_CHANNEL n \<and>
     1 \<le> addr_get_port (Some x) \<and> get_relay_socket (alloc ss) (uint (sa_family x)) \<noteq> 0 \<and>
     (\<exists>y. channel_peer (alloc ss') n = Some y \<and> addr_eq (Some y) (Some x)) \<and> permitted (alloc ss') x \<and>
     (channel_peer (alloc ss) n = None \<longrightarrow> good_peer_addr server (realm_name ss) x) \<and>
     alloc_view (alloc ss') = spec_step (Channel_bind n x) (alloc_view (alloc ss))"

text \<open>What the loop over the attributes found in a request that has to be accepted.\<close>

definition bind_request :: "addr_mapping \<Rightarrow> ts_ur_super_session \<Rightarrow> u8 list \<Rightarrow> nat \<Rightarrow> (u16 \<times> ioa_addr) option" where
  "bind_request ms ss buf len =
     (let s = scan_attrs (bind_attr ms (alloc ss) buf len) buf len bind_scan_init in
      if \<not> is_tcp_relay ss \<and> is_valid (alloc ss) \<and> sc_unknown s = [] \<and> sc_err s = 0 \<and> bs_chnum s \<noteq> 0 \<and> bs_addr_found s \<and>
         \<not> addr_any (Some (bs_peer_addr s)) \<and> STUN_VALID_CHANNEL (bs_chnum s)
      then Some (bs_chnum s, bs_peer_addr s) else None)"

lemma handle_bind_laws:
  assumes inv: "alloc_inv (alloc ss)" and h: "handle_turn_channel_bind tm st ms rnd server ss tid buf len nbh = (r, ss')"
  shows "alloc_inv (alloc ss')" "session_rest ss' = session_rest ss" "relays (alloc ss') = relays (alloc ss)"
    "response r = None \<Longrightarrow> ss' = ss" 
    "response r \<noteq> None \<Longrightarrow> err_code r = 0 \<and> (\<exists>n x. bind_request ms ss buf len = Some (n, x) \<and> bind_done ms server ss buf len ss' n x)"
    "response r \<noteq> None \<longleftrightarrow> (\<exists>n x. bind_request ms ss buf len = Some (n, x) \<and> (\<exists>chn. fst (bind_channel server ss n x) = Inr chn))"
proof -
  define s where "s = scan_attrs (bind_attr ms (alloc ss) buf len) buf len bind_scan_init"
  note h' = h [unfolded handle_turn_channel_bind_def get_allocation_ss_def is_allocation_valid_def Let_def, folded s_def]
  let ?n = "bs_chnum s" and ?x = "bs_peer_addr s"
  have ok: "bind_scan_ok ms (alloc ss) buf len s" unfolding s_def by (rule bind_scan_laws)
  define acc where "acc \<longleftrightarrow> (\<exists>n x. bind_request ms ss buf len = Some (n, x) \<and> (\<exists>chn. fst (bind_channel server ss n x) = Inr chn))"
  have main: "(ss' = ss \<and> response r = None \<and> \<not> acc) \<or>
      (err_code r = 0 \<and> response r \<noteq> None \<and> acc \<and> bind_request ms ss buf len = Some (?n, ?x) \<and> alloc_inv (alloc ss') \<and> session_rest ss' = session_rest ss \<and> relays (alloc ss') = relays (alloc ss) \<and>
        bind_done ms server ss buf len ss' ?n ?x)"
  proof (cases "\<not> is_tcp_relay ss \<and> is_valid (alloc ss) \<and> sc_unknown s = [] \<and> sc_err s = 0 \<and> ?n \<noteq> 0 \<and> bs_addr_found s \<and>
      \<not> addr_any (Some ?x) \<and> STUN_VALID_CHANNEL ?n")
    case False
    then have "bind_request ms ss buf len = None" unfolding bind_request_def Let_def s_def [symmetric] by (rule if_not_P)
    moreover have "ss' = ss \<and> response r = None"
      using False h' by (auto simp: reply_of_def reply_error_def no_reply_def split: if_splits)
    ultimately show ?thesis by (simp add: acc_def)
  next
    case True
    then have rq: "bind_request ms ss buf len = Some (?n, ?x)" unfolding bind_request_def Let_def s_def [symmetric] by (rule if_P)
    have x: "number_attr buf len ?n" "peer_attr ms buf len ?x" "1 \<le> addr_get_port (Some ?x)"
      "get_relay_socket (alloc ss) (uint (sa_family ?x)) \<noteq> 0" "STUN_VALID_CHANNEL ?n"
      using ok True by (simp_all add: bind_scan_ok_def)
    have ip: "ip_addr ?x" "addr_get_port (Some ?x) \<noteq> 0" using x(3) port_ip by simp_all
    obtain res s1 where b: "bind_channel server ss ?n ?x = (res, s1)" by fastforce
    show ?thesis
    proof (cases res)
      case (Inl e)
      then have "s1 = ss" using session_bind_fail [OF inv ip x(5)] b by blast
      then have "ss' = ss \<and> response r = None"
        using h' True b Inl by (auto simp: reply_of_def reply_error_def split: prod.splits)
      then show ?thesis using rq b Inl by (simp add: acc_def)
    next
      case (Inr chn)
      have s1: "alloc_inv (alloc s1) \<and> session_rest s1 = session_rest ss \<and> relays (alloc s1) = relays (alloc ss) \<and> bound_to (alloc s1) chn ?n ?x \<and>
          (channel_peer (alloc ss) ?n = None \<longrightarrow> good_peer_addr server (realm_name ss) ?x) \<and>
          alloc_view (alloc s1) = spec_step (Channel_bind ?n ?x) (alloc_view (alloc ss))"
      proof (cases "allocation_get_ch_info (alloc ss) ?n")
        case None
        then show ?thesis using session_bind_new [OF inv ip x(5) None] b Inr by blast
      next
        case (Some r0)
        note o = session_bind_old [OF inv Some b]
        have "channel_peer (alloc ss) ?n \<noteq> None" using Some by (simp add: channel_peer_None)
        moreover from this have "spec_step (Channel_bind ?n ?x) (alloc_view (alloc ss)) = alloc_view (alloc ss)"
          unfolding alloc_view_def by (rule spec_bind_old)
        moreover have "bound_to (alloc ss) chn ?n ?x" by (rule o(2)) (rule Inr)
        ultimately show ?thesis unfolding o(1) using inv by auto
      qed
      obtain s2 where s2: "update_channel_lifetime tm server s1 chn = (0, s2)" "kept s1 (bind_kernel st ?x chn s2)"
        "bound_to (alloc (bind_kernel st ?x chn s2)) chn ?n ?x"
        using bind_finish [of s1 chn ?n ?x tm server st] s1 by blast
      have e: "ss' = bind_kernel st ?x chn s2" "err_code r = 0" "response r \<noteq> None"
        using h' True b Inr s2(1) by (auto simp: reply_of_def)
      have i2: "alloc_inv (alloc ss')" "session_rest ss' = session_rest s1" "relays (alloc ss') = relays (alloc s1)"
        using s2(2) by (simp_all add: kept_def e)
      have "alloc_view (alloc ss') = alloc_view (alloc s1)" using kept_view [OF conjunct1 [OF s1] s2(2)] by (simp add: e)
      then have "bind_done ms server ss buf len ss' ?n ?x"
        unfolding bind_done_def using x s1 bound_to_view [OF i2(1), of chn ?n ?x] s2(3) e(1) by auto
      moreover have acc unfolding acc_def using rq b Inr by (intro exI [of _ ?n] exI [of _ ?x]) simp
      ultimately show ?thesis using i2 s1 e(2,3) rq by simp
    qed
  qed
  show "alloc_inv (alloc ss')" "session_rest ss' = session_rest ss" "relays (alloc ss') = relays (alloc ss)" using main inv by auto
  show "response r = None \<Longrightarrow> ss' = ss" using main by blast
  show "err_code r = 0 \<and> (\<exists>n x. bind_request ms ss buf len = Some (n, x) \<and> bind_done ms server ss buf len ss' n x)"
    if "response r \<noteq> None"
    using main that by (intro conjI exI [of _ ?n] exI [of _ ?x]) simp_all
  show "response r \<noteq> None \<longleftrightarrow> (\<exists>n x. bind_request ms ss buf len = Some (n, x) \<and> (\<exists>chn. fst (bind_channel server ss n x) = Inr chn))"
    unfolding acc_def [symmetric] using main by (elim disjE conjE) simp_all
qed

section \<open>CreatePermission\<close>

lemma turn_channel_live:
  assumes "alloc_inv a" "perm_at a q = Some p" "get_turn_channel a q x = Some r"
  obtains c where "chan_at a r = Some c"
proof -
  have L: "links_ok (perm_at a) (chan_at a)" and sh: "alloc_shape a" using assms(1) by (simp_all add: alloc_inv_def)
  obtain t where t: "lm_map_get (ti_chns p) (of_int (addr_get_port (Some x))) = Some t" "r = ptr_ch t"
    using assms(3) by (auto simp: get_turn_channel_def perm_load_at [OF assms(2)] split: option.splits if_splits)
  obtain r' c where c: "chan_at a r' = Some c" "t = ch_ptr r'" using links_okD(6) [OF L assms(2) t(1)] by blast
  then have "r = r'" using t(2) ptr_ch_ptr(1) alloc_inv_ref [OF sh] by simp
  then show ?thesis using that c(1) by blast
qed

text \<open>The permission of an address, found or added.\<close>

lemma permission_found:
  assumes inv: "alloc_inv (alloc ss)"
  obtains q p s1 where "(case allocation_get_permission (alloc ss) x of
       Some tinfo \<Rightarrow> (tinfo, ss)
     | None \<Rightarrow> (case allocation_add_permission (alloc ss) x of (tinfo, a) \<Rightarrow> (tinfo, ss\<lparr>alloc := a\<rparr>))) = (q, s1)"
    "alloc s1 = alloc_step (Create_permission x) (alloc ss)" "perm_at (alloc s1) q = Some p" "session_rest s1 = session_rest ss"
    "relays (alloc s1) = relays (alloc ss)"
proof (cases "allocation_get_permission (alloc ss) x")
  case None
  obtain q a' where ad: "allocation_add_permission (alloc ss) x = (q, a')" by fastforce
  note l = add_permission_laws [OF inv None ad]
  have "relays a' = relays (alloc ss)" using relays_add [of "alloc ss" x] unfolding ad by simp
  then show ?thesis using that [of q "ss\<lparr>alloc := a'\<rparr>"] None ad l(2) by (simp add: session_rest_def)
next
  case (Some q)
  then obtain p where "perm_at (alloc ss) q = Some p" using get_permission_iff [OF inv] by blast
  then show ?thesis using that [of q ss] Some by simp
qed

definition perm_done :: "ts_ur_super_session \<Rightarrow> ts_ur_super_session \<Rightarrow> (ioa_addr \<Rightarrow> bool) \<Rightarrow> bool" where
  "perm_done ss ss' X \<longleftrightarrow> alloc_inv (alloc ss') \<and> session_rest ss' = session_rest ss \<and> relays (alloc ss') = relays (alloc ss) \<and>
     (\<forall>y. permitted (alloc ss') y \<longleftrightarrow> permitted (alloc ss) y \<or> (\<exists>x. X x \<and> addr_eq_no_port (Some x) (Some y))) \<and>
     channel_peer (alloc ss') = channel_peer (alloc ss)"

lemma update_permission_laws:
  assumes inv: "alloc_inv (alloc ss)"
  obtains ss' where "update_permission tm server ss x = (0, ss')" "perm_done ss ss' (\<lambda>z. z = x)"
proof -
  obtain q p s1 where q: "(case allocation_get_permission (alloc ss) x of
       Some tinfo \<Rightarrow> (tinfo, ss)
     | None \<Rightarrow> (case allocation_add_permission (alloc ss) x of (tinfo, a) \<Rightarrow> (tinfo, ss\<lparr>alloc := a\<rparr>))) = (q, s1)"
    "alloc s1 = alloc_step (Create_permission x) (alloc ss)" "perm_at (alloc s1) q = Some p" "session_rest s1 = session_rest ss"
    "relays (alloc s1) = relays (alloc ss)"
    by (rule permission_found [OF inv, of x], rule that)
  have i1: "alloc_inv (alloc s1)" "alloc_view (alloc s1) = spec_step (Create_permission x) (alloc_view (alloc ss))"
    unfolding q(2) by (rule step_create [OF inv])+
  obtain s2 where s2: "update_turn_permission_lifetime tm server s1 q 0 = (0, s2)" "kept s1 s2"
    by (rule update_perm_lifetime_kept [OF i1(1) q(3)])
  have i2: "alloc_inv (alloc s2)" using s2(2) by (simp add: kept_def)
  obtain p2 where p2: "perm_at (alloc s2) q = Some p2"
    using s2(2) same_perm [OF same_links_sym _ ] q(3) unfolding kept_def by metis
  obtain s3 where s3: "update_permission tm server ss x = (0, s3)" "kept s1 s3"
  proof (cases "get_turn_channel (alloc s2) q x")
    case None
    then show ?thesis using that [of s2] s2 q(1) by (simp add: update_permission_def)
  next
    case (Some r)
    obtain c where c: "chan_at (alloc s2) r = Some c" by (rule turn_channel_live [OF i2 p2 Some])
    obtain s3 where "update_channel_lifetime tm server s2 r = (0, s3)" "kept s2 s3" by (rule update_chan_lifetime_kept [OF i2 c])
    then show ?thesis using that [of s3] s2 Some q(1) kept_trans by (simp add: update_permission_def)
  qed
  have v: "alloc_view (alloc s3) = spec_step (Create_permission x) (alloc_view (alloc ss))"
    using kept_view [OF i1(1) s3(2)] i1(2) by simp
  have "perm_done ss s3 (\<lambda>z. z = x)"
    unfolding perm_done_def using s3(2) q(4,5) v by (auto simp: kept_def alloc_view_def fun_eq_iff)
  then show ?thesis using that s3(1) by blast
qed

lemma perm_done_refl: "alloc_inv (alloc ss) \<Longrightarrow> perm_done ss ss (\<lambda>z. False)"
  by (simp add: perm_done_def)

lemma perm_done_trans:
  assumes "perm_done a b X" "perm_done b c Y"
  shows "perm_done a c (\<lambda>z. X z \<or> Y z)"
  unfolding perm_done_def
proof (intro conjI allI)
  fix y
  have "permitted (alloc c) y \<longleftrightarrow> permitted (alloc b) y \<or> (\<exists>x. Y x \<and> addr_eq_no_port (Some x) (Some y))"
    "permitted (alloc b) y \<longleftrightarrow> permitted (alloc a) y \<or> (\<exists>x. X x \<and> addr_eq_no_port (Some x) (Some y))"
    using assms unfolding perm_done_def by blast+
  then show "permitted (alloc c) y \<longleftrightarrow> permitted (alloc a) y \<or> (\<exists>x. (X x \<or> Y x) \<and> addr_eq_no_port (Some x) (Some y))" by blast
qed (use assms in \<open>simp_all add: perm_done_def\<close>)

definition peer_at :: "addr_mapping \<Rightarrow> u8 list \<Rightarrow> nat \<Rightarrow> nat \<Rightarrow> ioa_addr \<Rightarrow> bool" where
  "peer_at ms buf len p x \<longleftrightarrow> attr_is (stun_attr_get_type buf (Some p)) STUN_ATTRIBUTE_XOR_PEER_ADDRESS \<and>
     x = snd (stun_attr_get_addr_str ms buf len (Some p) None)"

lemma not_skip_peer: "attr_is t STUN_ATTRIBUTE_XOR_PEER_ADDRESS \<Longrightarrow> \<not> SKIP_ATTRIBUTES t"
  by (auto simp: attr_is_def SKIP_ATTRIBUTES_def stun_consts)

text \<open>The second pass gives every peer of the request its permission.\<close>

lemma perm_update_laws:
  assumes "alloc_inv (alloc ss)"
  obtains ss' where "perm_update tm ms server buf len p (r, ss) = (False, r, ss')" "perm_done ss ss' (peer_at ms buf len p)"
proof (cases "attr_is (stun_attr_get_type buf (Some p)) STUN_ATTRIBUTE_XOR_PEER_ADDRESS")
  case False
  then have "peer_at ms buf len p = (\<lambda>z. False)" by (simp add: peer_at_def fun_eq_iff)
  moreover have "perm_update tm ms server buf len p (r, ss) = (False, r, ss)" using False by (simp add: perm_update_def Let_def)
  ultimately show ?thesis using that [of ss] perm_done_refl [OF assms] by simp
next
  case True
  let ?x = "snd (stun_attr_get_addr_str ms buf len (Some p) None)"
  obtain ss' where u: "update_permission tm server ss (addr_set_port ?x 0) = (0, ss')" "perm_done ss ss' (\<lambda>z. z = addr_set_port ?x 0)"
    by (rule update_permission_laws [OF assms])
  have "perm_update tm ms server buf len p (r, ss) = (False, r, ss')"
    using True not_skip_peer [OF True] u(1) by (simp add: perm_update_def Let_def)
  moreover have "perm_done ss ss' (peer_at ms buf len p)"
    using u(2) True by (auto simp: perm_done_def peer_at_def)
  ultimately show ?thesis using that by blast
qed

lemma perm_pass:
  assumes "alloc_inv (alloc ss)"
  shows "\<exists>ss'. list_while (perm_update tm ms server buf len) ps (r, ss) = (False, r, ss') \<and>
    perm_done ss ss' (\<lambda>x. \<exists>p \<in> set ps. peer_at ms buf len p x)"
  using assms
proof (induction ps arbitrary: ss)
  case Nil
  then show ?case using perm_done_refl by simp
next
  case (Cons p ps)
  obtain s1 where s1: "perm_update tm ms server buf len p (r, ss) = (False, r, s1)" "perm_done ss s1 (peer_at ms buf len p)"
    by (rule perm_update_laws [OF Cons.prems])
  have "alloc_inv (alloc s1)" using s1(2) by (simp add: perm_done_def)
  then obtain s2 where s2: "list_while (perm_update tm ms server buf len) ps (r, s1) = (False, r, s2)"
    "perm_done s1 s2 (\<lambda>x. \<exists>p \<in> set ps. peer_at ms buf len p x)" using Cons.IH by blast
  have "(\<lambda>x. peer_at ms buf len p x \<or> (\<exists>p \<in> set ps. peer_at ms buf len p x)) = (\<lambda>x. \<exists>q \<in> set (p # ps). peer_at ms buf len q x)" by auto
  then show ?case using perm_done_trans [OF s1(2) s2(2)] s1(1) s2(1) by simp
qed

text \<open>The first pass without an error has seen every attribute, and every peer passed.\<close>

lemma scan_err_kept: "sc_err (scan_attrs step buf len s) = 0 \<Longrightarrow> sc_err s = 0"
proof -
  have "sc_err s = 0" if "sc_err (snd (list_while (\<lambda>p s. if sc_err s = 0 \<and> length (sc_unknown s) < MAX_NUMBER_OF_UNKNOWN_ATTRS
      then (False, step p s) else (True, s)) ps s)) = 0" for ps
    using that by (cases ps) (auto split: if_splits)
  then show "sc_err (scan_attrs step buf len s) = 0 \<Longrightarrow> sc_err s = 0" unfolding scan_attrs_def attr_while_msg by blast
qed

lemma perm_scan_all:
  assumes "sc_err s' = 0" "sc_unknown s' = []" "p \<in> set ps" "peer_at ms buf len p x"
    "s' = snd (list_while (\<lambda>p s. if sc_err s = 0 \<and> length (sc_unknown s) < MAX_NUMBER_OF_UNKNOWN_ATTRS
       then (False, perm_attr ms server ss buf len p s) else (True, s)) ps s)"
  shows "get_relay_socket (alloc ss) (uint (sa_family x)) \<noteq> 0 \<and> good_peer_addr server (realm_name ss) x"
  using assms(3,5)
proof (induction ps arbitrary: s)
  case (Cons q ps)
  let ?f = "\<lambda>p s. if sc_err s = 0 \<and> length (sc_unknown s) < MAX_NUMBER_OF_UNKNOWN_ATTRS
       then (False, perm_attr ms server ss buf len p s) else (True, s)"
  have c: "sc_err s = 0 \<and> length (sc_unknown s) < MAX_NUMBER_OF_UNKNOWN_ATTRS"
  proof (rule ccontr)
    assume "\<not> ?thesis"
    then have "s' = s" "sc_err s \<noteq> 0 \<or> 128 \<le> length (sc_unknown s)" using Cons.prems(2) by (auto simp: MAX_NUMBER_OF_UNKNOWN_ATTRS_def)
    then show False using assms(1,2) by simp
  qed
  let ?s1 = "perm_attr ms server ss buf len q s"
  have s': "s' = snd (list_while ?f ps ?s1)" using Cons.prems(2) c by simp
  have "sc_err ?s1 = 0" using assms(1) unfolding s' by (cases ps) (auto split: if_splits)
  then have "p = q \<Longrightarrow> ?case"
    using assms(4) not_skip_peer by (auto simp: perm_attr_def peer_at_def Let_def scan_error_def split: if_splits)
  then show ?case using Cons.IH [OF _ s'] Cons.prems(1) by auto
qed simp

lemma peer_attr_at: "peer_attr ms buf len x \<longleftrightarrow> (\<exists>p \<in> set (msg_offs buf len). peer_at ms buf len p x)"
  by (simp add: peer_attr_def peer_at_def)

lemma perm_scan_found:
  "0 < ps_addr_found (scan_attrs (perm_attr ms server ss buf len) buf len perm_scan_init) \<Longrightarrow> \<exists>x. peer_attr ms buf len x"
proof -
  let ?I = "\<lambda>s :: perm_scan. 0 < ps_addr_found s \<longrightarrow> (\<exists>x. peer_attr ms buf len x)"
  have "?I (scan_attrs (perm_attr ms server ss buf len) buf len perm_scan_init)"
  proof (rule scan_attrs_inv)
    fix p s assume "p \<in> set (msg_offs buf len)" "?I s" "sc_err s = 0"
    then show "?I (perm_attr ms server ss buf len p s)"
      by (auto simp: perm_attr_def Let_def scan_error_def unknown_attr_def peer_attr_def)
  qed (simp add: perm_scan_init_def)
  then show "0 < ps_addr_found (scan_attrs (perm_attr ms server ss buf len) buf len perm_scan_init) \<Longrightarrow> \<exists>x. peer_attr ms buf len x" by blast
qed

definition perm_request :: "addr_mapping \<Rightarrow> turn_turnserver \<Rightarrow> ts_ur_super_session \<Rightarrow> u8 list \<Rightarrow> nat \<Rightarrow> bool" where
  "perm_request ms server ss buf len \<longleftrightarrow>
     (let s = scan_attrs (perm_attr ms server ss buf len) buf len perm_scan_init in
      is_valid (alloc ss) \<and> sc_unknown s = [] \<and> sc_err s = 0 \<and> 0 < ps_addr_found s)"

lemma handle_create_laws:
  assumes inv: "alloc_inv (alloc ss)" and h: "handle_turn_create_permission tm ms rnd server ss tid buf len nbh = (ret, r, ss')"
  shows "alloc_inv (alloc ss')" "session_rest ss' = session_rest ss" "relays (alloc ss') = relays (alloc ss)"
    "response r = None \<Longrightarrow> ss' = ss"
    "response r \<noteq> None \<Longrightarrow> ret = 0 \<and> err_code r = 0 \<and> (\<exists>x. peer_attr ms buf len x) \<and> perm_done ss ss' (peer_attr ms buf len) \<and>
       (\<forall>x. peer_attr ms buf len x \<longrightarrow>
          get_relay_socket (alloc ss) (uint (sa_family x)) \<noteq> 0 \<and> good_peer_addr server (realm_name ss) x)"
    "response r \<noteq> None \<longleftrightarrow> perm_request ms server ss buf len"
proof -
  define s where "s = scan_attrs (perm_attr ms server ss buf len) buf len perm_scan_init"
  note h' = h [unfolded handle_turn_create_permission_def get_allocation_ss_def is_allocation_valid_def Let_def, folded s_def]
  define acc where "acc \<longleftrightarrow> perm_request ms server ss buf len"
  have acc: "acc \<longleftrightarrow> is_valid (alloc ss) \<and> sc_unknown s = [] \<and> sc_err s = 0 \<and> 0 < ps_addr_found s"
    by (simp add: acc_def perm_request_def s_def Let_def)
  have main: "(ss' = ss \<and> response r = None \<and> \<not> acc) \<or>
      (ret = 0 \<and> err_code r = 0 \<and> response r \<noteq> None \<and> acc \<and> (\<exists>x. peer_attr ms buf len x) \<and> perm_done ss ss' (peer_attr ms buf len) \<and>
       (\<forall>x. peer_attr ms buf len x \<longrightarrow>
          get_relay_socket (alloc ss) (uint (sa_family x)) \<noteq> 0 \<and> good_peer_addr server (realm_name ss) x))"
  proof (cases "is_valid (alloc ss) \<and> sc_unknown s = [] \<and> sc_err s = 0 \<and> 0 < ps_addr_found s")
    case False
    then have "ss' = ss \<and> response r = None"
      using h' by (auto simp: reply_of_def reply_error_def no_reply_def split: if_splits)
    then show ?thesis using False acc by blast
  next
    case True
    obtain s2 where s2: "list_while (perm_update tm ms server buf len) (msg_offs buf len) (reply_of s, ss) = (False, reply_of s, s2)"
      "perm_done ss s2 (\<lambda>x. \<exists>p \<in> set (msg_offs buf len). peer_at ms buf len p x)"
      using perm_pass [OF inv] by blast
    have e: "ret = 0" "err_code r = 0" "response r \<noteq> None" "ss' = s2"
      using h' True s2(1) by (auto simp: attr_while_msg reply_of_def split: if_splits)
    have "get_relay_socket (alloc ss) (uint (sa_family x)) \<noteq> 0 \<and> good_peer_addr server (realm_name ss) x" if x: "peer_attr ms buf len x" for x
    proof -
      obtain p where p: "p \<in> set (msg_offs buf len)" "peer_at ms buf len p x" using x unfolding peer_attr_at by blast
      show ?thesis
        by (rule perm_scan_all [where s' = s, OF _ _ p]) (use True in \<open>simp_all add: s_def scan_attrs_def attr_while_msg\<close>)
    qed
    moreover have "\<exists>x. peer_attr ms buf len x" by (rule perm_scan_found [of ms server ss buf len]) (use True in \<open>simp add: s_def\<close>)
    moreover have "perm_done ss ss' (peer_attr ms buf len)"
      using s2(2) unfolding e(4) peer_attr_at [abs_def] .
    ultimately show ?thesis using e(1-3) True acc by blast
  qed
  show "response r \<noteq> None \<longleftrightarrow> perm_request ms server ss buf len"
    unfolding acc_def [symmetric] using main by (elim disjE conjE) simp_all
  show "alloc_inv (alloc ss')" "session_rest ss' = session_rest ss" "relays (alloc ss') = relays (alloc ss)"
    using main inv by (auto simp: perm_done_def)
  show "response r = None \<Longrightarrow> ss' = ss" using main by blast
  show "ret = 0 \<and> err_code r = 0 \<and> (\<exists>x. peer_attr ms buf len x) \<and> perm_done ss ss' (peer_attr ms buf len) \<and>
       (\<forall>x. peer_attr ms buf len x \<longrightarrow>
          get_relay_socket (alloc ss) (uint (sa_family x)) \<noteq> 0 \<and> good_peer_addr server (realm_name ss) x)" if "response r \<noteq> None"
    using main that by blast
qed

end
