(* ===== verification/Session_Exact.thy ===== *)
theory Session_Exact
  imports Session_Laws
begin

text \<open>
  Which requests the handlers of \<^verbatim>\<open>src/coturn/src/server/ns_turn_server.c\<close> accept. A ChannelBind request is accepted
  exactly when the allocation allows the pair of number and peer that it names, and a CreatePermission request exactly
  when each of its attributes is one that the handler lets pass.
\<close>

section \<open>ChannelBind\<close>

text \<open>
  A number that is bound accepts its own peer only; a number that is free accepts a peer that has no channel and that
  passes the check.
\<close>

definition bindable :: "turn_turnserver \<Rightarrow> ts_ur_super_session \<Rightarrow> u16 \<Rightarrow> ioa_addr \<Rightarrow> bool" where
  "bindable server ss n x \<longleftrightarrow>
     (case channel_peer (alloc ss) n of
        Some y \<Rightarrow> addr_eq (Some x) (Some y)
      | None \<Rightarrow> \<not> (\<exists>m y. channel_peer (alloc ss) m = Some y \<and> addr_eq (Some y) (Some x)) \<and>
          good_peer_addr server (realm_name ss) x)"

lemma addr_eq_port: "addr_eq (Some x) (Some y) \<Longrightarrow> addr_get_port (Some x) = addr_get_port (Some y)"
  by (auto simp: addr_eq_Some addr_get_port_def)

text \<open>A channel of the number and the peer passes the checks of the handler on its links.\<close>

lemma bind_old_succeeds:
  assumes inv: "alloc_inv (alloc ss)" and r: "allocation_get_ch_info (alloc ss) n = Some r"
    and y: "channel_peer (alloc ss) n = Some y" "addr_eq (Some x) (Some y)"
  shows "bind_channel server ss n x = (Inr r, ss)"
proof -
  have L: "links_ok (perm_at (alloc ss)) (chan_at (alloc ss))" using inv by (simp add: alloc_inv_def)
  obtain c where c: "chan_at (alloc ss) r = Some c" "ch_chnum c = n" using get_ch_info_iff [OF inv] r by blast
  have cy: "ch_peer_addr c = y" using y(1) r by (simp add: channel_peer_def ch_load_at [OF c(1)])
  obtain q p where p: "perm_at (alloc ss) q = Some p" "linked r c q p" using links_okD(5) [OF L c(1)] by blast
  have q: "ch_owner c = Some q" "addr_eq_no_port (Some (ti_addr p)) (Some y)" using p(2) cy by (simp_all add: linked_def)
  have e: "addr_eq_no_port (Some x) (Some (ti_addr p))"
    by (rule addr_eq_no_port_trans [OF addr_eq_no_portI [OF y(2)] addr_eq_no_port_symD [OF q(2)]])
  have "ch_port c = of_int (addr_get_port (Some y))" using links_okD(3) [OF L c(1)] cy by (simp add: chan_ok_def)
  then have "uint (ch_port c) = addr_get_port (Some x)"
    using addr_eq_port [OF y(2)] addr_get_port_range [of "Some y"] by (simp add: uint_word_of_int)
  then show ?thesis
    using y(2) e by (simp add: bind_channel_def r Let_def ch_load_at [OF c(1)] cy q(1) perm_load_at [OF p(1)])
qed

lemma bind_channel_succeeds:
  assumes inv: "alloc_inv (alloc ss)" and x: "ip_addr x" "addr_get_port (Some x) \<noteq> 0" and n: "STUN_VALID_CHANNEL n"
  shows "(\<exists>r. fst (bind_channel server ss n x) = Inr r) \<longleftrightarrow> bindable server ss n x"
proof (cases "allocation_get_ch_info (alloc ss) n")
  case None
  have nc: "channel_peer (alloc ss) n = None" using None by (simp add: channel_peer_None)
  show ?thesis
  proof (cases "allocation_get_ch_info_by_peer_addr (alloc ss) x = None \<and> good_peer_addr server (realm_name ss) x")
    case True
    obtain r0 a' q where a': "allocation_get_new_ch_info (alloc ss) n x = (r0, a')"
      "chan_at a' = (chan_at (alloc ss))(r0 \<mapsto> bound_channel n x q)"
      using True by (blast intro: new_ch_info_laws [OF inv x n None])
    have "chan_at a' r0 = Some (bound_channel n x q)" using a'(2) by simp
    then have "ch_owner (ch_load a' r0) = Some q" by (simp add: ch_load_at bound_channel_def)
    then have "fst (bind_channel server ss n x) = Inr r0" using None True a'(1) by (simp add: bind_channel_def Let_def)
    moreover have "bindable server ss n x" using True nc peer_bound_iff [OF inv x(1)] by (simp add: bindable_def)
    ultimately show ?thesis by blast
  next
    case False
    then have "\<not> (\<exists>r. fst (bind_channel server ss n x) = Inr r)"
      using None by (auto simp: bind_channel_def Let_def split: option.splits if_splits)
    moreover have "\<not> bindable server ss n x"
      using False nc peer_bound_iff [OF inv x(1)] unfolding bindable_def nc option.case(1) by blast
    ultimately show ?thesis by blast
  qed
next
  case (Some r)
  obtain y where y: "channel_peer (alloc ss) n = Some y" using Some by (simp add: channel_peer_def)
  have ly: "ch_peer_addr (ch_load (alloc ss) r) = y" using y Some by (simp add: channel_peer_def)
  show ?thesis
  proof (cases "addr_eq (Some x) (Some y)")
    case True
    then show ?thesis using bind_old_succeeds [OF inv Some y True] by (simp add: bindable_def y)
  next
    case False
    then show ?thesis by (simp add: bindable_def y bind_channel_def Some Let_def ly)
  qed
qed

lemma bind_request_Some:
  assumes "bind_request ms ss buf len = Some (n, x)"
  shows "number_attr buf len n" "peer_attr ms buf len x" "STUN_VALID_CHANNEL n" "1 \<le> addr_get_port (Some x)"
    "get_relay_socket (alloc ss) (uint (sa_family x)) \<noteq> 0"
  using assms bind_scan_laws [of ms "alloc ss" buf len]
  by (auto simp: bind_request_def bind_scan_ok_def Let_def split: if_splits)

text \<open>The answer of the handler.\<close>

lemma handle_bind_response:
  assumes inv: "alloc_inv (alloc ss)" and h: "handle_turn_channel_bind tm st ms rnd server ss tid buf len nbh = (r, ss')"
  shows "response r \<noteq> None \<longleftrightarrow> (\<exists>n x. bind_request ms ss buf len = Some (n, x) \<and> bindable server ss n x)"
proof -
  have "(\<exists>chn. fst (bind_channel server ss n x) = Inr chn) \<longleftrightarrow> bindable server ss n x"
    if "bind_request ms ss buf len = Some (n, x)" for n x
  proof -
    note q = bind_request_Some [OF that]
    have "ip_addr x" "addr_get_port (Some x) \<noteq> 0" using q(4) port_ip by simp_all
    from bind_channel_succeeds [OF inv this q(3)] show ?thesis .
  qed
  then show ?thesis unfolding handle_bind_laws(6) [OF inv h] by blast
qed

section \<open>CreatePermission\<close>

text \<open>
  An attribute that the handler lets pass: one that every handler passes over, a peer address with a relay socket of its
  family that passes the check, or one that need not be understood.
\<close>

definition perm_passes :: "addr_mapping \<Rightarrow> turn_turnserver \<Rightarrow> ts_ur_super_session \<Rightarrow> u8 list \<Rightarrow> nat \<Rightarrow> nat \<Rightarrow> bool" where
  "perm_passes ms server ss buf len p \<longleftrightarrow>
     (let t = stun_attr_get_type buf (Some p); x = snd (stun_attr_get_addr_str ms buf len (Some p) None) in
      SKIP_ATTRIBUTES t \<or>
      (if attr_is t STUN_ATTRIBUTE_XOR_PEER_ADDRESS
       then get_relay_socket (alloc ss) (uint (sa_family x)) \<noteq> 0 \<and> good_peer_addr server (realm_name ss) x
       else t < 0 \<or> 0x7FFF < t))"

definition clean_scan :: "'a attr_scan_scheme \<Rightarrow> bool" where
  "clean_scan s \<longleftrightarrow> sc_err s = 0 \<and> sc_unknown s = []"

lemma perm_attr_clean:
  assumes "clean_scan s"
  shows "clean_scan (perm_attr ms server ss buf len p s) \<longleftrightarrow> perm_passes ms server ss buf len p"
    "perm_passes ms server ss buf len p \<Longrightarrow> ps_addr_found (perm_attr ms server ss buf len p s) =
       ps_addr_found s + (if attr_is (stun_attr_get_type buf (Some p)) STUN_ATTRIBUTE_XOR_PEER_ADDRESS then 1 else 0)"
  using assms not_skip_peer [of "stun_attr_get_type buf (Some p)"]
  by (auto simp: clean_scan_def perm_attr_def perm_passes_def Let_def scan_error_def unknown_attr_def)

lemma perm_attr_unclean: "sc_err s = 0 \<Longrightarrow> \<not> clean_scan s \<Longrightarrow> \<not> clean_scan (perm_attr ms server ss buf len p s)"
  by (auto simp: clean_scan_def perm_attr_def Let_def scan_error_def unknown_attr_def)

lemma perm_scan_iff:
  fixes ps buf
  defines "f \<equiv> \<lambda>ms server ss len p s. if sc_err s = 0 \<and> length (sc_unknown s) < MAX_NUMBER_OF_UNKNOWN_ATTRS
       then (False, perm_attr ms server ss buf len p s) else (True, s)"
  assumes "clean_scan s"
  shows "clean_scan (snd (list_while (f ms server ss len) ps s)) \<longleftrightarrow> (\<forall>p \<in> set ps. perm_passes ms server ss buf len p)"
    "\<forall>p \<in> set ps. perm_passes ms server ss buf len p \<Longrightarrow> 0 < ps_addr_found (snd (list_while (f ms server ss len) ps s)) \<longleftrightarrow>
       0 < ps_addr_found s \<or> (\<exists>p \<in> set ps. attr_is (stun_attr_get_type buf (Some p)) STUN_ATTRIBUTE_XOR_PEER_ADDRESS)"
proof -
  have step: "list_while (f ms server ss len) (p # ps) s = list_while (f ms server ss len) ps (perm_attr ms server ss buf len p s)"
    if "clean_scan s" for p ps s
    using that by (simp add: f_def clean_scan_def MAX_NUMBER_OF_UNKNOWN_ATTRS_def)
  have dirty: "\<not> clean_scan (snd (list_while (f ms server ss len) ps s))" if "\<not> clean_scan s" for ps s
    by (rule list_while_inv [where I = "\<lambda>s. \<not> clean_scan s", OF that]) (simp add: f_def perm_attr_unclean)
  have "(clean_scan (snd (list_while (f ms server ss len) ps s)) \<longleftrightarrow> (\<forall>p \<in> set ps. perm_passes ms server ss buf len p)) \<and>
    ((\<forall>p \<in> set ps. perm_passes ms server ss buf len p) \<longrightarrow> (0 < ps_addr_found (snd (list_while (f ms server ss len) ps s)) \<longleftrightarrow>
       0 < ps_addr_found s \<or> (\<exists>p \<in> set ps. attr_is (stun_attr_get_type buf (Some p)) STUN_ATTRIBUTE_XOR_PEER_ADDRESS)))"
    using assms(2)
  proof (induction ps arbitrary: s)
    case (Cons p ps)
    note a = perm_attr_clean [OF Cons.prems, of ms server ss buf len p]
    show ?case
    proof (cases "perm_passes ms server ss buf len p")
      case True
      then show ?thesis using Cons.IH [of "perm_attr ms server ss buf len p s"] a step [OF Cons.prems] by auto
    next
      case False
      then show ?thesis using dirty [of "perm_attr ms server ss buf len p s" ps] a(1) step [OF Cons.prems] by auto
    qed
  qed simp
  then show "clean_scan (snd (list_while (f ms server ss len) ps s)) \<longleftrightarrow> (\<forall>p \<in> set ps. perm_passes ms server ss buf len p)"
    "\<forall>p \<in> set ps. perm_passes ms server ss buf len p \<Longrightarrow> 0 < ps_addr_found (snd (list_while (f ms server ss len) ps s)) \<longleftrightarrow>
       0 < ps_addr_found s \<or> (\<exists>p \<in> set ps. attr_is (stun_attr_get_type buf (Some p)) STUN_ATTRIBUTE_XOR_PEER_ADDRESS)" by blast+
qed

lemma perm_request_iff:
  "perm_request ms server ss buf len \<longleftrightarrow> is_valid (alloc ss) \<and> (\<exists>x. peer_attr ms buf len x) \<and>
     (\<forall>p \<in> set (msg_offs buf len). perm_passes ms server ss buf len p)"
proof -
  define s where "s = scan_attrs (perm_attr ms server ss buf len) buf len perm_scan_init"
  have i: "clean_scan perm_scan_init" "ps_addr_found perm_scan_init = 0" by (simp_all add: clean_scan_def perm_scan_init_def)
  have sw: "s = snd (list_while (\<lambda>p s. if sc_err s = 0 \<and> length (sc_unknown s) < MAX_NUMBER_OF_UNKNOWN_ATTRS
       then (False, perm_attr ms server ss buf len p s) else (True, s)) (msg_offs buf len) perm_scan_init)"
    by (simp add: s_def scan_attrs_def attr_while_msg)
  note p = perm_scan_iff [OF i(1), where ms = ms and server = server and ss = ss and len = len and buf = buf and
      ps = "msg_offs buf len", folded sw]
  have "perm_request ms server ss buf len \<longleftrightarrow> is_valid (alloc ss) \<and> clean_scan s \<and> 0 < ps_addr_found s"
    by (auto simp: perm_request_def s_def clean_scan_def Let_def)
  moreover have "(\<exists>x. peer_attr ms buf len x) \<longleftrightarrow>
      (\<exists>p \<in> set (msg_offs buf len). attr_is (stun_attr_get_type buf (Some p)) STUN_ATTRIBUTE_XOR_PEER_ADDRESS)"
    by (auto simp: peer_attr_def)
  ultimately show ?thesis using p i(2) by auto
qed

end
