(* ===== verification/Session_Safety.thy ===== *)
theory Session_Safety
  imports Session_Exact
begin

text \<open>
  What the sessions of the server guarantee: the requests that bind channels and create permissions refine the
  abstract allocation, and no sequence of requests and timeouts leads to a permission for a forbidden peer.
\<close>

section \<open>Steps of a session\<close>

text \<open>
  A session moves by a request, with any contents and at any time, or by a timer of a channel or a permission.
\<close>

inductive session_step :: "turn_turnserver \<Rightarrow> ts_ur_super_session \<Rightarrow> ts_ur_super_session \<Rightarrow> bool" for server where
  bind: "handle_turn_channel_bind tm st ms rnd (server\<lparr>srv_ctime := t\<rparr>) ss tid buf len nbh = (r, ss') \<Longrightarrow>
    session_step server ss ss'"
| create: "handle_turn_create_permission tm ms rnd (server\<lparr>srv_ctime := t\<rparr>) ss tid buf len nbh = (ret, r, ss') \<Longrightarrow>
    session_step server ss ss'"
| channel_timeout: "chan_at (alloc ss) q \<noteq> None \<Longrightarrow>
    session_step server ss (ss\<lparr>alloc := client_ss_channel_timeout_handler q (alloc ss)\<rparr>)"
| perm_timeout: "session_step server ss (ss\<lparr>alloc := client_ss_perm_timeout_handler q (alloc ss)\<rparr>)"

inductive session_reach :: "turn_turnserver \<Rightarrow> ts_ur_super_session \<Rightarrow> ts_ur_super_session \<Rightarrow> bool" for server where
  start: "session_reach server ss ss"
| step: "session_reach server ss ss1 \<Longrightarrow> session_step server ss1 ss2 \<Longrightarrow> session_reach server ss ss2"

definition session_safe :: "turn_turnserver \<Rightarrow> u8 list \<Rightarrow> ts_ur_super_session \<Rightarrow> bool" where
  "session_safe server realm ss \<longleftrightarrow> alloc_inv (alloc ss) \<and> realm_name ss = realm \<and>
     (\<forall>x. permitted (alloc ss) x \<longrightarrow> good_peer_addr server realm x)"

lemma good_peer_time [simp]: "good_peer_addr (server\<lparr>srv_ctime := t\<rparr>) = good_peer_addr server"
  by (simp add: fun_eq_iff good_peer_addr_def)

lemma session_rest_realm: "session_rest ss' = session_rest ss \<Longrightarrow> realm_name ss' = realm_name ss"
  by (drule arg_cong [of _ _ realm_name]) (simp add: session_rest_def)

lemma perm_load_None: "perm_at a q = None \<Longrightarrow> \<not> ti_allocated (perm_load a q)"
  by (auto simp: perm_at_def live_at_def perm_load_def perm_zero_def split: option.splits if_splits)

lemma perm_timeout_laws:
  assumes "alloc_inv a"
  shows "alloc_inv (client_ss_perm_timeout_handler q a)" "permitted (client_ss_perm_timeout_handler q a) x \<Longrightarrow> permitted a x"
proof -
  have "alloc_inv (client_ss_perm_timeout_handler q a) \<and> (permitted (client_ss_perm_timeout_handler q a) x \<longrightarrow> permitted a x)"
  proof (cases "perm_at a q")
    case None
    then show ?thesis using assms perm_load_None by (simp add: client_ss_perm_timeout_handler_def)
  next
    case (Some p)
    note c = permission_clean_laws [OF assms Some]
    have e: "client_ss_perm_timeout_handler q a = turn_permission_clean q a"
      using perm_at_used [OF Some] by (simp add: client_ss_perm_timeout_handler_def perm_load_at [OF Some])
    have "permitted (turn_permission_clean q a) x \<longrightarrow> permitted a x"
      unfolding permitted_iff [OF c(1)] permitted_iff [OF assms] c(2) ex_upd_None by blast
    then show ?thesis using e c(1) by simp
  qed
  then show "alloc_inv (client_ss_perm_timeout_handler q a)" "permitted (client_ss_perm_timeout_handler q a) x \<Longrightarrow> permitted a x" by blast+
qed

lemma channel_timeout_laws:
  assumes "alloc_inv a" "chan_at a r \<noteq> None"
  shows "alloc_inv (client_ss_channel_timeout_handler r a)" "permitted (client_ss_channel_timeout_handler r a) x \<longleftrightarrow> permitted a x"
proof -
  obtain c where c: "chan_at a r = Some c" using assms(2) by blast
  note d = channel_delete_laws [OF assms(1) c]
  show "alloc_inv (client_ss_channel_timeout_handler r a)" "permitted (client_ss_channel_timeout_handler r a) x \<longleftrightarrow> permitted a x"
    unfolding client_ss_channel_timeout_handler_def permitted_iff [OF d(1)] permitted_iff [OF assms(1)] d(3) by (rule d(1)) simp
qed

lemma spec_bind_permitted: "fst (spec_step (Channel_bind n x) (P, C)) y \<Longrightarrow> P y \<or> C n = None \<and> addr_eq_no_port (Some x) (Some y)"
  by (auto split: if_splits)

lemma session_safe_step:
  assumes "session_step server ss ss'" "session_safe server realm ss"
  shows "session_safe server realm ss'"
  using assms
proof (cases rule: session_step.cases)
  case (bind tm st ms rnd t tid buf len nbh r)
  have inv: "alloc_inv (alloc ss)" and g: "\<And>x. permitted (alloc ss) x \<Longrightarrow> good_peer_addr server realm x" and rl: "realm_name ss = realm"
    using assms(2) by (simp_all add: session_safe_def)
  note l = handle_bind_laws [OF inv bind]
  have "good_peer_addr server realm y" if y: "permitted (alloc ss') y" for y
  proof (cases "response r = None")
    case False
    then obtain n x where d: "bind_done ms (server\<lparr>srv_ctime := t\<rparr>) ss buf len ss' n x" using l(5) by blast
    have "fst (alloc_view (alloc ss')) y" using y by (simp add: alloc_view_def)
    then have "fst (spec_step (Channel_bind n x) (alloc_view (alloc ss))) y" using d unfolding bind_done_def by simp
    then have "permitted (alloc ss) y \<or> channel_peer (alloc ss) n = None \<and> addr_eq_no_port (Some x) (Some y)"
      unfolding alloc_view_def by (rule spec_bind_permitted)
    then show ?thesis using g d good_peer_cong rl unfolding bind_done_def good_peer_time by blast
  qed (use l(4) y g in simp)
  then show ?thesis using l(1) session_rest_realm [OF l(2)] rl by (simp add: session_safe_def)
next
  case (create tm ms rnd t tid buf len nbh ret r)
  have inv: "alloc_inv (alloc ss)" and g: "\<And>x. permitted (alloc ss) x \<Longrightarrow> good_peer_addr server realm x" and rl: "realm_name ss = realm"
    using assms(2) by (simp_all add: session_safe_def)
  note l = handle_create_laws [OF inv create]
  have "good_peer_addr server realm y" if y: "permitted (alloc ss') y" for y
  proof (cases "response r = None")
    case False
    then have d: "perm_done ss ss' (peer_attr ms buf len)"
      "\<forall>x. peer_attr ms buf len x \<longrightarrow> good_peer_addr server realm x"
      using l(5) rl by simp_all
    have "permitted (alloc ss) y \<or> (\<exists>x. peer_attr ms buf len x \<and> addr_eq_no_port (Some x) (Some y))"
      using d(1) y unfolding perm_done_def by blast
    then show ?thesis using g d(2) good_peer_cong by blast
  qed (use l(4) y g in simp)
  then show ?thesis using l(1) session_rest_realm [OF l(2)] rl by (simp add: session_safe_def)
next
  case (channel_timeout q)
  then show ?thesis using assms(2) channel_timeout_laws unfolding session_safe_def by auto
next
  case (perm_timeout q)
  then show ?thesis using assms(2) perm_timeout_laws unfolding session_safe_def by auto
qed

lemma session_safe_reach: "session_reach server ss ss' \<Longrightarrow> session_safe server realm ss \<Longrightarrow> session_safe server realm ss'"
  by (induction rule: session_reach.induct) (auto intro: session_safe_step)

lemma channels_one_to_one:
  assumes inv: "alloc_inv a" and n: "channel_peer a n = Some x"
  shows "permitted a x" "STUN_VALID_CHANNEL n" "addr_get_port (Some x) \<noteq> 0"
    "channel_peer a m = Some y \<Longrightarrow> addr_eq (Some x) (Some y) \<Longrightarrow> m = n"
proof -
  have L: "links_ok (perm_at a) (chan_at a)" using inv by (simp add: alloc_inv_def)
  obtain r c where c: "chan_at a r = Some c" "ch_chnum c = n" "ch_peer_addr c = x" using n channel_peer_iff [OF inv] by blast
  have k: "chan_ok r c" by (rule links_okD(3) [OF L c(1)])
  have ip: "ip_addr x" using k c(3) by (simp add: chan_ok_def)
  have "bound_to a r n x" using c ip by (simp add: bound_to_def)
  then show "permitted a x" using bound_to_view(1) [OF inv] by blast
  show "STUN_VALID_CHANNEL n" using k c(2) by (simp add: chan_ok_def)
  show "addr_get_port (Some x) \<noteq> 0" using k c(3) by (auto simp: chan_ok_def)
  show "m = n" if h: "channel_peer a m = Some y" "addr_eq (Some x) (Some y)"
  proof -
    obtain r' c' where c': "chan_at a r' = Some c'" "ch_chnum c' = m" "ch_peer_addr c' = y" using h(1) channel_peer_iff [OF inv] by blast
    have "allocation_get_ch_info_by_peer_addr a x = Some r" "allocation_get_ch_info_by_peer_addr a x = Some r'"
      using get_ch_info_by_peer_iff [OF inv ip] c c' ip h(2) addr_eq_sym by auto
    then show ?thesis using c c' by simp
  qed
qed

section \<open>Errors\<close>

lemma bind_channel_error: "fst (bind_channel server ss n x) = Inl (e, why) \<Longrightarrow> e \<noteq> 0"
  by (auto simp: bind_channel_def Let_def split: option.splits if_splits prod.splits)

text \<open>A ChannelBind request without a response gets an error code, unless the session has no allocation.\<close>

lemma handle_bind_error:
  assumes "handle_turn_channel_bind tm st ms rnd server ss tid buf len nbh = (r, ss')" "response r = None"
    "is_valid (alloc ss) \<or> is_tcp_relay ss"
  shows "err_code r \<noteq> 0"
proof -
  define s where "s = scan_attrs (bind_attr ms (alloc ss) buf len) buf len bind_scan_init"
  note h = assms(1) [unfolded handle_turn_channel_bind_def get_allocation_ss_def is_allocation_valid_def Let_def, folded s_def]
  show ?thesis
  proof (cases "bind_channel server ss (bs_chnum s) (bs_peer_addr s)")
    case (Pair res s1)
    then show ?thesis
      using h assms(2,3) bind_channel_error [of server ss "bs_chnum s" "bs_peer_addr s"]
      by (cases res) (auto simp: reply_of_def reply_error_def no_reply_def split: if_splits prod.splits)
  qed
qed

lemma handle_create_ret:
  assumes "handle_turn_create_permission tm ms rnd server ss tid buf len nbh = (ret, r, ss')" "response r = None"
  shows "ret = - 1" "is_valid (alloc ss) \<Longrightarrow> err_code r \<noteq> 0"
proof -
  define s where "s = scan_attrs (perm_attr ms server ss buf len) buf len perm_scan_init"
  note h = assms(1) [unfolded handle_turn_create_permission_def get_allocation_ss_def is_allocation_valid_def Let_def, folded s_def]
  show "ret = - 1" "is_valid (alloc ss) \<Longrightarrow> err_code r \<noteq> 0"
    using h assms(2) by (auto simp: reply_of_def reply_error_def no_reply_def split: if_splits prod.splits)
qed

section \<open>A session\<close>

text \<open>A server with an empty configuration and a session with an allocation that relays from an IPv4 socket.\<close>

definition demo_server :: turn_turnserver where
  "demo_server = \<lparr>srv_ctime = 1000, srv_verbose = False, channel_lifetime = 600, permission_lifetime = 300,
     allow_loopback_peers = False, no_multicast_peers = True,
     ip_whitelist = None, ip_blacklist = None, e_whitelist = None, e_blacklist = None\<rparr>"

definition demo_session :: ts_ur_super_session where
  "demo_session = \<lparr>ss_id = 1, client_socket = 5,
     alloc = init_allocation\<lparr>is_valid := True, relay_sessions := [rs_zero\<lparr>rs_s := 7\<rparr>, rs_zero]\<rparr>,
     is_tcp_relay = False, is_mobile = False, realm_name = [], timers_set = 0\<rparr>"

text \<open>A request to bind channel 0x4001 to 1.2.3.4:80, and one for a permission of 1.2.3.4.\<close>

definition demo_bind :: "u8 list" where
  "demo_bind = [0, 9, 0, 20, 0x21, 0x12, 0xA4, 0x42, 1, 2, 3, 4, 5, 6, 7, 8, 9, 10, 11, 12,
     0, 0x0C, 0, 4, 0x40, 1, 0, 0, 0, 0x12, 0, 8, 0, 1, 0x21, 0x42, 0x20, 0x10, 0xA7, 0x46]"

definition demo_perm :: "u8 list" where
  "demo_perm = [0, 8, 0, 12, 0x21, 0x12, 0xA4, 0x42, 1, 2, 3, 4, 5, 6, 7, 8, 9, 10, 11, 12,
     0, 0x12, 0, 8, 0, 1, 0x21, 0x12, 0x20, 0x10, 0xA7, 0x46]"

lemma demo_attrs:
  "msg_offs demo_bind 40 = [20, 28]" "stun_attr_get_type demo_bind (Some 20) = 0x0C" "stun_attr_get_type demo_bind (Some 28) = 0x12"
  "stun_attr_get_channel_number demo_bind (Some 20) = 0x4001"
  "stun_attr_get_addr_str [] demo_bind 40 (Some 28) None = (0, v4 0x04030201 0x5000)"
  "msg_offs demo_perm 32 = [20]" "stun_attr_get_type demo_perm (Some 20) = 0x12"
  "stun_attr_get_addr_str [] demo_perm 32 (Some 20) None = (0, v4 0x04030201 0)"
  by code_simp+

lemma demo_types: "\<not> SKIP_ATTRIBUTES 0x0C" "\<not> SKIP_ATTRIBUTES 0x12" "attr_is 0x0C STUN_ATTRIBUTE_CHANNEL_NUMBER"
  "\<not> attr_is 0x12 STUN_ATTRIBUTE_CHANNEL_NUMBER" "attr_is 0x12 STUN_ATTRIBUTE_XOR_PEER_ADDRESS"
  by (simp_all add: SKIP_ATTRIBUTES_def attr_is_def stun_consts)

lemma demo_addr: "addr_get_port (Some (v4 0x04030201 0x5000)) = 80" "\<not> addr_any (Some (v4 0x04030201 0x5000))"
  "good_peer_addr demo_server [] (v4 0x04030201 0x5000)" "good_peer_addr demo_server [] (v4 0x04030201 0)"
  "sa_family (v4 0x04030201 p) = AF_INET"
  by (code_simp, code_simp, code_simp, code_simp, simp add: v4_def)

lemma demo_state: "get_relay_socket (alloc demo_session) (uint AF_INET) = 7" "realm_name demo_session = []"
  "is_valid (alloc demo_session)" "\<not> is_tcp_relay demo_session"
  by (simp_all add: demo_session_def get_relay_socket_def ALLOC_INDEX_def AF_INET_def AF_INET6_def rs_zero_def)

lemma demo_alloc: "alloc_inv (alloc demo_session)" "\<not> permitted (alloc demo_session) x" "channel_peer (alloc demo_session) n = None"
proof -
  have e: "addr_to_perm (alloc demo_session) = addr_to_perm init_allocation" "chns (alloc demo_session) = chns init_allocation"
    by (simp_all add: demo_session_def)
  show "alloc_inv (alloc demo_session)" using alloc_inv_cong(1) [OF e] alloc_inv_init by simp
  have "permitted (alloc demo_session) = permitted init_allocation" "channel_peer (alloc demo_session) = channel_peer init_allocation"
    by (simp_all add: permitted_def channel_peer_def allocation_get_permission_def allocation_get_ch_info_def ch_load_def e fun_eq_iff)
  then show "\<not> permitted (alloc demo_session) x" "channel_peer (alloc demo_session) n = None"
    using alloc_view_init by (simp_all add: alloc_view_def fun_eq_iff)
qed

lemma demo_bindable:
  "bind_request [] demo_session demo_bind 40 = Some (0x4001, v4 0x04030201 0x5000)"
  "bindable demo_server demo_session 0x4001 (v4 0x04030201 0x5000)"
proof -
  show "bind_request [] demo_session demo_bind 40 = Some (0x4001, v4 0x04030201 0x5000)"
    by (simp add: bind_request_def scan_attrs_def attr_while_msg demo_attrs bind_attr_def demo_types demo_addr demo_state
        bind_scan_init_def MAX_NUMBER_OF_UNKNOWN_ATTRS_def Let_def STUN_VALID_CHANNEL_def)
  show "bindable demo_server demo_session 0x4001 (v4 0x04030201 0x5000)"
    by (simp add: bindable_def demo_alloc demo_state demo_addr)
qed

lemma demo_passes: "perm_passes [] demo_server demo_session demo_perm 32 20"
  by (simp add: perm_passes_def demo_attrs demo_types demo_addr demo_state)

section \<open>Properties\<close>





text \<open>\<^bold>\<open>C10\<close>: the CreatePermission handler, on every request. If the session has an allocation, the request has a peer
  address, and each of its attributes passes (a peer address must be of a relayed family and not be forbidden; an unknown
  attribute must be one that need not be understood), the handler returns 0 with a success response, and exactly the
  addresses of the peers in the request are permitted in addition, while no channel changes. Otherwise it returns -1,
  nothing changes, and an error code is set unless the session has no allocation: one bad peer refuses all.\<close>

theorem create_permission_exact:
  assumes "alloc_inv (alloc ss)" "handle_turn_create_permission tm ms rnd server ss tid buf len nbh = (ret, r, ss')"
  shows "if is_valid (alloc ss) \<and> (\<exists>x. peer_attr ms buf len x) \<and> (\<forall>p \<in> set (msg_offs buf len). perm_passes ms server ss buf len p)
    then ret = 0 \<and> response r \<noteq> None \<and> err_code r = 0 \<and> alloc_inv (alloc ss') \<and> channel_peer (alloc ss') = channel_peer (alloc ss) \<and>
      (\<forall>y. permitted (alloc ss') y \<longleftrightarrow> permitted (alloc ss) y \<or> (\<exists>x. peer_attr ms buf len x \<and> addr_eq_no_port (Some x) (Some y)))
    else ret = - 1 \<and> response r = None \<and> ss' = ss \<and> (err_code r \<noteq> 0 \<or> \<not> is_valid (alloc ss))"
proof -
  note l = handle_create_laws [OF assms]
  have a: "response r \<noteq> None \<longleftrightarrow> is_valid (alloc ss) \<and> (\<exists>x. peer_attr ms buf len x) \<and>
      (\<forall>p \<in> set (msg_offs buf len). perm_passes ms server ss buf len p)"
    unfolding l(6) perm_request_iff by (rule refl)
  show ?thesis
  proof (cases "response r = None")
    case True
    then show ?thesis using a l(4) handle_create_ret [OF assms(2)] by auto
  next
    case False
    then show ?thesis using a l(1,5) unfolding perm_done_def by auto
  qed
qed

theorem create_permission_exact_witness:
  "\<exists>r ss'. handle_turn_create_permission (\<lambda>n. 9) [] [] demo_server demo_session (replicate 12 0) demo_perm 32 (replicate 20 0) =
     (0, r, ss') \<and> permitted (alloc ss') (v4 0x04030201 80)"
proof -
  obtain ret r ss' where h: "handle_turn_create_permission (\<lambda>n. 9) [] [] demo_server demo_session (replicate 12 0) demo_perm 32
      (replicate 20 0) = (ret, r, ss')" using prod_cases3 by metis
  have x: "peer_attr [] demo_perm 32 (v4 0x04030201 0)" by (simp add: peer_attr_def demo_attrs demo_types)
  have ok: "is_valid (alloc demo_session) \<and> (\<exists>x. peer_attr [] demo_perm 32 x) \<and>
      (\<forall>p \<in> set (msg_offs demo_perm 32). perm_passes [] demo_server demo_session demo_perm 32 p)"
    using x demo_passes demo_state(3) by (auto simp: demo_attrs)
  note e = create_permission_exact [OF demo_alloc(1) h, unfolded if_P [OF ok]]
  have "addr_eq_no_port (Some (v4 0x04030201 0)) (Some (v4 0x04030201 80))" by (simp add: addr_eq_no_port_def v4_def AF_INET_def)
  then show ?thesis using h e x by blast
qed

end
