(* ===== verification/Spec2Isabelle.thy ===== *)
theory Spec2Isabelle
  imports Stun_Integrity String_Map Ip_Ports Session_Safety
begin

text \<open>
  Verification of the coturn TURN server of this repository, \<^verbatim>\<open>src/coturn\<close>.

  \<^bold>\<open>The program.\<close> A client asks the server for a relay address and sends data through it to its peers. The requests are
  STUN messages; the library in \<^verbatim>\<open>src/coturn/src/client\<close> reads and writes them. For each client the server keeps a
  session with an allocation: its relay sockets, the permissions for peer addresses, the channels that stand for peers,
  and the TCP connections to peers (\<^verbatim>\<open>src/coturn/src/server\<close>). The sessions, connections and pools are found through the
  hash maps of \<^verbatim>\<open>ns_turn_maps.c\<close>, and the relay ports come from the pools of \<^verbatim>\<open>src/coturn/src/apps/relay/turn_ports.c\<close>.
  A request is parsed attribute by attribute, checked against the configuration and the tables of the allocation, and
  answered by a message that the same library builds.

  \<^bold>\<open>Conventions\<close> (\<open>Turn_Prelude\<close>). The host is x86-64 Linux: little-endian, 64-bit \<^verbatim>\<open>unsigned long\<close>. Machine integers are
  words of their width, or natural numbers where the code keeps them in range. A buffer is the list of its bytes, and its
  length travels separately. A pointer that may be \<^verbatim>\<open>NULL\<close> is an \<open>option\<close>, or zero where it is stored in a word. State
  is passed and returned; what is released or handed to the engine is recorded in a list. The functions keep the names
  of the code. Allocating memory does not fail, and each operation runs under its mutex.

  \<^bold>\<open>Addresses.\<close> \<open>Io_Addr\<close> models \<^verbatim>\<open>client/ns_turn_ioaddr.c\<close>: the union of socket addresses, comparison, hashing, ranges,
  the classes of addresses, the textual form, and the table of public and private addresses. It shows that printing and
  parsing an address are inverse, and what the range test for IPv6 guarantees as an inequality of 128-bit numbers.
  \<open>Stun_Addr\<close> models \<^verbatim>\<open>client/ns_turn_msg_addr.c\<close> and shows that an address survives being encoded and decoded.

  \<^bold>\<open>Messages\<close> (\<^verbatim>\<open>client/ns_turn_msg.c\<close>, \<^verbatim>\<open>ns_turn_msg_defs.h\<close>). \<open>Stun_Msg\<close> has the header, the message types, channel data
  and the framing of a stream; \<open>Stun_Frame\<close> shows that the framing never exceeds the bytes that are there and cuts a
  stream exactly after the message in front, with the two cases where it does not: 16-bit sums that wrap around, and
  channel data that looks like an HTTP request. \<open>Stun_Attr\<close> has the attributes. \<open>Stun_View\<close> gives a message its abstract
  view, the list of pairs of type and value: the walk over the attributes searches this list and adding an attribute
  appends to it. \<open>Stun_Build\<close> has the constructors of requests and responses and shows, over the view, which message
  they leave. \<open>Stun_Crc\<close> has the checksum and the fingerprint: the table is the one of the bitwise generator, every
  damaged byte is noticed, and a fingerprint that was added is accepted. \<open>Stun_Auth\<close> and \<open>Stun_Integrity\<close> have the
  authentication: the check of a message accepts what the writer produced, accepts nothing else but a message with the
  right HMAC, and restores the buffer. The digests and HMACs of OpenSSL are arguments; the hypotheses on them state only
  the length of their results.

  \<^bold>\<open>Maps\<close> (\<^verbatim>\<open>server/ns_turn_maps.c\<close>, \<^verbatim>\<open>ns_turn_khash.h\<close>). \<open>Map_Spec\<close> is the contract of a map, as locales:
  \<open>fresh_map\<close>, its extension \<open>update_map\<close>, and \<open>capped_map\<close> for a map that may be full. They are interpreted on the map
  with local keys (\<open>Lm_Map\<close>), the maps from addresses (\<open>Addr_Map\<close>) and from strings (\<open>String_Map\<close>), and on the map over
  the hash table (\<open>Ur_Map\<close>); each refines a partial function under every sequence of operations. \<open>Khash\<close>, \<open>Khash_Laws\<close>
  and \<open>Khash_Resize\<close> model the hash table with its packed flags, probe loops and in-place rehash. A loop that might run
  forever is a partial function there, and the lemmas show that it ends: it needs no fuel.

  \<^bold>\<open>Relay ports\<close> (\<^verbatim>\<open>apps/relay/turn_ports.c\<close>). \<open>Turn_Ports\<close> models the queue of free ports of one address with its stale
  slots, \<open>Port_Pool\<close> shows that it refines a set of taken ports, and \<open>Ip_Ports\<close> that the pools of all addresses never
  give a port of an address to two owners. The bounds are those of the code: the queue has 65536 slots and a range of
  fewer than 43689 ports never fills it with stale ones; the counters have 32 bits, and the hypothesis \<open>pool_room\<close> says
  that the operations do not exhaust them. The loop that looks for an even port has as many rounds as the code gives it.

  \<^bold>\<open>Allocations\<close> (\<^verbatim>\<open>server/ns_turn_allocation.c\<close>). \<open>Slot_Table\<close> and \<open>Turn_Allocation\<close> model the linked tables of permissions
  and channels. \<open>Alloc_Laws\<close> has their invariant, \<open>Alloc_Refine\<close> the refinement to a set of permitted addresses and a
  partial map from channel numbers to peers, and \<open>Alloc_Clear\<close> the conservation of timers and kernel channels.
  \<open>Tcp_Conn\<close> adds the connections on a heap, and shows that clearing an allocation gives everything back exactly once,
  that a new connection is registered, and the collision of identifiers that a claimed connection makes possible. The
  random numbers are a stream that is an argument; the search for an identifier ends when the stream has a free one.

  \<^bold>\<open>Sessions\<close> (\<^verbatim>\<open>server/ns_turn_server.c\<close>). \<open>Turn_Session\<close> models the check of peer addresses, the lifetimes and timers, and
  the handlers of ChannelBind and CreatePermission. \<open>Session_Laws\<close> and \<open>Session_Exact\<close> show what the loops over the
  attributes leave behind and which requests are accepted. \<open>Session_Safety\<close> puts the layers together: what every request
  does to the abstract allocation, and that no sequence of requests and timeouts permits a forbidden peer. A session is
  reached from a valid allocation without permissions by the steps of an inductive relation.

  \<^bold>\<open>Not modelled.\<close> The other request handlers, the dispatch of messages and the relaying of data work through the sockets
  and timers of the I/O engine. The engine (\<^verbatim>\<open>ns_ioalib_engine_impl.c\<close>), the listeners, start-up, the user databases and
  the consoles are I/O and calls of other libraries, as is the proxy in \<^verbatim>\<open>src/coturn-proxy\<close>; the client and test programs
  are not part of the server. Log output is left out everywhere.
\<close>

end
